(* ===== verification/Prelude.thy ===== *)
theory Prelude
  imports
    Main
    "HOL-Library.Word"
    "HOL-Library.Char_ord"
    "HOL-Library.List_Lexorder"
begin

text \<open>
  Shared vocabulary of the development: byte strings and 64-bit integers, the error
  values that the Go packages exchange, the model of an \<^verbatim>\<open>io.Reader\<close> as the bytes it
  still holds and the way it ends, big-endian integers, and the locale \<open>byte_reader\<close>
  that every streaming component (encrypter, decrypter, chunk decoders) implements.

  Go strings and byte slices are both byte sequences.  Binary payloads are \<open>bytes\<close>
  (lists of 8-bit words); textual values (bucket names, keys, headers) are \<open>string\<close>,
  whose characters are bytes as well.
\<close>

named_theorems reader_simps \<open>equations of the reader model\<close>
named_theorems err_simps \<open>evaluation of errors.Is and errors.As\<close>

section \<open>Bytes and machine integers\<close>

type_synonym byte = "8 word"
type_synonym bytes = "byte list"

definition bytes_of :: "string \<Rightarrow> bytes" where
  "bytes_of s = map of_char s"

definition string_of :: "bytes \<Rightarrow> string" where
  "string_of b = map (\<lambda>w. char_of (unat w)) b"

lemma length_bytes_of [simp]: "length (bytes_of s) = length s"
  by (simp add: bytes_of_def)

lemma length_string_of [simp]: "length (string_of b) = length b"
  by (simp add: string_of_def)

lemma unat_of_char [simp]: "unat (of_char c :: byte) = of_char c"
proof -
  have "(of_char c :: byte) = of_nat (of_char c)"
    by (simp only: of_nat_of_char)
  moreover have "(of_char c :: nat) < 2 ^ LENGTH(8)" by simp
  ultimately show ?thesis by (simp add: unsigned_of_nat take_bit_nat_eq_self)
qed

lemma string_of_bytes_of [simp]: "string_of (bytes_of s) = s"
  by (simp add: string_of_def bytes_of_def comp_def)

lemma bytes_of_inject [simp]: "bytes_of s = bytes_of t \<longleftrightarrow> s = t"
  by (metis string_of_bytes_of)

text \<open>Signed 64-bit arithmetic (\<^verbatim>\<open>int64\<close>, \<^verbatim>\<open>int\<close>): the exact value, wrapped.\<close>

definition i64 :: "int \<Rightarrow> int" where
  "i64 x = signed_take_bit 63 x"

abbreviation "max_i64 \<equiv> (9223372036854775807 :: int)"

lemma i64_id: "- (2 ^ 63) \<le> x \<Longrightarrow> x < 2 ^ 63 \<Longrightarrow> i64 x = x"
  by (simp add: i64_def signed_take_bit_int_eq_self)

lemma i64_range: "- (2 ^ 63) \<le> i64 x" "i64 x < 2 ^ 63"
  using signed_take_bit_int_greater_eq_minus_exp [of 63 x] signed_take_bit_int_less_exp [of 63 x]
  by (simp_all add: i64_def)

section \<open>Slices\<close>

lemma take_drop_append:
  "a \<le> b \<Longrightarrow> b \<le> c \<Longrightarrow>
   take (b - a) (drop a xs) @ take (c - b) (drop b xs) = take (c - a) (drop a xs)"
proof -
  assume "a \<le> b" "b \<le> c"
  then obtain m n where "b = a + m" "c = a + m + n" by (metis le_Suc_ex)
  then show ?thesis by (simp add: take_add add.commute)
qed

lemma take_drop_take:
  "m + n \<le> k \<Longrightarrow> take n (drop m (take k xs)) = take n (drop m xs)"
  by (simp add: drop_take min_def)

section \<open>Errors\<close>

text \<open>
  A Go \<^verbatim>\<open>error\<close> is a tree: \<open>New\<close> is \<^verbatim>\<open>errors.New\<close> (a sentinel is identified by its
  message, which is unique in this code base), \<open>Wrap\<close> is \<^verbatim>\<open>fmt.Errorf\<close> with its \<^verbatim>\<open>%w\<close>
  operands (only the constant part of the message is kept), \<open>APIErr\<close> is the Bot API's
  \<^verbatim>\<open>*APIError\<close> (method, code, description, retry-after) and \<open>S3Err\<close> an \<^verbatim>\<open>*S3Error\<close>
  (code, message, HTTP status).  \<open>Panic\<close> is a run-time panic, which no caller handles.
\<close>

datatype goerr =
    New string
  | Wrap string "goerr list"
  | APIErr string int string int
  | S3Err string string int
  | Panic string

text \<open>\<^verbatim>\<open>errors.Is(err, target)\<close>: some node of the tree is the target.\<close>

fun errors_is :: "goerr \<Rightarrow> goerr \<Rightarrow> bool" where
  "errors_is (Wrap m es) t = (Wrap m es = t \<or> list_ex (\<lambda>e. errors_is e t) es)"
| "errors_is e t = (e = t)"

text \<open>\<^verbatim>\<open>errors.As\<close> for a \<^verbatim>\<open>*S3Error\<close> and for an \<^verbatim>\<open>*APIError\<close>: the first match in
  depth-first order.\<close>

fun first_some :: "('a \<Rightarrow> 'b option) \<Rightarrow> 'a list \<Rightarrow> 'b option" where
  "first_some f [] = None"
| "first_some f (x # xs) = (case f x of Some y \<Rightarrow> Some y | None \<Rightarrow> first_some f xs)"

lemma first_some_cong [fundef_cong]:
  "xs = ys \<Longrightarrow> (\<And>x. x \<in> set ys \<Longrightarrow> f x = g x) \<Longrightarrow> first_some f xs = first_some g ys"
  by (induction ys arbitrary: xs) (auto split: option.splits)

fun as_s3 :: "goerr \<Rightarrow> (string \<times> string \<times> int) option" where
  "as_s3 (S3Err c m s) = Some (c, m, s)"
| "as_s3 (Wrap m es) = first_some as_s3 es"
| "as_s3 e = None"

fun as_api :: "goerr \<Rightarrow> (int \<times> string \<times> int) option" where
  "as_api (APIErr m c d r) = Some (c, d, r)"
| "as_api (Wrap m es) = first_some as_api es"
| "as_api e = None"

definition IoEOF :: goerr where "IoEOF = New ''EOF''"
definition IoUnexpectedEOF :: goerr where "IoUnexpectedEOF = New ''unexpected EOF''"

lemma io_errors_distinct [simp]: "IoEOF \<noteq> IoUnexpectedEOF" "IoUnexpectedEOF \<noteq> IoEOF"
  by (simp_all add: IoEOF_def IoUnexpectedEOF_def)

lemma errors_is_io [simp]:
  "errors_is IoEOF t = (IoEOF = t)" "errors_is IoUnexpectedEOF t = (IoUnexpectedEOF = t)"
  by (simp_all add: IoEOF_def IoUnexpectedEOF_def)

section \<open>Fallible steps over a state\<close>

text \<open>
  A Go function that may return an error and changes a state: \<^verbatim>\<open>x, err := m(); if err !=
  nil { return err }; ...\<close> is \<open>ebind m (\<lambda>x. ...)\<close>.  The state reached when the error occurs
  is kept.
\<close>

type_synonym ('s, 'a) step = "'s \<Rightarrow> (goerr + 'a) \<times> 's"

definition eret :: "'a \<Rightarrow> ('s, 'a) step" where
  "eret x s = (Inr x, s)"

definition efail :: "goerr \<Rightarrow> ('s, 'a) step" where
  "efail e s = (Inl e, s)"

definition ebind :: "('s, 'a) step \<Rightarrow> ('a \<Rightarrow> ('s, 'b) step) \<Rightarrow> ('s, 'b) step" where
  "ebind m f s = (case m s of (Inl e, s') \<Rightarrow> (Inl e, s') | (Inr x, s') \<Rightarrow> f x s')"

text \<open>\<^verbatim>\<open>if err != nil { ... }\<close> with a handler of its own.\<close>

definition ecatch :: "('s, 'a) step \<Rightarrow> (goerr \<Rightarrow> ('s, 'b) step) \<Rightarrow> ('a \<Rightarrow> ('s, 'b) step) \<Rightarrow> ('s, 'b) step" where
  "ecatch m h f s = (case m s of (Inl e, s') \<Rightarrow> h e s' | (Inr x, s') \<Rightarrow> f x s')"

named_theorems step_simps \<open>evaluation of fallible steps\<close>

lemmas [step_simps] = eret_def efail_def

lemma ebind_simps [step_simps]:
  "m s = (Inr x, s') \<Longrightarrow> ebind m f s = f x s'"
  "m s = (Inl e, s') \<Longrightarrow> ebind m f s = (Inl e, s')"
  by (simp_all add: ebind_def)

lemma ecatch_simps [step_simps]:
  "m s = (Inr x, s') \<Longrightarrow> ecatch m h f s = f x s'"
  "m s = (Inl e, s') \<Longrightarrow> ecatch m h f s = h e s'"
  by (simp_all add: ecatch_def)

lemma ebind_Inr: "ebind m f s = (Inr y, t) \<longleftrightarrow> (\<exists>x s'. m s = (Inr x, s') \<and> f x s' = (Inr y, t))"
  by (auto simp: ebind_def split: prod.splits sum.splits)

lemma ebind_Inl: "ebind m f s = (Inl e, t) \<longleftrightarrow>
    m s = (Inl e, t) \<or> (\<exists>x s'. m s = (Inr x, s') \<and> f x s' = (Inl e, t))"
  by (auto simp: ebind_def split: prod.splits sum.splits)

section \<open>Readers\<close>

text \<open>
  What an \<^verbatim>\<open>io.Reader\<close> will still deliver: its remaining bytes and the error after them
  (\<^verbatim>\<open>io.EOF\<close> or a failure).  How the bytes are cut into \<^verbatim>\<open>Read\<close> results is left open; the
  locale \<open>byte_reader\<close> below relates concrete \<^verbatim>\<open>Read\<close> methods to this view.
\<close>

datatype ending = Eof | Fail goerr

type_synonym reader = "bytes \<times> ending"

fun end_err :: "ending \<Rightarrow> goerr" where
  "end_err Eof = IoEOF"
| "end_err (Fail e) = e"

text \<open>
  \<^verbatim>\<open>io.ReadFull(r, buf)\<close> with a buffer of \<open>n\<close> bytes.  When enough bytes arrive the error
  that may accompany the last of them is dropped (\<^verbatim>\<open>io.ReadAtLeast\<close> sets it to nil).
\<close>

definition read_full :: "nat \<Rightarrow> reader \<Rightarrow> bytes \<times> goerr option \<times> reader" where
  "read_full n r = (case r of (d, t) \<Rightarrow>
     if n \<le> length d then (take n d, None, (drop n d, t))
     else (d, Some (case t of Eof \<Rightarrow> if d = [] then IoEOF else IoUnexpectedEOF
                            | Fail e \<Rightarrow> e), ([], t)))"

lemma read_full_enough [reader_simps]:
  "n \<le> length d \<Longrightarrow> read_full n (d, t) = (take n d, None, (drop n d, t))"
  by (simp add: read_full_def)

lemma read_full_short [reader_simps]:
  "length d < n \<Longrightarrow> read_full n (d, t) =
     (d, Some (case t of Eof \<Rightarrow> if d = [] then IoEOF else IoUnexpectedEOF
                       | Fail e \<Rightarrow> e), ([], t))"
  by (simp add: read_full_def)

text \<open>\<^verbatim>\<open>io.LimitReader(r, n)\<close>.\<close>

definition limit_reader :: "int \<Rightarrow> reader \<Rightarrow> reader" where
  "limit_reader n r = (case r of (d, t) \<Rightarrow>
     if int (length d) \<ge> n then (take (nat n) d, Eof) else (d, t))"

text \<open>\<^verbatim>\<open>io.Copy\<close>/\<^verbatim>\<open>io.ReadAll\<close>: everything up to the end, with the error unless it is EOF.\<close>

definition read_all :: "reader \<Rightarrow> bytes \<times> goerr option" where
  "read_all r = (case r of (d, Eof) \<Rightarrow> (d, None) | (d, Fail e) \<Rightarrow> (d, Some e))"

text \<open>\<^verbatim>\<open>io.CopyN(w, r, n)\<close>: exactly \<open>n\<close> bytes, else the reader's error or EOF.\<close>

definition copy_n :: "int \<Rightarrow> reader \<Rightarrow> bytes \<times> goerr option" where
  "copy_n n r = (case r of (d, t) \<Rightarrow>
     if n \<le> int (length d) then (take (nat n) d, None)
     else (d, Some (end_err t)))"

subsection \<open>The contract of a Read method\<close>

text \<open>
  \<open>rd n s\<close> is one call \<^verbatim>\<open>Read(p)\<close> with \<^verbatim>\<open>len(p) = n\<close>: the bytes returned, the error, the
  new state.  \<open>pend s\<close> is what the reader still holds, \<open>ok\<close> the states it can be in.
  A call with room for at least one byte returns a prefix of the pending bytes, makes
  progress when it reports no error, and reports an error only with the last of them.
  Nothing is promised of a reader that has reported an error.
\<close>

locale byte_reader =
  fixes rd :: "nat \<Rightarrow> 's \<Rightarrow> bytes \<times> goerr option \<times> 's"
    and pend :: "'s \<Rightarrow> reader"
    and ok :: "'s \<Rightarrow> bool"
  assumes rd_ok: "ok s \<Longrightarrow> 0 < n \<Longrightarrow> rd n s = (bs, None, s') \<Longrightarrow> ok s'"
    and rd_len: "ok s \<Longrightarrow> 0 < n \<Longrightarrow> rd n s = (bs, e, s') \<Longrightarrow> length bs \<le> n"
    and rd_pend: "ok s \<Longrightarrow> 0 < n \<Longrightarrow> rd n s = (bs, None, s') \<Longrightarrow>
                    fst (pend s) = bs @ fst (pend s') \<and> snd (pend s') = snd (pend s)"
    and rd_progress: "ok s \<Longrightarrow> 0 < n \<Longrightarrow> rd n s = (bs, None, s') \<Longrightarrow> bs \<noteq> []"
    and rd_end: "ok s \<Longrightarrow> 0 < n \<Longrightarrow> rd n s = (bs, Some err, s') \<Longrightarrow>
                    fst (pend s) = bs \<and> err = end_err (snd (pend s))"

text \<open>
  The loop of \<^verbatim>\<open>io.ReadAtLeast\<close> over a \<^verbatim>\<open>Read\<close> method: call \<^verbatim>\<open>Read\<close> with the room that is
  left until it is filled or an error occurs.  The fuel is the number of calls allowed;
  each call without an error delivers a byte, so \<open>n\<close> calls are enough
  (\<open>byte_reader.read_loop_pend\<close>).
\<close>

fun read_loop :: "(nat \<Rightarrow> 's \<Rightarrow> bytes \<times> goerr option \<times> 's) \<Rightarrow> nat \<Rightarrow> nat \<Rightarrow> 's
    \<Rightarrow> (bytes \<times> goerr option \<times> 's) option" where
  "read_loop rd fuel n s =
     (if n = 0 then Some ([], None, s)
      else case fuel of 0 \<Rightarrow> None
      | Suc fuel' \<Rightarrow>
         (case rd n s of (bs, e, s') \<Rightarrow>
            if n \<le> length bs then Some (bs, None, s')
            else case e of
              Some err \<Rightarrow> Some (bs, Some err, s')
            | None \<Rightarrow> map_option (\<lambda>(cs, e', s''). (bs @ cs, e', s''))
                         (read_loop rd fuel' (n - length bs) s')))"

declare read_loop.simps [simp del]

text \<open>
  A caller that reads with buffers of the sizes \<open>ns\<close>, one call each, until an error: the
  concatenated results and that error.
\<close>

fun read_sizes :: "(nat \<Rightarrow> 's \<Rightarrow> bytes \<times> goerr option \<times> 's) \<Rightarrow> nat list \<Rightarrow> 's
    \<Rightarrow> bytes \<times> goerr option" where
  "read_sizes rd [] s = ([], None)"
| "read_sizes rd (n # ns) s =
     (case rd n s of
        (bs, Some err, s') \<Rightarrow> (bs, Some err)
      | (bs, None, s') \<Rightarrow> (case read_sizes rd ns s' of (cs, e) \<Rightarrow> (bs @ cs, e)))"

context byte_reader
begin

text \<open>
  Whatever positive buffer sizes are used, the results are a prefix of the pending bytes,
  an error is the reader's own ending and comes exactly with the last byte, and every call
  without an error delivered something.
\<close>

lemma read_sizes_pend:
  assumes "ok s" "\<forall>n\<in>set ns. 0 < n" "read_sizes rd ns s = (bs, e)"
  shows "\<exists>rest. fst (pend s) = bs @ rest \<and>
    (case e of None \<Rightarrow> length ns \<le> length bs
     | Some x \<Rightarrow> rest = [] \<and> x = end_err (snd (pend s)))"
  using assms
proof (induction ns arbitrary: s bs e)
  case (Cons n ns)
  obtain b x s' where r: "rd n s = (b, x, s')" by (cases "rd n s") auto
  have n: "0 < n" using Cons.prems(2) by simp
  show ?case
  proof (cases x)
    case (Some y)
    then show ?thesis
      using rd_end [OF Cons.prems(1) n r [unfolded Some]] Cons.prems(3) r by auto
  next
    case None
    obtain cs where cs: "read_sizes rd ns s' = (cs, e)" "bs = b @ cs"
      using Cons.prems(3) r None by (auto split: prod.splits)
    note step = rd_ok [OF Cons.prems(1) n r [unfolded None]]
      rd_pend [OF Cons.prems(1) n r [unfolded None]] rd_progress [OF Cons.prems(1) n r [unfolded None]]
    have "\<forall>n\<in>set ns. 0 < n" using Cons.prems(2) by simp
    from Cons.IH [OF step(1) this cs(1)] obtain rest where
      IH: "fst (pend s') = cs @ rest"
        "case e of None \<Rightarrow> length ns \<le> length cs | Some x \<Rightarrow> rest = [] \<and> x = end_err (snd (pend s'))"
      by blast
    have "Suc (length ns) \<le> length bs" if "e = None"
      using IH(2) that step(3) cs(2) by (cases b) auto
    then show ?thesis using IH step(2) cs(2) by (cases e) auto
  qed
qed simp

lemma read_sizes_all:
  assumes "ok s" "\<forall>n\<in>set ns. 0 < n" "length (fst (pend s)) < length ns"
  shows "read_sizes rd ns s = (fst (pend s), Some (end_err (snd (pend s))))"
proof -
  obtain bs e where r: "read_sizes rd ns s = (bs, e)" by (cases "read_sizes rd ns s")
  from read_sizes_pend [OF assms(1,2) r] assms(3) show ?thesis
    unfolding r by (cases e) auto
qed

text \<open>
  However the bytes are cut, filling a buffer of \<open>n\<close> bytes gives the first \<open>n\<close> pending
  bytes, and fails, with the reader's own ending, exactly when fewer are pending.
\<close>

lemma read_loop_pend:
  assumes "ok s" "n \<le> fuel" "pend s = (d, t)"
  shows "\<exists>s'.
    (if n \<le> length d
     then read_loop rd fuel n s = Some (take n d, None, s') \<and>
          (n < length d \<longrightarrow> ok s' \<and> pend s' = (drop n d, t))
     else read_loop rd fuel n s = Some (d, Some (end_err t), s'))"
  using assms
proof (induction fuel arbitrary: n s d)
  case 0
  then show ?case by (auto simp: read_loop.simps)
next
  case (Suc fuel)
  show ?case
  proof (cases "n = 0")
    case True
    with Suc.prems show ?thesis by (auto simp: read_loop.simps)
  next
    case False
    then have n0: "0 < n" by simp
    obtain bs e s' where r: "rd n s = (bs, e, s')" by (cases "rd n s") auto
    have len: "length bs \<le> n" using rd_len [OF Suc.prems(1) n0 r] .
    show ?thesis
    proof (cases e)
      case (Some err)
      have "d = bs" "err = end_err t"
        using rd_end [OF Suc.prems(1) n0 r [unfolded Some]] Suc.prems(3) by auto
      then show ?thesis
        using len False r Some by (auto simp: read_loop.simps)
    next
      case None
      have ok': "ok s'" using rd_ok [OF Suc.prems(1) n0 r [unfolded None]] .
      obtain d' where d: "d = bs @ d'" and p': "pend s' = (d', t)"
        using rd_pend [OF Suc.prems(1) n0 r [unfolded None]] Suc.prems(3) by (cases "pend s'") auto
      show ?thesis
      proof (cases "length bs = n")
        case True
        then show ?thesis using False r d p' ok' by (auto simp: read_loop.simps)
      next
        case short: False
        have "bs \<noteq> []" using rd_progress [OF Suc.prems(1) n0 r [unfolded None]] .
        then have "n - length bs \<le> fuel" using Suc.prems(2) n0 by (cases bs) auto
        from Suc.IH [OF ok' this p'] obtain s'' where
          "if n - length bs \<le> length d'
            then read_loop rd fuel (n - length bs) s' = Some (take (n - length bs) d', None, s'')
                 \<and> (n - length bs < length d' \<longrightarrow>
                      ok s'' \<and> pend s'' = (drop (n - length bs) d', t))
            else read_loop rd fuel (n - length bs) s' = Some (d', Some (end_err t), s'')"
          by blast
        moreover have "read_loop rd (Suc fuel) n s =
            map_option (\<lambda>(cs, e', s''). (bs @ cs, e', s'')) (read_loop rd fuel (n - length bs) s')"
          using short len False r None by (simp add: read_loop.simps [of rd "Suc fuel"])
        ultimately show ?thesis using len d by (auto split: if_splits)
      qed
    qed
  qed
qed

end

section \<open>Big-endian integers\<close>

text \<open>\<^verbatim>\<open>binary.BigEndian.PutUint64\<close> and \<^verbatim>\<open>PutUint32\<close>.\<close>

definition be64 :: "64 word \<Rightarrow> bytes" where
  "be64 i = map (\<lambda>k. ucast (drop_bit (8 * (7 - k)) i)) [0..<8]"

definition be32 :: "32 word \<Rightarrow> bytes" where
  "be32 i = map (\<lambda>k. ucast (drop_bit (8 * (3 - k)) i)) [0..<4]"

text \<open>\<^verbatim>\<open>binary.BigEndian.Uint32\<close> of a four-byte slice.\<close>

definition uint_be :: "bytes \<Rightarrow> nat" where
  "uint_be bs = foldl (\<lambda>a b. a * 256 + unat b) 0 bs"

lemma length_be64 [simp]: "length (be64 i) = 8"
  by (simp add: be64_def)

lemma length_be32 [simp]: "length (be32 i) = 4"
  by (simp add: be32_def)

lemma unat_byte_of: "unat (ucast (drop_bit n (x :: 'a::len word)) :: byte) = unat x div 2 ^ n mod 256"
proof -
  have "unat (drop_bit n x) = unat x div 2 ^ n" by (subst unat_drop_bit_eq) (rule drop_bit_eq_div)
  then show ?thesis by (simp add: unsigned_ucast_eq take_bit_eq_mod del: drop_bit_eq_div)
qed

lemma unat_byte_of_0: "unat (ucast (x :: 'a::len word) :: byte) = unat x mod 256"
  using unat_byte_of [of 0 x] by simp

lemma horner_step: "n div (k * 256) * 256 + n div k mod 256 = n div (k :: nat)"
  by (simp add: div_mult2_eq)

lemma uint_be_be32: "uint_be (be32 x) = unat x"
proof -
  have b: "unat x < 4294967296" using unsigned_less [of x] by simp
  then have "unat x div 16777216 mod 256 = unat x div 16777216" by simp
  moreover have "be32 x = [ucast (drop_bit 24 x), ucast (drop_bit 16 x), ucast (drop_bit 8 x), ucast x]"
    by (simp add: be32_def upt_conv_Cons)
  moreover have p: "(2::nat) ^ 24 = 16777216" "(2::nat) ^ 16 = 65536" "(2::nat) ^ 8 = 256" by simp_all
  have w: "unat (ucast (drop_bit 24 x) :: byte) = unat x div 16777216 mod 256"
    "unat (ucast (drop_bit 16 x) :: byte) = unat x div 65536 mod 256"
    "unat (ucast (drop_bit 8 x) :: byte) = unat x div 256 mod 256"
    by (simp_all only: unat_byte_of p)
  ultimately show ?thesis
    using horner_step [of "unat x" 65536] horner_step [of "unat x" 256] horner_step [of "unat x" 1]
    by (simp only: uint_be_def foldl.simps w unat_byte_of_0) simp
qed

lemma be64_inject [simp]: "be64 x = be64 y \<longleftrightarrow> x = y"
proof
  assume eq: "be64 x = be64 y"
  show "x = y"
  proof (rule bit_word_eqI)
    fix n assume n: "n < LENGTH(64)"
    define k where "k = 7 - n div 8"
    have k: "k < 8" and n': "8 * (7 - k) + n mod 8 = n" using n by (auto simp: k_def)
    have nth: "be64 z ! k = ucast (drop_bit (8 * (7 - k)) z)" for z
      using k by (simp add: be64_def)
    have "bit (be64 z ! k) (n mod 8) = bit z n" for z
      by (simp only: nth) (use n' in \<open>simp add: bit_ucast_iff bit_drop_bit_eq\<close>)
    with eq show "bit x n = bit y n" by metis
  qed
qed simp

end
