(* ===== verification/FrameCrypto.thy ===== *)
theory FrameCrypto
  imports Prelude
begin

text \<open>
  The per-object encryption of \<^verbatim>\<open>internal/crypto/crypto.go\<close>: AES-256-GCM in frames.
  \<open>cipher\<close> is the Go \<^verbatim>\<open>Cipher\<close>; its AEAD (the standard library's AES-GCM under one key)
  is a pair of functions, and \<open>aead_laws\<close> states what the code relies on: \<^verbatim>\<open>Open\<close> inverts
  \<^verbatim>\<open>Seal\<close> for the same nonce and associated data, and a sealed frame is 16 bytes longer.

  The encrypter and the decrypter are modelled twice: as the state machines behind
  \<^verbatim>\<open>Read\<close> (\<open>enc_read\<close>, \<open>dec_read\<close>), and as the whole stream they produce
  (\<open>new_encrypter_with_nonce\<close>, \<open>decrypt_stream\<close>).  The interpretations of \<open>byte_reader\<close>
  show that the first delivers the second.
\<close>

section \<open>Constants and errors\<close>

definition crypto_version :: byte where "crypto_version = 1"
definition header_size :: nat where "header_size = 1 + 12 + 4"
definition nonce_len :: nat where "nonce_len = 12"
definition tag_len :: nat where "tag_len = 16"
definition default_frame_size :: int where "default_frame_size = 64 * 1024"

definition ErrBadVersion :: goerr where
  "ErrBadVersion = New ''crypto: unsupported version byte''"
definition ErrShortInput :: goerr where
  "ErrShortInput = New ''crypto: truncated ciphertext''"

section \<open>The cipher\<close>

record aead =
  seal :: "bytes \<Rightarrow> bytes \<Rightarrow> bytes \<Rightarrow> bytes"          \<comment> \<open>nonce, plaintext, associated data\<close>
  open_ct :: "bytes \<Rightarrow> bytes \<Rightarrow> bytes \<Rightarrow> bytes option"  \<comment> \<open>nonce, ciphertext, associated data\<close>

record cipher =
  aead_of :: aead
  frame_size :: int

text \<open>\<^verbatim>\<open>NewCipher\<close>: \<open>gcm key\<close> is the AES-GCM instance of a 32-byte key.\<close>

definition new_cipher :: "(bytes \<Rightarrow> aead) \<Rightarrow> bytes \<Rightarrow> int \<Rightarrow> goerr + cipher" where
  "new_cipher gcm key fs =
     (if length key \<noteq> 32 then Inl (New ''crypto: want 32-byte key'')
      else let fs' = (if fs \<le> 0 then default_frame_size else fs) in
        if fs' > 2 ^ 30 then Inl (New ''crypto: frame size too large'')
        else Inr \<lparr>aead_of = gcm key, frame_size = fs'\<rparr>)"

text \<open>What the standard library documents of the AEAD.\<close>

definition aead_laws :: "aead \<Rightarrow> bool" where
  "aead_laws a \<longleftrightarrow>
     (\<forall>n p d. open_ct a n (seal a n p d) d = Some p) \<and>
     (\<forall>n p d. length (seal a n p d) = length p + tag_len)"

definition cipher_ok :: "cipher \<Rightarrow> bool" where
  "cipher_ok c \<longleftrightarrow> aead_laws (aead_of c) \<and> 0 < frame_size c \<and> frame_size c \<le> 2 ^ 30"

text \<open>\<^verbatim>\<open>CiphertextSize\<close>, in 64-bit arithmetic.\<close>

definition ciphertext_size :: "cipher \<Rightarrow> int \<Rightarrow> int" where
  "ciphertext_size c n =
     (if n < 0 then 0
      else let fs = frame_size c;
               full = n div fs;
               rem = n mod fs;
               out = i64 (int header_size + i64 (full * i64 (fs + int tag_len)))
           in if rem > 0 \<or> n = 0 then i64 (out + i64 (rem + int tag_len)) else out)"

text \<open>\<^verbatim>\<open>frameNonce\<close>: the frame index is XORed into the low eight bytes (\<open>None\<close> is its panic on a base nonce of the wrong length) and
  \<^verbatim>\<open>frameAAD\<close>.\<close>

definition xor_nonce :: "bytes \<Rightarrow> 64 word \<Rightarrow> bytes" where
  "xor_nonce base i = take 4 base @ map2 (\<lambda>x y. xor x y) (drop 4 base) (be64 i)"

definition frame_nonce :: "bytes \<Rightarrow> 64 word \<Rightarrow> bytes option" where
  "frame_nonce base i =
     (if length base \<noteq> nonce_len then None else Some (xor_nonce base i))"

definition frame_aad :: "64 word \<Rightarrow> bytes" where
  "frame_aad i = be64 i"

section \<open>The encrypter\<close>

record encrypter =
  e_c :: cipher
  e_src :: reader
  e_base :: bytes
  e_header :: bytes
  e_headerN :: nat
  e_remain :: int
  e_idx :: "64 word"
  e_buf :: bytes
  e_out :: nat
  e_emitted :: bool
  e_done :: bool

text \<open>\<^verbatim>\<open>copy(dst[off:off+w], src)\<close> into a zeroed field of width \<open>w\<close>.\<close>

definition copy_field :: "nat \<Rightarrow> bytes \<Rightarrow> bytes" where
  "copy_field w b = take w b @ replicate (w - length b) 0"

definition enc_header :: "cipher \<Rightarrow> bytes \<Rightarrow> bytes" where
  "enc_header c base =
     crypto_version # copy_field nonce_len base @ be32 (word_of_int (frame_size c))"

definition encrypter_init :: "cipher \<Rightarrow> reader \<Rightarrow> int \<Rightarrow> bytes \<Rightarrow> encrypter" where
  "encrypter_init c src n base =
     \<lparr>e_c = c, e_src = src, e_base = base, e_header = enc_header c base, e_headerN = 0,
      e_remain = n, e_idx = 0, e_buf = [], e_out = 0, e_emitted = False, e_done = False\<rparr>"

text \<open>\<^verbatim>\<open>(*encrypter).nextFrame\<close>: \<open>None\<close> is a nil error.\<close>

definition enc_next_frame :: "encrypter \<Rightarrow> goerr option \<times> encrypter" where
  "enc_next_frame e =
     (if e_remain e = 0 \<and> e_emitted e then (Some IoEOF, e\<lparr>e_done := True\<rparr>)
      else let size = (if frame_size (e_c e) > e_remain e then e_remain e
                       else frame_size (e_c e)) in
        if size < 0 then (Some (Panic ''makeslice: len out of range''), e)
        else case read_full (nat size) (e_src e) of
          (plain, Some err, src') \<Rightarrow>
            (Some (if errors_is err IoEOF \<or> errors_is err IoUnexpectedEOF
                   then IoUnexpectedEOF else err), e\<lparr>e_src := src'\<rparr>)
        | (plain, None, src') \<Rightarrow>
            (case frame_nonce (e_base e) (e_idx e) of
              None \<Rightarrow> (Some (Panic ''crypto: base nonce length''), e\<lparr>e_src := src'\<rparr>)
            | Some nonce \<Rightarrow>
                (None,
                 e\<lparr>e_src := src', e_remain := e_remain e - size,
                   e_buf := seal (aead_of (e_c e)) nonce plain (frame_aad (e_idx e)),
                   e_out := 0, e_idx := e_idx e + 1, e_emitted := True,
                   e_done := (e_done e \<or> e_remain e - size = 0)\<rparr>)))"

text \<open>
  The loop of \<^verbatim>\<open>(*encrypter).Read\<close> over the room \<open>n\<close> that is left, with the bytes
  \<open>w\<close> written so far.  A cipher with a frame size of zero would seal empty frames for
  ever; \<^verbatim>\<open>NewCipher\<close> excludes it, and \<open>enc_read_total\<close> shows that every other one
  returns.
\<close>

partial_function (option) enc_loop ::
    "nat \<Rightarrow> bytes \<Rightarrow> encrypter \<Rightarrow> (bytes \<times> goerr option \<times> encrypter) option" where
  "enc_loop n w e =
     (if n = 0 then Some (w, None, e)
      else if e_out e < length (e_buf e) then
        (let k = min n (length (e_buf e) - e_out e) in
         enc_loop (n - k) (w @ take k (drop (e_out e) (e_buf e))) (e\<lparr>e_out := e_out e + k\<rparr>))
      else if e_done e then Some (if w = [] then ([], Some IoEOF, e) else (w, None, e))
      else case enc_next_frame e of
        (Some err, e') \<Rightarrow>
          Some (if errors_is err IoEOF
                then (if w = [] then ([], Some IoEOF, e') else (w, None, e'))
                else (w, Some err, e'))
      | (None, e') \<Rightarrow> enc_loop n w e')"

definition enc_read :: "nat \<Rightarrow> encrypter \<Rightarrow> (bytes \<times> goerr option \<times> encrypter) option" where
  "enc_read n e =
     (if e_headerN e < length (e_header e) then
        let k = min n (length (e_header e) - e_headerN e);
            w = take k (drop (e_headerN e) (e_header e));
            e' = e\<lparr>e_headerN := e_headerN e + k\<rparr>
        in if n - k = 0 then Some (w, None, e') else enc_loop (n - k) w e'
      else enc_loop n [] e)"

subsection \<open>The whole ciphertext stream\<close>

text \<open>
  The frames an encrypter has still to produce, as one reader: the loop
  \<^verbatim>\<open>for nextFrame() == nil\<close>.  The fuel is the plaintext size plus two, which
  \<open>enc_frames_fuel\<close> shows to be enough when the frame size is positive.
\<close>

fun enc_frames :: "nat \<Rightarrow> encrypter \<Rightarrow> reader" where
  "enc_frames 0 e = ([], Fail (Panic ''out of fuel''))"
| "enc_frames (Suc fuel) e =
     (if e_done e then ([], Eof)
      else case enc_next_frame e of
        (Some err, e') \<Rightarrow> ([], if errors_is err IoEOF then Eof else Fail err)
      | (None, e') \<Rightarrow> (case enc_frames fuel e' of (d, t) \<Rightarrow> (e_buf e' @ d, t)))"

definition enc_fuel :: "encrypter \<Rightarrow> nat" where
  "enc_fuel e = nat (e_remain e) + 2"

text \<open>\<^verbatim>\<open>NewEncrypterWithNonce\<close>, as the reader it returns.\<close>

definition new_encrypter_with_nonce :: "cipher \<Rightarrow> reader \<Rightarrow> int \<Rightarrow> bytes \<Rightarrow> reader" where
  "new_encrypter_with_nonce c src n base =
     (let e = encrypter_init c src n base in
      case enc_frames (enc_fuel e) e of (d, t) \<Rightarrow> (e_header e @ d, t))"

text \<open>\<^verbatim>\<open>NewEncrypter\<close>: \<open>rnd\<close> is what the random source delivers.\<close>

definition new_encrypter :: "bytes \<Rightarrow> cipher \<Rightarrow> reader \<Rightarrow> int \<Rightarrow> reader \<times> bytes" where
  "new_encrypter rnd c src n =
     (let base = copy_field nonce_len rnd in (new_encrypter_with_nonce c src n base, base))"

section \<open>The decrypter\<close>

record decrypter =
  d_c :: cipher
  d_src :: reader
  d_base :: bytes
  d_frameSize :: int
  d_idx :: "64 word"
  d_plain :: bytes
  d_out :: nat
  d_atEOF :: bool

text \<open>\<^verbatim>\<open>NewDecrypter\<close> with \<^verbatim>\<open>readHeader\<close>.\<close>

definition new_decrypter :: "cipher \<Rightarrow> reader \<Rightarrow> goerr + decrypter" where
  "new_decrypter c src =
     (case read_full header_size src of
        (hdr, Some err, src') \<Rightarrow> Inl (Wrap ''crypto: read header'' [err])
      | (hdr, None, src') \<Rightarrow>
          if hdr ! 0 \<noteq> crypto_version then Inl ErrBadVersion
          else let fs = int (uint_be (drop (1 + nonce_len) hdr)) in
            if fs \<le> 0 \<or> fs > 2 ^ 30 then Inl (New ''crypto: bad frame size in header'')
            else Inr \<lparr>d_c = c, d_src = src', d_base = take nonce_len (drop 1 hdr),
                      d_frameSize = fs, d_idx = 0, d_plain = [], d_out = 0,
                      d_atEOF = False\<rparr>)"

text \<open>The part of \<^verbatim>\<open>(*decrypter).nextFrame\<close> after the read: open one frame.\<close>

definition dec_open_frame :: "decrypter \<Rightarrow> bytes \<Rightarrow> goerr option \<times> decrypter" where
  "dec_open_frame d buf =
     (case frame_nonce (d_base d) (d_idx d) of
        None \<Rightarrow> (Some (Panic ''crypto: base nonce length''), d)
      | Some nonce \<Rightarrow>
         (case open_ct (aead_of (d_c d)) nonce buf (frame_aad (d_idx d)) of
            None \<Rightarrow> (Some (Wrap ''crypto: frame'' [New ''cipher: message authentication failed'']), d)
          | Some plain \<Rightarrow>
              (None, d\<lparr>d_idx := d_idx d + 1, d_plain := plain, d_out := 0\<rparr>)))"

definition dec_next_frame :: "decrypter \<Rightarrow> goerr option \<times> decrypter" where
  "dec_next_frame d =
     (case read_full (nat (d_frameSize d) + tag_len) (d_src d) of
        (buf, None, src') \<Rightarrow> dec_open_frame (d\<lparr>d_src := src'\<rparr>) buf
      | (buf, Some err, src') \<Rightarrow>
          let d' = d\<lparr>d_src := src'\<rparr> in
          if errors_is err IoEOF then (Some IoEOF, d'\<lparr>d_atEOF := True\<rparr>)
          else if errors_is err IoUnexpectedEOF then
            (if length buf < tag_len then (Some ErrShortInput, d')
             else dec_open_frame (d'\<lparr>d_atEOF := True\<rparr>) buf)
          else (Some err, d'))"

text \<open>\<^verbatim>\<open>(*decrypter).Read\<close>.  Every iteration either fills some of the buffer, consumes
  ciphertext or meets its end, so the loop ends for every input.\<close>

lemma read_full_shrinks:
  "read_full (n + tag_len) r = (buf, None, r') \<Longrightarrow> length (fst r') < length (fst r)"
  by (auto simp: read_full_def tag_len_def split: prod.splits if_splits)

lemma read_full_no_growth:
  "read_full n r = (buf, e, r') \<Longrightarrow> length (fst r') \<le> length (fst r)"
  by (auto simp: read_full_def split: prod.splits if_splits)

lemma dec_open_frame_src [simp]:
  "d_src (snd (dec_open_frame d buf)) = d_src d"
  "d_atEOF (snd (dec_open_frame d buf)) = d_atEOF d"
  by (auto simp: dec_open_frame_def split: option.splits)

definition dec_measure :: "decrypter \<Rightarrow> nat" where
  "dec_measure d = length (fst (d_src d)) + (if d_atEOF d then 0 else 1)"

lemma dec_next_frame_measure:
  assumes "dec_next_frame d = (None, d')" and "\<not> d_atEOF d"
  shows "dec_measure d' < dec_measure d"
proof -
  obtain buf e r where r: "read_full (nat (d_frameSize d) + tag_len) (d_src d) = (buf, e, r)"
    by (cases "read_full (nat (d_frameSize d) + tag_len) (d_src d)") auto
  show ?thesis
  proof (cases e)
    case None
    then have "snd (dec_open_frame (d\<lparr>d_src := r\<rparr>) buf) = d'"
      using assms(1) r by (simp add: dec_next_frame_def)
    then have "d_src d' = r" "d_atEOF d' = d_atEOF d" by auto
    then show ?thesis
      using read_full_shrinks [OF r [unfolded None]] by (simp add: dec_measure_def)
  next
    case (Some err)
    then have "snd (dec_open_frame (d\<lparr>d_src := r, d_atEOF := True\<rparr>) buf) = d'"
      using assms(1) r by (auto simp: dec_next_frame_def Let_def split: if_splits)
    then have "d_src d' = r" "d_atEOF d'" by auto
    then show ?thesis
      using read_full_no_growth [OF r] assms(2) by (simp add: dec_measure_def)
  qed
qed

function dec_loop :: "nat \<Rightarrow> bytes \<Rightarrow> decrypter \<Rightarrow> bytes \<times> goerr option \<times> decrypter" where
  "dec_loop n w d =
     (if n = 0 then (w, None, d)
      else if d_out d < length (d_plain d) then
        (let k = min n (length (d_plain d) - d_out d) in
         dec_loop (n - k) (w @ take k (drop (d_out d) (d_plain d))) (d\<lparr>d_out := d_out d + k\<rparr>))
      else if d_atEOF d then (if w = [] then ([], Some IoEOF, d) else (w, None, d))
      else case dec_next_frame d of
        (Some err, d') \<Rightarrow>
          (if errors_is err IoEOF
           then (if w = [] then ([], Some IoEOF, d') else (w, None, d'))
           else (w, Some err, d'))
      | (None, d') \<Rightarrow> dec_loop n w d')"
  by pat_completeness auto
termination
proof (relation "measures [\<lambda>(n, w, d). dec_measure d, \<lambda>(n, w, d). n]", goal_cases)
  case 1
  show ?case by simp
next
  case (2 n w d k)
  then show ?case by (simp add: dec_measure_def)
next
  case (3 n w d e d')
  then show ?case using dec_next_frame_measure by auto
qed

declare dec_loop.simps [simp del]

definition dec_read :: "nat \<Rightarrow> decrypter \<Rightarrow> bytes \<times> goerr option \<times> decrypter" where
  "dec_read n d = dec_loop n [] d"

text \<open>The whole plaintext the decrypter still delivers.\<close>

function dec_frames :: "decrypter \<Rightarrow> reader" where
  "dec_frames d =
     (if d_atEOF d then ([], Eof)
      else case dec_next_frame d of
        (Some err, d') \<Rightarrow> ([], if errors_is err IoEOF then Eof else Fail err)
      | (None, d') \<Rightarrow> (case dec_frames d' of (p, t) \<Rightarrow> (d_plain d' @ p, t)))"
  by pat_completeness auto
termination
  by (relation "measure dec_measure") (auto intro: dec_next_frame_measure)

declare dec_frames.simps [simp del]

definition decrypt_stream :: "cipher \<Rightarrow> reader \<Rightarrow> goerr + reader" where
  "decrypt_stream c src =
     (case new_decrypter c src of Inl e \<Rightarrow> Inl e | Inr d \<Rightarrow> Inr (dec_frames d))"

section \<open>Range decryption\<close>

text \<open>\<^verbatim>\<open>ReadAt(buf, off)\<close> on a file: an error unless all of \<open>buf\<close> can be filled.\<close>

definition read_at :: "bytes \<Rightarrow> int \<Rightarrow> int \<Rightarrow> goerr + bytes" where
  "read_at f n off =
     (if n < 0 then Inl (Panic ''makeslice: len out of range'')
      else if off < 0 then Inl (New ''negative offset'')
      else if off + n \<le> int (length f) then Inr (take (nat n) (drop (nat off) f))
      else Inl IoEOF)"

text \<open>The part of a decrypted frame that lies in the range: \<^verbatim>\<open>plain[lo:hi]\<close>.\<close>

definition range_slice :: "int \<Rightarrow> int \<Rightarrow> int \<Rightarrow> bytes \<Rightarrow> goerr + bytes" where
  "range_slice start end fstart plain =
     (let fend = i64 (fstart + int (length plain) - 1);
          lo = (if start > fstart then start - fstart else 0);
          hi = (if end < fend then end - fstart + 1 else int (length plain))
      in if 0 \<le> lo \<and> lo \<le> hi \<and> hi \<le> int (length plain)
         then Inr (take (nat (hi - lo)) (drop (nat lo) plain))
         else Inl (Panic ''slice bounds out of range''))"

text \<open>One iteration of the loop of \<^verbatim>\<open>DecryptRange\<close>: the plaintext bytes frame \<open>i\<close>
  contributes.\<close>

definition range_frame ::
    "cipher \<Rightarrow> bytes \<Rightarrow> int \<Rightarrow> bytes \<Rightarrow> int \<Rightarrow> int \<Rightarrow> int \<Rightarrow> nat \<Rightarrow> goerr + bytes" where
  "range_frame c ct cts base fs start end i =
     (let off = i64 (int header_size + i64 (int i * (fs + int tag_len)));
          remaining = i64 (cts - off) in
      if remaining \<le> int tag_len then Inl (New ''crypto: frame past ciphertext end'')
      else let sz = (if fs + int tag_len > remaining then remaining else fs + int tag_len) in
        case read_at ct sz off of
          Inl e \<Rightarrow> Inl (Wrap ''crypto: read frame'' [e])
        | Inr buf \<Rightarrow>
          (case frame_nonce base (of_nat i) of
             None \<Rightarrow> Inl (Panic ''crypto: base nonce length'')
           | Some nonce \<Rightarrow>
             (case open_ct (aead_of c) nonce buf (frame_aad (of_nat i)) of
                None \<Rightarrow> Inl (Wrap ''crypto: frame'' [New ''cipher: message authentication failed''])
              | Some plain \<Rightarrow>
                 range_slice start end (i64 (int i * fs)) plain)))"

text \<open>The loop \<^verbatim>\<open>for i := firstFrame; i <= lastFrame; i++\<close>: what was written to \<^verbatim>\<open>dst\<close>
  and the error that ended it.\<close>

function range_loop ::
    "(nat \<Rightarrow> goerr + bytes) \<Rightarrow> nat \<Rightarrow> nat \<Rightarrow> bytes \<times> goerr option" where
  "range_loop f i fin =
     (if i \<le> fin then
        (case f i of
           Inl e \<Rightarrow> ([], Some e)
         | Inr b \<Rightarrow> (case range_loop f (Suc i) fin of (d, e) \<Rightarrow> (b @ d, e)))
      else ([], None))"
  by pat_completeness auto
termination
  by (relation "measure (\<lambda>(f, i, fin). Suc fin - i)") auto

declare range_loop.simps [simp del]

definition decrypt_range ::
    "cipher \<Rightarrow> bytes \<Rightarrow> int \<Rightarrow> int \<Rightarrow> int \<Rightarrow> bytes \<times> goerr option" where
  "decrypt_range c ct cts start end =
     (if start < 0 \<or> end < start then ([], Some (New ''crypto: bad range''))
      else case read_at ct (int header_size) 0 of
        Inl e \<Rightarrow> ([], Some (Wrap ''crypto: read header'' [e]))
      | Inr hdr \<Rightarrow>
          if hdr ! 0 \<noteq> crypto_version then ([], Some ErrBadVersion)
          else let base = take nonce_len (drop 1 hdr);
                   fs = int (uint_be (drop (1 + nonce_len) hdr)) in
            if fs \<le> 0 then ([], Some (New ''crypto: bad frame size''))
            else range_loop (range_frame c ct cts base fs start end)
                   (nat (start div fs)) (nat (end div fs)))"

section \<open>Frames\<close>

text \<open>The specification of the on-disk layout: the plaintext cut into frames (one empty
  frame when it is empty), each sealed under its index.\<close>

function frames_of :: "nat \<Rightarrow> bytes \<Rightarrow> bytes list" where
  "frames_of k p = (if p = [] \<or> k = 0 then [] else take k p # frames_of k (drop k p))"
  by pat_completeness auto
termination
  by (relation "measure (\<lambda>(k, p). length p)") auto

declare frames_of.simps [simp del]

definition plain_frames :: "nat \<Rightarrow> bytes \<Rightarrow> bytes list" where
  "plain_frames k p = (if p = [] then [[]] else frames_of k p)"

fun sealed :: "aead \<Rightarrow> bytes \<Rightarrow> 64 word \<Rightarrow> bytes list \<Rightarrow> bytes" where
  "sealed a b i [] = []"
| "sealed a b i (p # ps) = seal a (xor_nonce b i) p (frame_aad i) @ sealed a b (i + 1) ps"

fun wf_frames :: "nat \<Rightarrow> bytes list \<Rightarrow> bool" where
  "wf_frames k [] = True"
| "wf_frames k [p] = (length p \<le> k)"
| "wf_frames k (p # q # ps) = (length p = k \<and> wf_frames k (q # ps))"

lemma frames_of_Nil [simp]: "frames_of k [] = []"
  by (simp add: frames_of.simps)

lemma frames_of_step: "p \<noteq> [] \<Longrightarrow> 0 < k \<Longrightarrow> frames_of k p = take k p # frames_of k (drop k p)"
  by (subst frames_of.simps) simp

lemma concat_frames_of: "0 < k \<Longrightarrow> concat (frames_of k p) = p"
  by (induction k p rule: frames_of.induct) (subst frames_of.simps, auto)

lemma concat_plain_frames: "0 < k \<Longrightarrow> concat (plain_frames k p) = p"
  by (simp add: plain_frames_def concat_frames_of)

lemma wf_frames_Cons:
  "wf_frames k (p # ps) \<longleftrightarrow> (if ps = [] then length p \<le> k else length p = k) \<and> wf_frames k ps"
  by (cases ps) auto

lemma wf_frames_of: "0 < k \<Longrightarrow> wf_frames k (frames_of k p)"
proof (induction k p rule: frames_of.induct)
  case (1 k p)
  show ?case
  proof (cases "p = []")
    case False
    have "frames_of k (drop k p) = [] \<longleftrightarrow> drop k p = []"
      using 1(2) by (subst frames_of.simps) auto
    with False 1 show ?thesis by (auto simp: frames_of_step wf_frames_Cons)
  qed simp
qed

lemma wf_plain_frames: "0 < k \<Longrightarrow> wf_frames k (plain_frames k p)"
  by (simp add: plain_frames_def wf_frames_of)

lemma wf_frames_take: "wf_frames k ps \<Longrightarrow> wf_frames k (take m ps)"
  by (induction ps arbitrary: m)
    (auto simp: wf_frames_Cons take_Cons split: nat.splits if_splits)

lemma length_xor_nonce [simp]: "length b = nonce_len \<Longrightarrow> length (xor_nonce b i) = nonce_len"
  by (simp add: xor_nonce_def nonce_len_def)

section \<open>What the encrypter produces\<close>

lemma enc_frames_done [simp]: "e_done e \<Longrightarrow> 0 < fuel \<Longrightarrow> enc_frames fuel e = ([], Eof)"
  by (cases fuel) auto

lemma enc_next_frame_ok:
  assumes "\<not> (e_remain e = 0 \<and> e_emitted e)" "e_src e = (p @ rest, t)"
    "e_remain e = int (length p)" "length (e_base e) = nonce_len" "frame_size (e_c e) = int k"
  shows "enc_next_frame e = (None,
    e\<lparr>e_src := (drop k p @ rest, t), e_remain := int (length (drop k p)),
      e_buf := seal (aead_of (e_c e)) (xor_nonce (e_base e) (e_idx e)) (take k p)
                 (frame_aad (e_idx e)),
      e_out := 0, e_idx := e_idx e + 1, e_emitted := True,
      e_done := (e_done e \<or> drop k p = [])\<rparr>)"
proof (cases "k < length p")
  case True
  then show ?thesis using assms
    by (auto simp: enc_next_frame_def Let_def reader_simps frame_nonce_def)
next
  case False
  then show ?thesis using assms
    by (auto simp: enc_next_frame_def Let_def reader_simps frame_nonce_def)
qed

lemma enc_frames_spec:
  assumes "\<not> e_done e" "\<not> (e_remain e = 0 \<and> e_emitted e)" "e_src e = (p @ rest, t)"
    "e_remain e = int (length p)" "length (e_base e) = nonce_len"
    "frame_size (e_c e) = int k" "0 < k" "length p + 2 \<le> fuel"
  shows "enc_frames fuel e =
    (sealed (aead_of (e_c e)) (e_base e) (e_idx e) (plain_frames k p), Eof)"
  using assms
proof (induction fuel arbitrary: e p)
  case (Suc fuel)
  note step = enc_next_frame_ok [OF Suc.prems(2-6)]
  show ?case
  proof (cases "drop k p = []")
    case True
    then have "plain_frames k p = [take k p]"
      using Suc.prems(7) by (simp add: plain_frames_def frames_of_step)
    then show ?thesis using Suc.prems step True by simp
  next
    case False
    then have ne: "p \<noteq> []" by auto
    then have pf: "plain_frames k p = take k p # plain_frames k (drop k p)"
      using False Suc.prems(7) by (simp add: plain_frames_def frames_of_step)
    let ?e = "snd (enc_next_frame e)"
    have fuel: "length (drop k p) + 2 \<le> fuel" using Suc.prems(7,8) ne by (cases p) auto
    have "enc_frames fuel ?e =
      (sealed (aead_of (e_c ?e)) (e_base ?e) (e_idx ?e) (plain_frames k (drop k p)), Eof)"
      by (rule Suc.IH) (use Suc.prems step False fuel in auto)
    then show ?thesis using Suc.prems(1) step pf by simp
  qed
qed simp

text \<open>The functional specification of an encrypted object.\<close>

definition encrypted :: "cipher \<Rightarrow> bytes \<Rightarrow> bytes \<Rightarrow> bytes" where
  "encrypted c base p =
     enc_header c base @ sealed (aead_of c) base 0 (plain_frames (nat (frame_size c)) p)"

lemma encrypter_correct:
  assumes "0 < frame_size c" "length base = nonce_len"
  shows "new_encrypter_with_nonce c (p @ rest, t) (int (length p)) base
         = (encrypted c base p, Eof)"
proof -
  let ?e = "encrypter_init c (p @ rest, t) (int (length p)) base"
  have "enc_fuel ?e = length p + 2" by (simp add: enc_fuel_def encrypter_init_def)
  moreover have "enc_frames (length p + 2) ?e =
      (sealed (aead_of c) base 0 (plain_frames (nat (frame_size c)) p), Eof)"
    using enc_frames_spec [of ?e p rest t "nat (frame_size c)" "length p + 2"] assms
    by (simp add: encrypter_init_def del: enc_frames.simps)
  moreover have "e_header ?e = enc_header c base" by (simp add: encrypter_init_def)
  ultimately show ?thesis
    by (simp add: new_encrypter_with_nonce_def encrypted_def Let_def del: enc_frames.simps)
qed

section \<open>What the decrypter delivers\<close>

lemma aead_open_seal: "aead_laws a \<Longrightarrow> open_ct a n (seal a n p d) d = Some p"
  by (simp add: aead_laws_def)

lemma aead_seal_length: "aead_laws a \<Longrightarrow> length (seal a n p d) = length p + tag_len"
  by (simp add: aead_laws_def)

lemma length_sealed:
  "aead_laws a \<Longrightarrow> length (sealed a b i ps) = length (concat ps) + tag_len * length ps"
  by (induction ps arbitrary: i) (auto simp: aead_seal_length)

lemma dec_frames_atEOF [simp]: "d_atEOF d \<Longrightarrow> dec_frames d = ([], Eof)"
  by (subst dec_frames.simps) simp

lemma dec_frames_spec:
  assumes "aead_laws (aead_of (d_c d))" "\<not> d_atEOF d" "length (d_base d) = nonce_len"
    "d_frameSize d = int k" "wf_frames k ps"
    "d_src d = (sealed (aead_of (d_c d)) (d_base d) (d_idx d) ps, Eof)"
  shows "dec_frames d = (concat ps, Eof)"
  using assms
proof (induction ps arbitrary: d)
  case Nil
  then have "dec_next_frame d = (Some IoEOF, d\<lparr>d_src := ([], Eof), d_atEOF := True\<rparr>)"
    by (simp add: dec_next_frame_def reader_simps tag_len_def)
  with Nil.prems(2) show ?case by (subst dec_frames.simps) simp
next
  case (Cons p ps)
  let ?a = "aead_of (d_c d)" and ?n = "xor_nonce (d_base d) (d_idx d)"
    and ?ct = "seal (aead_of (d_c d)) (xor_nonce (d_base d) (d_idx d)) p (frame_aad (d_idx d))"
  have src: "d_src d = (?ct @ sealed ?a (d_base d) (d_idx d + 1) ps, Eof)"
    using Cons.prems(6) by simp
  have len: "length ?ct = length p + tag_len"
    using Cons.prems(1) by (rule aead_seal_length)
  have nonce: "frame_nonce (d_base d) (d_idx d) = Some ?n"
    using Cons.prems(3) by (simp add: frame_nonce_def)
  have opn: "open_ct ?a ?n ?ct (frame_aad (d_idx d)) = Some p"
    using Cons.prems(1) by (rule aead_open_seal)
  show ?case
  proof (cases "length p = k")
    case True
    let ?d = "d\<lparr>d_src := (sealed ?a (d_base d) (d_idx d + 1) ps, Eof), d_idx := d_idx d + 1,
                d_plain := p, d_out := 0\<rparr>"
    have "dec_next_frame d = (None, ?d)"
      using True len src nonce opn Cons.prems(4)
      by (simp add: dec_next_frame_def reader_simps dec_open_frame_def)
    moreover have "dec_frames ?d = (concat ps, Eof)"
      by (rule Cons.IH) (use Cons.prems in \<open>auto simp: wf_frames_Cons\<close>)
    ultimately show ?thesis using Cons.prems(2) by (subst dec_frames.simps) simp
  next
    case False
    then have ps: "ps = []" and lt: "length p < k"
      using Cons.prems(5) by (auto simp: wf_frames_Cons split: if_splits)
    let ?d = "d\<lparr>d_src := ([], Eof), d_atEOF := True, d_idx := d_idx d + 1,
                d_plain := p, d_out := 0\<rparr>"
    have ne: "?ct \<noteq> []" using len by (auto simp: tag_len_def)
    have "dec_next_frame d = (None, ?d)"
      using ps lt len ne src nonce opn Cons.prems(4)
      by (simp add: dec_next_frame_def reader_simps dec_open_frame_def Let_def)
    then show ?thesis using Cons.prems(2) ps by (subst dec_frames.simps) simp
  qed
qed

lemma length_enc_header [simp]: "length base = nonce_len \<Longrightarrow> length (enc_header c base) = header_size"
  by (simp add: enc_header_def copy_field_def header_size_def nonce_len_def)

lemma enc_header_fields:
  assumes "length base = nonce_len" "0 < frame_size c" "frame_size c \<le> 2 ^ 30"
  shows "enc_header c base ! 0 = crypto_version"
    "take nonce_len (drop 1 (enc_header c base)) = base"
    "uint_be (drop (1 + nonce_len) (enc_header c base)) = nat (frame_size c)"
proof -
  have "unat (word_of_int (frame_size c) :: 32 word) = nat (frame_size c)"
    using assms by (simp add: unsigned_of_int take_bit_int_eq_self)
  then show "uint_be (drop (1 + nonce_len) (enc_header c base)) = nat (frame_size c)"
    using assms(1) by (simp add: enc_header_def copy_field_def uint_be_be32)
qed (use assms(1) in \<open>simp_all add: enc_header_def copy_field_def\<close>)

lemma new_decrypter_header:
  assumes "length base = nonce_len" "0 < frame_size c" "frame_size c \<le> 2 ^ 30"
  shows "new_decrypter c (enc_header c base @ ct, t) =
    Inr \<lparr>d_c = c, d_src = (ct, t), d_base = base, d_frameSize = frame_size c, d_idx = 0,
         d_plain = [], d_out = 0, d_atEOF = False\<rparr>"
  using assms enc_header_fields [OF assms] by (simp add: new_decrypter_def reader_simps Let_def)

text \<open>Decrypting any sequence of well-formed frames, complete or not.\<close>

lemma decrypt_sealed:
  assumes "cipher_ok c" "length base = nonce_len" "wf_frames (nat (frame_size c)) ps"
  shows "decrypt_stream c (enc_header c base @ sealed (aead_of c) base 0 ps, Eof)
         = Inr (concat ps, Eof)"
proof -
  have fs: "0 < frame_size c" "frame_size c \<le> 2 ^ 30" and laws: "aead_laws (aead_of c)"
    using assms(1) by (auto simp: cipher_ok_def)
  show ?thesis
    using new_decrypter_header [OF assms(2) fs] dec_frames_spec [of _ "nat (frame_size c)" ps]
      laws fs assms(2,3)
    by (simp add: decrypt_stream_def)
qed

lemma decrypt_encrypted:
  assumes "cipher_ok c" "length base = nonce_len"
  shows "decrypt_stream c (encrypted c base p, Eof) = Inr (p, Eof)"
proof -
  have "0 < nat (frame_size c)" using assms(1) by (simp add: cipher_ok_def)
  then show ?thesis
    using decrypt_sealed [OF assms wf_plain_frames] by (simp add: encrypted_def concat_plain_frames)
qed

section \<open>Sizes\<close>

lemma length_frames_of:
  "0 < k \<Longrightarrow> length (frames_of k p) = length p div k + (if length p mod k = 0 then 0 else 1)"
proof (induction k p rule: frames_of.induct)
  case (1 k p)
  show ?case
  proof (cases "p = []")
    case False
    then have "length (frames_of k p) = Suc (length (frames_of k (drop k p)))"
      using 1(2) by (simp add: frames_of_step)
    also have "\<dots> = Suc ((length p - k) div k + (if (length p - k) mod k = 0 then 0 else 1))"
      using 1 False by simp
    also have "\<dots> = length p div k + (if length p mod k = 0 then 0 else 1)"
      using 1(2) False by (cases "length p < k") (auto simp: le_div_geq le_mod_geq)
    finally show ?thesis .
  qed simp
qed

lemma length_encrypted:
  assumes "cipher_ok c" "length base = nonce_len"
  shows "length (encrypted c base p) =
    header_size + length p + tag_len * length (plain_frames (nat (frame_size c)) p)"
  using assms
  by (simp add: encrypted_def cipher_ok_def length_sealed concat_plain_frames)

lemma ciphertext_size_exact:
  assumes "0 < frame_size c" "frame_size c \<le> 2 ^ 30" "0 \<le> n" "n \<le> 2 ^ 58"
  shows "ciphertext_size c n = int header_size + n
    + int tag_len * (n div frame_size c + (if n mod frame_size c = 0 \<and> n \<noteq> 0 then 0 else 1))"
proof -
  define k where "k = frame_size c"
  define q where "q = n div k"
  define r where "r = n mod k"
  have k: "0 < k" "k \<le> 2 ^ 30" using assms by (simp_all add: k_def)
  have q: "0 \<le> q" "q \<le> n"
    using assms zdiv_mono2 [of n 1 k] k by (simp_all add: q_def pos_imp_zdiv_nonneg_iff)
  have r: "0 \<le> r" "r < k" using k by (simp_all add: r_def)
  have nq: "n = q * k + r" by (simp add: q_def r_def)
  have full: "q * (k + 16) = n - r + 16 * q" using nq by (simp add: algebra_simps)
  have fs: "i64 (k + 16) = k + 16" using k by (intro i64_id) auto
  have 1: "i64 (q * (k + 16)) = q * (k + 16)"
    unfolding full using q r k assms by (intro i64_id) auto
  have 2: "i64 (17 + q * (k + 16)) = 17 + q * (k + 16)"
    unfolding full using q r k assms by (intro i64_id) auto
  have 3: "i64 (r + 16) = r + 16"
    using r k by (intro i64_id) auto
  have 4: "i64 (33 + (q * (k + 16) + r)) = 33 + (q * (k + 16) + r)"
    unfolding full using q r k assms by (intro i64_id) auto
  have "ciphertext_size c n = (if r > 0 \<or> n = 0 then 17 + q * (k + 16) + (r + 16)
      else 17 + q * (k + 16))"
    using assms(3) by (simp add: ciphertext_size_def Let_def header_size_def tag_len_def fs 1 2 3 4
        flip: k_def q_def r_def)
  also have "\<dots> = 17 + n + 16 * (q + (if r = 0 \<and> n \<noteq> 0 then 0 else 1))"
    using full r by auto
  finally show ?thesis by (simp add: header_size_def tag_len_def k_def q_def r_def)
qed

lemma ciphertext_size_encrypted:
  assumes "cipher_ok c" "length base = nonce_len" "length p \<le> 2 ^ 58"
  shows "ciphertext_size c (int (length p)) = int (length (encrypted c base p))"
proof -
  define k where "k = nat (frame_size c)"
  have k: "frame_size c = int k" "0 < k" "int k \<le> 2 ^ 30"
    using assms(1) by (auto simp: cipher_ok_def k_def)
  have n: "int (length p) \<le> 2 ^ 58" using assms(3) by simp
  have "length (plain_frames k p) = length p div k + (if length p mod k = 0 \<and> p \<noteq> [] then 0 else 1)"
    using k by (auto simp: plain_frames_def length_frames_of)
  then show ?thesis
    using ciphertext_size_exact [of c "int (length p)"] k n length_encrypted [OF assms(1,2), of p]
    by (auto simp: k_def [symmetric] simp flip: zdiv_int zmod_int)
qed

section \<open>Frame nonces\<close>

lemma map2_xor_cancel:
  "length b = length x \<Longrightarrow> length b = length y \<Longrightarrow>
   map2 (\<lambda>p q. xor p q) b x = map2 (\<lambda>p q. xor p q) b (y :: bytes) \<longleftrightarrow> x = y"
proof (induction b arbitrary: x y)
  case (Cons a b)
  have "xor a p = xor a q \<longleftrightarrow> p = q" for p q :: byte
    by (metis bit.xor_left_self)
  with Cons show ?case by (cases x; cases y) auto
qed simp

lemma xor_nonce_inject:
  "length base = nonce_len \<Longrightarrow> xor_nonce base i = xor_nonce base j \<longleftrightarrow> i = j"
  using map2_xor_cancel [of "drop 4 base" "be64 i" "be64 j"]
  by (simp add: xor_nonce_def nonce_len_def)

section \<open>Range decryption is correct\<close>

lemma nth_frames_of:
  "0 < k \<Longrightarrow> i * k < length p \<Longrightarrow>
     i < length (frames_of k p) \<and> frames_of k p ! i = take k (drop (i * k) p)"
proof (induction i arbitrary: p)
  case 0
  then have "p \<noteq> []" by auto
  with 0 show ?case by (simp add: frames_of_step)
next
  case (Suc i)
  then have ne: "p \<noteq> []" by auto
  from Suc have "i * k < length (drop k p)" by (simp add: less_diff_conv add.commute)
  from Suc.IH [OF Suc.prems(1) this] ne Suc.prems(1) show ?case
    by (simp add: frames_of_step add.commute)
qed

text \<open>The ciphertext of frame \<open>i\<close> sits at offset \<open>i * (k + 16)\<close> after the header.\<close>

lemma sealed_nth:
  assumes "aead_laws a" "wf_frames k ps" "i < length ps"
  shows "take (k + tag_len) (drop (i * (k + tag_len)) (sealed a b j ps)) =
           seal a (xor_nonce b (j + of_nat i)) (ps ! i) (frame_aad (j + of_nat i))"
    and "i * (k + tag_len) + length (ps ! i) + tag_len \<le> length (sealed a b j ps)"
    and "length (ps ! i) < k \<Longrightarrow>
      i * (k + tag_len) + length (ps ! i) + tag_len = length (sealed a b j ps)"
  using assms
proof (induction ps arbitrary: i j)
  case (Cons p ps)
  case 1
  show ?case
  proof (cases i)
    case 0
    have "length p \<le> k" using 1 by (cases ps) auto
    then have "ps = [] \<or> length p = k" using 1 by (cases ps) auto
    with 0 1 \<open>length p \<le> k\<close> show ?thesis by (auto simp: aead_seal_length)
  next
    case (Suc i')
    then have "ps \<noteq> []" using 1 by auto
    then have "length p = k" "wf_frames k ps" using 1 by (auto simp: wf_frames_Cons)
    with Suc Cons.IH(1) [where i = i' and j = "j + 1"] 1 show ?thesis
      by (simp add: aead_seal_length add.commute add.left_commute)
  qed
next
  case (Cons p ps)
  case 2
  show ?case
  proof (cases i)
    case 0
    with 2 show ?thesis by (simp add: aead_seal_length)
  next
    case (Suc i')
    then have "ps \<noteq> []" using 2 by auto
    then have "length p = k" "wf_frames k ps" using 2 by (auto simp: wf_frames_Cons)
    with Suc Cons.IH(2) [where i = i' and j = "j + 1"] 2 show ?thesis
      by (simp add: aead_seal_length)
  qed
next
  case (Cons p ps)
  case 3
  show ?case
  proof (cases i)
    case 0
    with 3 have "ps = []" by (cases ps) auto
    with 0 3 show ?thesis by (simp add: aead_seal_length)
  next
    case (Suc i')
    then have "ps \<noteq> []" using 3 by auto
    then have "length p = k" "wf_frames k ps" using 3 by (auto simp: wf_frames_Cons)
    with Suc Cons.IH(3) [where i = i' and j = "j + 1"] 3 show ?thesis
      by (simp add: aead_seal_length)
  qed
qed simp_all

lemma length_frames_le: "length (frames_of k p) \<le> length p"
proof (induction k p rule: frames_of.induct)
  case (1 k p)
  show ?case
  proof (cases "p = [] \<or> k = 0")
    case True
    then show ?thesis by (subst frames_of.simps) auto
  next
    case False
    then have "length (frames_of k p) \<le> Suc (length (drop k p))" using 1 by (simp add: frames_of_step)
    then show ?thesis using False by (cases p; cases k) auto
  qed
qed

lemma range_frame_encrypted:
  assumes ok: "cipher_ok c" "length base = nonce_len" "length p \<le> 2 ^ 58"
    and k: "frame_size c = int k"
    and se: "s \<le> e" "e < length p" "s < (i + 1) * k" "i * k \<le> e"
  shows "range_frame c (encrypted c base p) (int (length (encrypted c base p))) base (int k)
           (int s) (int e) i =
         Inr (take (min (e + 1) ((i + 1) * k) - max s (i * k)) (drop (max s (i * k)) p))"
proof -
  define fr where "fr = frames_of k p"
  define ct where "ct = sealed (aead_of c) base 0 fr"
  have k0: "0 < k" "k \<le> 2 ^ 30" and laws: "aead_laws (aead_of c)"
    using ok(1) k by (auto simp: cipher_ok_def)
  have enc: "encrypted c base p = enc_header c base @ ct"
    using se(2) k by (auto simp: encrypted_def plain_frames_def ct_def fr_def)
  define pl where "pl = take k (drop (i * k) p)"
  have i: "i < length fr" and fri: "fr ! i = pl"
    using nth_frames_of [OF k0(1), of i p] se(2,4) by (auto simp: fr_def pl_def)
  have L: "length pl = min k (length p - i * k)" by (simp add: pl_def)
  have Lpos: "0 < length pl" using L k0(1) se(2,4) by simp
  have wf: "wf_frames k fr" using k0(1) by (simp add: fr_def wf_frames_of)
  note sn = sealed_nth [OF laws wf i, of base 0, folded ct_def, unfolded fri]
  have ik: "i \<le> i * k" using k0(1) by simp
  define off where "off = i * (k + 16)"
  have offb: "off \<le> 17 * 2 ^ 58"
    unfolding off_def distrib_left using ik se(2,4) ok(3) by linarith
  have ctb: "length ct \<le> 17 * 2 ^ 58"
    using length_sealed [OF laws, of base 0 fr] concat_frames_of [OF k0(1), of p] ok(3)
      length_frames_le [of k p]
    by (simp add: ct_def fr_def tag_len_def)
  have room: "off + length pl + 16 \<le> length ct"
    and last: "length pl < k \<Longrightarrow> off + length pl + 16 = length ct"
    using sn(2,3) by (simp_all add: off_def tag_len_def)
  have "int i * (int k + 16) = int off" by (simp add: off_def algebra_simps)
  then have o1: "i64 (int i * (int k + 16)) = int off" using offb by (simp add: i64_id)
  have o2: "i64 (17 + int off) = 17 + int off" using offb by (intro i64_id) auto
  have o3: "i64 (int (17 + length ct) - (17 + int off)) = int (length ct - off)"
    using ctb room by (subst i64_id) auto
  let ?sz = "min (k + 16) (length ct - off)"
  have rd: "read_at (encrypted c base p) (int ?sz) (17 + int off) = Inr (take (k + 16) (drop off ct))"
    using room enc ok(2)
    by (auto simp: read_at_def header_size_def nat_add_distrib min_def)
  have "i * k < 2 ^ 58" using se(2,4) ok(3) by linarith
  then have "i64 (int (i * k)) = int (i * k)" by (intro i64_id) (simp_all del: of_nat_mult)
  then have fs1: "i64 (int i * int k) = int (i * k)" by simp
  have fs2: "i64 (int (i * k) + int (length pl) - 1) = int (i * k + length pl - 1)"
  proof -
    have eq: "int (i * k) + int (length pl) - 1 = int (i * k + length pl - 1)"
      using Lpos by (simp add: of_nat_diff Suc_leI del: length_greater_0_conv)
    have "i * k + length pl \<le> length p" using se(2,4) L by simp
    then have "i * k + length pl - 1 < 2 ^ 59" using ok(3) by simp
    then show ?thesis unfolding eq by (intro i64_id) (simp_all del: of_nat_mult of_nat_add)
  qed
  define lo where "lo = max s (i * k) - i * k"
  define hi where "hi = min (e + 1) (i * k + length pl) - i * k"
  have lohi: "lo \<le> hi" "hi \<le> length pl" "hi \<le> k"
    using se L Lpos by (auto simp: lo_def hi_def)
  have hi': "(if int e < int (i * k + length pl - 1) then int e - int (i * k) + 1
              else int (length pl)) = int hi"
    using se(4) Lpos by (auto simp: hi_def)
  have lo': "(if int s > int (i * k) then int s - int (i * k) else 0) = int lo"
    by (auto simp: lo_def simp del: of_nat_mult)
  have slice: "take (hi - lo) (drop lo pl) =
      take (min (e + 1) ((i + 1) * k) - max s (i * k)) (drop (max s (i * k)) p)"
  proof -
    have "take (hi - lo) (drop lo pl) = take (hi - lo) (drop lo (drop (i * k) p))"
      unfolding pl_def using lohi by (intro take_drop_take) auto
    moreover have "lo + i * k = max s (i * k)" by (simp add: lo_def)
    moreover have "hi - lo = min (e + 1) ((i + 1) * k) - max s (i * k)"
      using se L by (auto simp: hi_def lo_def min_def max_def)
    ultimately show ?thesis by simp
  qed
  have rem: "int (length ct - off) > 16" using room Lpos by linarith
  have sz: "(if int k + 16 > int (length ct - off) then int (length ct - off) else int k + 16) = int ?sz"
    by auto
  have opn: "open_ct (aead_of c) (xor_nonce base (of_nat i)) (take (k + 16) (drop off ct))
      (frame_aad (of_nat i)) = Some pl"
    using sn(1) aead_open_seal [OF laws] by (simp add: off_def tag_len_def)
  have lenc: "int (length (encrypted c base p)) = int (17 + length ct)"
    using enc ok(2) by (simp add: header_size_def)
  have rs: "range_slice (int s) (int e) (int (i * k)) pl =
      Inr (take (min (e + 1) ((i + 1) * k) - max s (i * k)) (drop (max s (i * k)) p))"
    unfolding range_slice_def Let_def fs2 hi' lo' using lohi
    by (simp add: slice nat_diff_distrib')
  have hs: "int header_size = 17" "int tag_len = 16" by (simp_all add: header_size_def tag_len_def)
  have rem': "(int (length ct - off) \<le> 16) = False" using rem by (metis not_le)
  show ?thesis
    by (simp only: range_frame_def Let_def lenc hs o1 o2 o3 rem' sz rd frame_nonce_def ok(2)
        opn fs1 rs sum.case option.case if_False not_True_eq_False simp_thms)
qed

lemma range_loop_encrypted:
  assumes ok: "cipher_ok c" "length base = nonce_len" "length p \<le> 2 ^ 58"
    and k: "frame_size c = int k"
    and se: "s \<le> e" "e < length p" and i: "s div k \<le> i" "i \<le> e div k"
  shows "range_loop (range_frame c (encrypted c base p) (int (length (encrypted c base p))) base
             (int k) (int s) (int e)) i (e div k)
         = (take (e + 1 - max s (i * k)) (drop (max s (i * k)) p), None)"
  using i
proof (induction "e div k - i" arbitrary: i)
  case 0
  have k0: "0 < k" using ok(1) k by (simp add: cipher_ok_def)
  have ie: "i = e div k" using 0 by simp
  have "s < (i + 1) * k" "i * k \<le> e" "e < (i + 1) * k"
    using k0 se(1) unfolding ie
    by (auto simp: dividend_less_div_times add.commute intro: le_less_trans)
  with range_frame_encrypted [OF ok k se this(1,2)] show ?case
    by (subst range_loop.simps) (simp add: ie range_loop.simps min_def)
next
  case (Suc x)
  have k0: "0 < k" using ok(1) k by (simp add: cipher_ok_def)
  have lt: "Suc i \<le> e div k" using Suc(2) by simp
  then have b: "(i + 1) * k \<le> e" using k0 by (simp add: less_eq_div_iff_mult_less_eq)
  have a: "s < (i + 1) * k" proof -
    have "s < k + s div k * k" using k0 by (rule dividend_less_div_times)
    also have "\<dots> \<le> k + i * k" using Suc.prems(1) by (intro add_left_mono mult_le_mono1)
    finally show ?thesis by simp
  qed
  have ik: "i * k \<le> e" using b by simp
  have IH: "range_loop (range_frame c (encrypted c base p) (int (length (encrypted c base p))) base
             (int k) (int s) (int e)) (Suc i) (e div k)
         = (take (e + 1 - max s (Suc i * k)) (drop (max s (Suc i * k)) p), None)"
    using Suc.hyps(1) [of "Suc i"] Suc(2) Suc.prems lt by simp
  have "max s (Suc i * k) = (i + 1) * k" "min (e + 1) ((i + 1) * k) = (i + 1) * k"
    using a b by auto
  then show ?case
    using range_frame_encrypted [OF ok k se a ik] IH lt a b
      take_drop_append [of "max s (i * k)" "(i + 1) * k" "e + 1" p]
    by (subst range_loop.simps) simp
qed

lemma decrypt_range_encrypted:
  assumes ok: "cipher_ok c" "length base = nonce_len" "length p \<le> 2 ^ 58"
    and se: "s \<le> e" "e < length p"
  shows "decrypt_range c (encrypted c base p) (int (length (encrypted c base p))) (int s) (int e)
         = (take (e + 1 - s) (drop s p), None)"
proof -
  define k where "k = nat (frame_size c)"
  have k: "frame_size c = int k" "0 < k" and fs: "0 < frame_size c" "frame_size c \<le> 2 ^ 30"
    using ok(1) by (auto simp: cipher_ok_def k_def)
  note hdr = enc_header_fields [OF ok(2) fs]
  have rd: "read_at (encrypted c base p) (int header_size) 0 = Inr (enc_header c base)"
    using ok(2) by (simp add: read_at_def encrypted_def)
  have "s div k * k \<le> s" by simp
  then have m: "max s (s div k * k) = s" by simp
  have "range_loop (range_frame c (encrypted c base p) (int (length (encrypted c base p))) base
             (int k) (int s) (int e)) (s div k) (e div k)
         = (take (e + 1 - max s (s div k * k)) (drop (max s (s div k * k)) p), None)"
    using se by (intro range_loop_encrypted [OF ok k(1) se]) (auto intro: div_le_mono)
  then show ?thesis
    using se hdr k fs
    by (simp add: decrypt_range_def rd Let_def m nat_div_distrib flip: zdiv_int)
qed

end
