(* ===== verification/FrameReaders.thy ===== *)
theory FrameReaders
  imports FrameCrypto
begin

text \<open>
  The \<^verbatim>\<open>Read\<close> methods of the encrypter and the decrypter implement the reader contract
  of the prelude: whatever sizes a caller reads with, it obtains the stream that
  \<open>new_encrypter_with_nonce\<close> and \<open>decrypt_stream\<close> describe, byte for byte, and the same
  final error.
\<close>

section \<open>The encrypter\<close>

definition enc_ok :: "encrypter \<Rightarrow> bool" where
  "enc_ok e \<longleftrightarrow> 0 < frame_size (e_c e) \<and> length (e_base e) = nonce_len \<and>
     0 \<le> e_remain e \<and> e_out e \<le> length (e_buf e)"

definition enc_m :: "encrypter \<Rightarrow> nat" where
  "enc_m e = nat (e_remain e) + (if e_emitted e then 0 else 1)"

lemma enc_next_frame_cases:
  assumes "enc_ok e"
  obtains (eof) "enc_next_frame e = (Some IoEOF, e\<lparr>e_done := True\<rparr>)"
  | (err) x t where "enc_next_frame e = (Some x, e\<lparr>e_src := ([], t)\<rparr>)"
      "\<not> errors_is x IoEOF"
      "enc_next_frame (e\<lparr>e_src := ([], t)\<rparr>) = (Some x, e\<lparr>e_src := ([], t)\<rparr>)"
  | (frame) e' where "enc_next_frame e = (None, e')" "enc_ok e'" "enc_m e' < enc_m e"
      "e_out e' = 0" "e_header e' = e_header e" "e_headerN e' = e_headerN e"
proof (cases "e_remain e = 0 \<and> e_emitted e")
  case True
  then show ?thesis using eof by (simp add: enc_next_frame_def)
next
  case live: False
  define sz where "sz = min (frame_size (e_c e)) (e_remain e)"
  have sz: "0 \<le> sz" "(if frame_size (e_c e) > e_remain e then e_remain e else frame_size (e_c e)) = sz"
    using assms by (auto simp: enc_ok_def sz_def)
  obtain d t where src: "e_src e = (d, t)" by (cases "e_src e")
  have nonce: "frame_nonce (e_base e) i = Some (xor_nonce (e_base e) i)" for i
    using assms by (simp add: frame_nonce_def enc_ok_def)
  show ?thesis
  proof (cases "nat sz \<le> length d")
    case True
    let ?e = "snd (enc_next_frame e)"
    have nf: "enc_next_frame e = (None, ?e)" and fields: "e_c ?e = e_c e" "e_base ?e = e_base e"
      "e_remain ?e = e_remain e - sz" "e_out ?e = 0" "e_emitted ?e"
      "e_header ?e = e_header e" "e_headerN ?e = e_headerN e"
      unfolding enc_next_frame_def if_not_P [OF live]
      using sz src nonce True by (simp_all add: Let_def read_full_enough)
    have "sz > 0 \<or> e_remain e = 0" using assms by (auto simp: sz_def enc_ok_def)
    then have "enc_m ?e < enc_m e"
      using fields live assms sz by (auto simp: enc_m_def enc_ok_def sz_def)
    moreover have "enc_ok ?e" using fields assms sz by (auto simp: enc_ok_def sz_def)
    ultimately show ?thesis using frame nf fields by metis
  next
    case False
    define y where "y = (case t of Eof \<Rightarrow> if d = [] then IoEOF else IoUnexpectedEOF | Fail e \<Rightarrow> e)"
    define x where "x = (if errors_is y IoEOF \<or> errors_is y IoUnexpectedEOF
                         then IoUnexpectedEOF else y)"
    have "enc_next_frame e = (Some x, e\<lparr>e_src := ([], t)\<rparr>)"
      unfolding enc_next_frame_def if_not_P [OF live]
      using sz src False by (simp add: Let_def read_full_short x_def y_def)
    moreover have "\<not> errors_is x IoEOF" by (auto simp: x_def)
    moreover have "enc_next_frame (e\<lparr>e_src := ([], t)\<rparr>) = (Some x, e\<lparr>e_src := ([], t)\<rparr>)"
      using live sz False
      by (cases t) (auto simp: enc_next_frame_def Let_def read_full_def x_def y_def)
    ultimately show ?thesis using err by blast
  qed
qed

text \<open>The fuel of \<open>enc_frames\<close> is enough, and more makes no difference.\<close>

lemma enc_frames_fuel:
  "enc_ok e \<Longrightarrow> enc_m e < f \<Longrightarrow> enc_m e < g \<Longrightarrow> enc_frames f e = enc_frames g e"
proof (induction f arbitrary: e g)
  case (Suc f)
  then obtain g' where g: "g = Suc g'" by (cases g) auto
  show ?case
  using Suc.prems(1)
  proof (cases rule: enc_next_frame_cases)
    case (frame e')
    then have "enc_frames f e' = enc_frames g' e'"
      using Suc.prems g by (intro Suc.IH) auto
    with frame g show ?thesis by simp
  qed (use g in simp_all)
qed simp

lemma enc_m_fuel: "enc_m e < enc_fuel e"
  by (simp add: enc_m_def enc_fuel_def)

text \<open>What an encrypter in a given state has still to deliver: the rest of the header and
  of the current frame, then the frames to come.\<close>

definition enc_tail :: "encrypter \<Rightarrow> reader" where
  "enc_tail e = (case enc_frames (enc_fuel e) e of (d, t) \<Rightarrow> (drop (e_out e) (e_buf e) @ d, t))"

definition enc_pend :: "encrypter \<Rightarrow> reader" where
  "enc_pend e = (case enc_tail e of (d, t) \<Rightarrow> (drop (e_headerN e) (e_header e) @ d, t))"

lemma enc_frames_unfold:
  assumes "enc_ok e" "\<not> e_done e"
  shows "enc_frames (enc_fuel e) e =
    (case enc_next_frame e of
        (Some err, e') \<Rightarrow> ([], if errors_is err IoEOF then Eof else Fail err)
      | (None, e') \<Rightarrow> (case enc_frames (enc_fuel e') e' of (d, t) \<Rightarrow> (e_buf e' @ d, t)))"
using assms(1)
proof (cases rule: enc_next_frame_cases)
  case (frame e')
  have "enc_frames (nat (e_remain e) + 1) e' = enc_frames (enc_fuel e') e'"
    using frame enc_m_fuel [of e'] enc_m_fuel [of e]
    by (intro enc_frames_fuel) (auto simp: enc_fuel_def enc_m_def split: if_splits)
  with frame assms(2) show ?thesis by (simp add: enc_fuel_def)
qed (use assms(2) in \<open>simp_all add: enc_fuel_def\<close>)

lemma enc_frames_out [simp]:
  "enc_frames f (e\<lparr>e_out := k\<rparr>) = enc_frames f e"
  "enc_frames f (e\<lparr>e_headerN := k\<rparr>) = enc_frames f e"
proof -
  have nf: "enc_next_frame (e\<lparr>e_out := k\<rparr>) =
      (case enc_next_frame e of (None, e') \<Rightarrow> (None, e') | (Some x, e') \<Rightarrow> (Some x, e'\<lparr>e_out := k\<rparr>))" for e
    by (auto simp: enc_next_frame_def Let_def split: prod.splits option.splits)
  show "enc_frames f (e\<lparr>e_out := k\<rparr>) = enc_frames f e"
    by (cases f) (auto simp: nf split: prod.splits option.splits)
  have nh: "enc_next_frame (e\<lparr>e_headerN := k\<rparr>) = map_prod id (\<lambda>e. e\<lparr>e_headerN := k\<rparr>) (enc_next_frame e)" for e
    by (auto simp: enc_next_frame_def Let_def split: prod.splits option.splits)
  show "enc_frames f (e\<lparr>e_headerN := k\<rparr>) = enc_frames f e"
    by (induction f arbitrary: e) (auto simp: nh split: prod.splits option.splits)
qed

lemma enc_loop_spec:
  assumes "enc_ok e"
  shows "\<exists>bs err e'. enc_loop n w e = Some (w @ bs, err, e') \<and> enc_ok e' \<and> length bs \<le> n \<and>
    e_header e' = e_header e \<and> e_headerN e' = e_headerN e \<and>
    fst (enc_tail e) = bs @ fst (enc_tail e') \<and> snd (enc_tail e') = snd (enc_tail e) \<and>
    (case err of None \<Rightarrow> n = 0 \<or> w @ bs \<noteq> []
     | Some x \<Rightarrow> fst (enc_tail e') = [] \<and> x = end_err (snd (enc_tail e)))"
  using assms
proof (induction "n + enc_m e" arbitrary: n w e rule: less_induct)
  case less
  show ?case
  proof (cases "n = 0")
    case True
    then show ?thesis using less.prems by (simp add: enc_loop.simps)
  next
    case n: False
    show ?thesis
    proof (cases "e_out e < length (e_buf e)")
      case True
      define k where "k = min n (length (e_buf e) - e_out e)"
      define b where "b = take k (drop (e_out e) (e_buf e))"
      let ?e = "e\<lparr>e_out := e_out e + k\<rparr>"
      have k: "0 < k" "k \<le> n" using n True by (auto simp: k_def)
      have lb: "length b = k" by (simp add: b_def k_def)
      have ok: "enc_ok ?e" using less.prems by (auto simp: enc_ok_def k_def)
      have tl: "fst (enc_tail e) = b @ fst (enc_tail ?e)" "snd (enc_tail ?e) = snd (enc_tail e)"
        by (auto simp: enc_tail_def enc_fuel_def b_def split: prod.splits)
          (metis add.commute append_take_drop_id drop_drop)
      have "n - k + enc_m ?e < n + enc_m e" using k by (simp add: enc_m_def)
      from less.hyps [OF this ok, of "w @ b"] obtain bs err e' where
        IH: "enc_loop (n - k) (w @ b) ?e = Some ((w @ b) @ bs, err, e')" "enc_ok e'"
          "length bs \<le> n - k" "e_header e' = e_header e" "e_headerN e' = e_headerN e"
          "fst (enc_tail ?e) = bs @ fst (enc_tail e')" "snd (enc_tail e') = snd (enc_tail ?e)"
          "case err of None \<Rightarrow> n - k = 0 \<or> (w @ b) @ bs \<noteq> []
           | Some x \<Rightarrow> fst (enc_tail e') = [] \<and> x = end_err (snd (enc_tail ?e))"
        by auto
      have "enc_loop n w e = Some (w @ b @ bs, err, e')"
        using n True IH(1) by (subst enc_loop.simps) (simp add: k_def b_def Let_def)
      moreover have "b \<noteq> []" using lb k by auto
      ultimately show ?thesis
        using IH(2-) tl k lb
        by (intro exI [of _ "b @ bs"] exI [of _ err] exI [of _ e']) (cases err; simp)
    next
      case drained: False
      then have dr: "drop (e_out e) (e_buf e) = []" by simp
      show ?thesis
      proof (cases "e_done e")
        case True
        then have "enc_tail e = ([], Eof)" using dr by (simp add: enc_tail_def enc_fuel_def)
        with True n drained less.prems show ?thesis
          by (subst enc_loop.simps) auto
      next
        case live: False
        show ?thesis
        using less.prems
        proof (cases rule: enc_next_frame_cases)
          case eof
          let ?e = "e\<lparr>e_done := True\<rparr>"
          have "enc_tail e = ([], Eof)"
            using dr enc_frames_unfold [OF less.prems live] eof by (simp add: enc_tail_def)
          moreover have "enc_tail ?e = ([], Eof)" using dr by (simp add: enc_tail_def enc_fuel_def)
          moreover have "enc_ok ?e" using less.prems by (simp add: enc_ok_def)
          ultimately show ?thesis using eof n drained live
            by (subst enc_loop.simps) auto
        next
          case (err x t)
          let ?e = "e\<lparr>e_src := ([], t)\<rparr>"
          have ok: "enc_ok ?e" using less.prems by (simp add: enc_ok_def)
          have "enc_tail e = ([], Fail x)"
            using dr enc_frames_unfold [OF less.prems live] err by (simp add: enc_tail_def)
          moreover have "enc_tail ?e = ([], Fail x)"
            using dr enc_frames_unfold [OF ok] live err by (simp add: enc_tail_def)
          ultimately show ?thesis using err n drained live ok
            by (subst enc_loop.simps) auto
        next
          case (frame e')
          have tl: "enc_tail e = enc_tail e'"
            using dr enc_frames_unfold [OF less.prems live] frame
            by (simp add: enc_tail_def split: prod.splits)
          have "n + enc_m e' < n + enc_m e" using frame by simp
          from less.hyps [OF this frame(2), of w] show ?thesis
            using frame n drained live tl
            by (subst enc_loop.simps) (simp cong: option.case_cong)
        qed
      qed
    qed
  qed
qed

text \<open>\<^verbatim>\<open>Read\<close> returns for every encrypter that \<^verbatim>\<open>NewCipher\<close> admits.\<close>

lemma enc_read_spec:
  assumes "enc_ok e" "0 < n"
  shows "\<exists>bs err e'. enc_read n e = Some (bs, err, e') \<and> enc_ok e' \<and> length bs \<le> n \<and>
    fst (enc_pend e) = bs @ fst (enc_pend e') \<and> snd (enc_pend e') = snd (enc_pend e) \<and>
    (case err of None \<Rightarrow> bs \<noteq> []
     | Some x \<Rightarrow> fst (enc_pend e') = [] \<and> x = end_err (snd (enc_pend e)))"
proof (cases "e_headerN e < length (e_header e)")
  case False
  from enc_loop_spec [OF assms(1), of n "[]"] obtain bs err e' where
    L: "enc_loop n [] e = Some (bs, err, e')" "enc_ok e'" "length bs \<le> n"
      "e_header e' = e_header e" "e_headerN e' = e_headerN e"
      "fst (enc_tail e) = bs @ fst (enc_tail e')" "snd (enc_tail e') = snd (enc_tail e)"
      "case err of None \<Rightarrow> n = 0 \<or> bs \<noteq> []
       | Some x \<Rightarrow> fst (enc_tail e') = [] \<and> x = end_err (snd (enc_tail e))"
    by (auto simp only: append_Nil)
  have "enc_pend e = enc_tail e" "enc_pend e' = enc_tail e'"
    using False L(4,5) by (simp_all add: enc_pend_def split: prod.splits)
  moreover have "enc_read n e = Some (bs, err, e')" using False L(1) by (simp add: enc_read_def)
  ultimately show ?thesis
    using L(2,3,6-) assms(2)
    by (intro exI [of _ bs] exI [of _ err] exI [of _ e']) (cases err; simp)
next
  case True
  define k where "k = min n (length (e_header e) - e_headerN e)"
  define w where "w = take k (drop (e_headerN e) (e_header e))"
  let ?e = "e\<lparr>e_headerN := e_headerN e + k\<rparr>"
  have lw: "length w = k" "0 < k" using True assms(2) by (auto simp: w_def k_def)
  have ok: "enc_ok ?e" using assms(1) by (simp add: enc_ok_def)
  have pend: "fst (enc_pend e) = w @ fst (enc_pend ?e)" "snd (enc_pend ?e) = snd (enc_pend e)"
    by (auto simp: enc_pend_def enc_tail_def enc_fuel_def w_def split: prod.splits)
      (metis add.commute append_take_drop_id drop_drop append_assoc)
  show ?thesis
  proof (cases "n - k = 0")
    case stop: True
    then have "enc_read n e = Some (w, None, ?e)"
      using True by (simp add: enc_read_def Let_def k_def w_def)
    then show ?thesis using pend lw ok by (auto simp: k_def)
  next
    case more: False
    then have hd: "length (e_header e) \<le> e_headerN ?e" by (simp add: k_def)
    from enc_loop_spec [OF ok, of "n - k" w] obtain bs err e' where
      L: "enc_loop (n - k) w ?e = Some (w @ bs, err, e')" "enc_ok e'" "length bs \<le> n - k"
        "e_header e' = e_header e" "e_headerN e' = e_headerN ?e"
        "fst (enc_tail ?e) = bs @ fst (enc_tail e')" "snd (enc_tail e') = snd (enc_tail ?e)"
        "case err of None \<Rightarrow> n - k = 0 \<or> w @ bs \<noteq> []
         | Some x \<Rightarrow> fst (enc_tail e') = [] \<and> x = end_err (snd (enc_tail ?e))"
      by auto
    have "enc_read n e = Some (w @ bs, err, e')"
      using True more L(1) by (simp add: enc_read_def Let_def k_def w_def)
    moreover have eq: "enc_pend ?e = enc_tail ?e" "enc_pend e' = enc_tail e'"
      using hd L(4,5) by (simp_all add: enc_pend_def split: prod.splits)
    have "length (w @ bs) \<le> n" using L(3) lw more by simp
    moreover have "fst (enc_pend e) = (w @ bs) @ fst (enc_pend e')"
      using pend(1) L(6) eq by simp
    moreover have "snd (enc_pend e') = snd (enc_pend e)" using pend(2) L(7) eq by simp
    moreover have "case err of None \<Rightarrow> w @ bs \<noteq> []
        | Some x \<Rightarrow> fst (enc_pend e') = [] \<and> x = end_err (snd (enc_pend e))"
    proof (cases err)
      case None
      with L(8) more show ?thesis by simp
    next
      case (Some x)
      have "snd (enc_tail ?e) = snd (enc_pend e)" using pend(2) unfolding eq .
      with L(8) Some show ?thesis unfolding eq by simp
    qed
    ultimately show ?thesis using L(2) by blast
  qed
qed

lemma enc_read_total: "enc_ok e \<Longrightarrow> 0 < n \<Longrightarrow> enc_read n e \<noteq> None"
  using enc_read_spec [of e n] by auto

definition enc_rd :: "nat \<Rightarrow> encrypter \<Rightarrow> bytes \<times> goerr option \<times> encrypter" where
  "enc_rd n e = (case enc_read n e of Some r \<Rightarrow> r | None \<Rightarrow> ([], Some (Panic ''no return''), e))"

lemma enc_rd_cases:
  assumes "enc_ok e" "0 < n" "enc_rd n e = (bs, err, e')"
  shows "enc_ok e' \<and> length bs \<le> n \<and>
    fst (enc_pend e) = bs @ fst (enc_pend e') \<and> snd (enc_pend e') = snd (enc_pend e) \<and>
    (case err of None \<Rightarrow> bs \<noteq> []
     | Some x \<Rightarrow> fst (enc_pend e') = [] \<and> x = end_err (snd (enc_pend e)))"
  using enc_read_spec [OF assms(1,2)] assms(3) by (auto simp: enc_rd_def)

interpretation enc: byte_reader enc_rd enc_pend enc_ok
proof (unfold_locales, goal_cases)
  case (1 e n bs e')
  from enc_rd_cases [OF this] show ?case by simp
next
  case (2 e n bs err e')
  from enc_rd_cases [OF this] show ?case by simp
next
  case (3 e n bs e')
  from enc_rd_cases [OF this] show ?case by simp
next
  case (4 e n bs e')
  from enc_rd_cases [OF this] show ?case by simp
next
  case (5 e n bs err e')
  from enc_rd_cases [OF this] show ?case by simp
qed

lemma enc_pend_init:
  "enc_pend (encrypter_init c src n base) = new_encrypter_with_nonce c src n base"
  by (simp add: enc_pend_def enc_tail_def new_encrypter_with_nonce_def encrypter_init_def Let_def
      split: prod.splits)

lemma enc_ok_init:
  "0 < frame_size c \<Longrightarrow> length base = nonce_len \<Longrightarrow> 0 \<le> n \<Longrightarrow>
   enc_ok (encrypter_init c src n base)"
  by (simp add: enc_ok_def encrypter_init_def)

section \<open>The decrypter\<close>

definition dec_ok :: "decrypter \<Rightarrow> bool" where
  "dec_ok d \<longleftrightarrow> d_out d \<le> length (d_plain d)"

definition dec_pend :: "decrypter \<Rightarrow> reader" where
  "dec_pend d = (case dec_frames d of (p, t) \<Rightarrow> (drop (d_out d) (d_plain d) @ p, t))"

lemma dec_open_frame_cases:
  obtains (err) x where "dec_open_frame d buf = (Some x, d)" "\<not> errors_is x IoEOF"
  | (plain) p where "dec_open_frame d buf = (None, d\<lparr>d_idx := d_idx d + 1, d_plain := p, d_out := 0\<rparr>)"
proof (cases "frame_nonce (d_base d) (d_idx d)")
  case None
  then show ?thesis using err by (simp add: dec_open_frame_def IoEOF_def)
next
  case (Some n)
  then show ?thesis
    using err plain
    by (cases "open_ct (aead_of (d_c d)) n buf (frame_aad (d_idx d))")
      (simp_all add: dec_open_frame_def IoEOF_def)
qed

text \<open>The outcomes of \<open>dec_next_frame\<close>, and that it does not look at \<open>d_out\<close>.\<close>

lemma dec_next_frame_cases:
  obtains (eof) r where "dec_next_frame d = (Some IoEOF, d\<lparr>d_src := r, d_atEOF := True\<rparr>)"
  | (err) x d' where "dec_next_frame d = (Some x, d')" "\<not> errors_is x IoEOF"
  | (frame) d' where "dec_next_frame d = (None, d')" "d_out d' = 0"
proof -
  obtain buf e r where r: "read_full (nat (d_frameSize d) + tag_len) (d_src d) = (buf, e, r)"
    by (cases "read_full (nat (d_frameSize d) + tag_len) (d_src d)") auto
  show ?thesis
  proof (cases e)
    case None
    with r have "dec_next_frame d = dec_open_frame (d\<lparr>d_src := r\<rparr>) buf"
      by (simp add: dec_next_frame_def)
    then show ?thesis
      using err frame
      by (cases rule: dec_open_frame_cases [of "d\<lparr>d_src := r\<rparr>" buf]) simp_all
  next
    case (Some y)
    consider "errors_is y IoEOF" | "\<not> errors_is y IoEOF" "\<not> errors_is y IoUnexpectedEOF"
      | "\<not> errors_is y IoEOF" "errors_is y IoUnexpectedEOF" "length buf < tag_len"
      | "\<not> errors_is y IoEOF" "errors_is y IoUnexpectedEOF" "\<not> length buf < tag_len"
      by blast
    then show ?thesis
    proof cases
      case 1 then show ?thesis using eof r Some by (simp add: dec_next_frame_def Let_def)
    next
      case 2 then show ?thesis using err r Some by (simp add: dec_next_frame_def Let_def)
    next
      case 3
      then show ?thesis
        using err [of ErrShortInput] r Some
        by (simp add: dec_next_frame_def Let_def ErrShortInput_def IoEOF_def)
    next
      case 4
      then have "dec_next_frame d = dec_open_frame (d\<lparr>d_src := r, d_atEOF := True\<rparr>) buf"
        using r Some by (simp add: dec_next_frame_def Let_def)
      then show ?thesis
        using err frame
        by (cases rule: dec_open_frame_cases [of "d\<lparr>d_src := r, d_atEOF := True\<rparr>" buf]) simp_all
    qed
  qed
qed

lemma dec_open_frame_d_out:
  "dec_open_frame (d\<lparr>d_out := k\<rparr>) buf =
     (case dec_open_frame d buf of
        (None, d') \<Rightarrow> (None, d') | (Some x, d') \<Rightarrow> (Some x, d'\<lparr>d_out := k\<rparr>))"
  by (simp add: dec_open_frame_def split: option.split)

lemma dec_next_frame_d_out:
  "dec_next_frame (d\<lparr>d_out := k\<rparr>) =
     (case dec_next_frame d of
        (None, d') \<Rightarrow> (None, d') | (Some x, d') \<Rightarrow> (Some x, d'\<lparr>d_out := k\<rparr>))"
proof -
  obtain buf e r where r: "read_full (nat (d_frameSize d) + tag_len) (d_src d) = (buf, e, r)"
    by (cases "read_full (nat (d_frameSize d) + tag_len) (d_src d)") auto
  have u: "d\<lparr>d_out := k, d_src := r\<rparr> = d\<lparr>d_src := r\<rparr>\<lparr>d_out := k\<rparr>"
    "d\<lparr>d_out := k, d_atEOF := True\<rparr> = d\<lparr>d_atEOF := True\<rparr>\<lparr>d_out := k\<rparr>" for d :: decrypter
    by simp_all
  have dn: "dec_next_frame d' = (case e of
        None \<Rightarrow> dec_open_frame (d'\<lparr>d_src := r\<rparr>) buf
      | Some err \<Rightarrow>
          if errors_is err IoEOF then (Some IoEOF, d'\<lparr>d_src := r, d_atEOF := True\<rparr>)
          else if errors_is err IoUnexpectedEOF then
            (if length buf < tag_len then (Some ErrShortInput, d'\<lparr>d_src := r\<rparr>)
             else dec_open_frame (d'\<lparr>d_src := r, d_atEOF := True\<rparr>) buf)
          else (Some err, d'\<lparr>d_src := r\<rparr>))"
    if "d_frameSize d' = d_frameSize d" "d_src d' = d_src d" for d'
    using r that by (cases e) (simp_all add: dec_next_frame_def Let_def)
  have dn2: "d_frameSize (d\<lparr>d_out := k\<rparr>) = d_frameSize d" "d_src (d\<lparr>d_out := k\<rparr>) = d_src d"
    by simp_all
  show ?thesis
    by (cases e; cases "errors_is (the e) IoEOF"; cases "errors_is (the e) IoUnexpectedEOF";
        cases "length buf < tag_len")
      (simp_all only: dn [OF dn2] dn [OF refl refl] option.case option.sel u dec_open_frame_d_out
        prod.case if_True if_False simp_thms)
qed

lemma dec_frames_unfold:
  "\<not> d_atEOF d \<Longrightarrow> dec_frames d = (case dec_next_frame d of
      (Some err, d') \<Rightarrow> ([], if errors_is err IoEOF then Eof else Fail err)
    | (None, d') \<Rightarrow> (case dec_frames d' of (p, t) \<Rightarrow> (d_plain d' @ p, t)))"
  by (subst dec_frames.simps) simp

lemma dec_frames_eof: "d_atEOF d \<Longrightarrow> dec_frames d = ([], Eof)"
  by (subst dec_frames.simps) simp

lemma dec_frames_d_out [simp]: "dec_frames (d\<lparr>d_out := k\<rparr>) = dec_frames d"
proof (cases "d_atEOF d")
  case True
  then show ?thesis by (simp add: dec_frames_eof)
next
  case False
  show ?thesis
    using False dec_next_frame_d_out [where d = d and k = k]
    by (cases "dec_next_frame d"; cases "dec_next_frame (d\<lparr>d_out := k\<rparr>)"; cases "fst (dec_next_frame d)")
      (simp_all add: dec_frames_unfold)
qed

text \<open>One \<^verbatim>\<open>Read\<close> either delivers a prefix of the pending plaintext and leaves the rest, or
  delivers all of it together with the final error.\<close>

definition dec_step_ok :: "bytes \<Rightarrow> nat \<Rightarrow> decrypter \<Rightarrow> bytes \<times> goerr option \<times> decrypter \<Rightarrow> bool" where
  "dec_step_ok w n d r = (case r of (bs', err, d') \<Rightarrow> \<exists>bs. bs' = w @ bs \<and> length bs \<le> n \<and>
    (case err of
       None \<Rightarrow> dec_ok d' \<and> (n = 0 \<or> w @ bs \<noteq> []) \<and>
               fst (dec_pend d) = bs @ fst (dec_pend d') \<and> snd (dec_pend d') = snd (dec_pend d)
     | Some x \<Rightarrow> fst (dec_pend d) = bs \<and> x = end_err (snd (dec_pend d))))"

lemma dec_step_ok_pend:
  "dec_pend d = dec_pend d' \<Longrightarrow> dec_step_ok w n d r = dec_step_ok w n d' r"
  by (simp only: dec_step_ok_def)

lemma dec_step_ok_copy:
  assumes "dec_step_ok (w @ b) (n - k) d1 r" "b \<noteq> []" "length b = k" "k \<le> n"
    "fst (dec_pend d) = b @ fst (dec_pend d1)" "snd (dec_pend d1) = snd (dec_pend d)"
  shows "dec_step_ok w n d r"
proof -
  obtain bs' err d' where r: "r = (bs', err, d')" by (cases r) auto
  with assms(1) obtain bs where bs: "bs' = (w @ b) @ bs" "length bs \<le> n - k"
    "case err of
       None \<Rightarrow> dec_ok d' \<and> (n - k = 0 \<or> (w @ b) @ bs \<noteq> []) \<and>
         fst (dec_pend d1) = bs @ fst (dec_pend d') \<and> snd (dec_pend d') = snd (dec_pend d1)
     | Some x \<Rightarrow> fst (dec_pend d1) = bs \<and> x = end_err (snd (dec_pend d1))"
    unfolding dec_step_ok_def by auto
  show ?thesis
    unfolding dec_step_ok_def r prod.case
    by (rule exI [of _ "b @ bs"]) (use bs assms(2-) in \<open>cases err; simp\<close>)
qed

lemma dec_loop_spec: "dec_ok d \<Longrightarrow> dec_step_ok w n d (dec_loop n w d)"
proof (induction n w d rule: dec_loop.induct)
  case (1 n w d)
  show ?case
  proof (cases "n = 0")
    case True
    with 1(3) show ?thesis by (simp add: dec_loop.simps dec_step_ok_def)
  next
    case n: False
    show ?thesis
    proof (cases "d_out d < length (d_plain d)")
      case True
      define k where "k = min n (length (d_plain d) - d_out d)"
      define b where "b = take k (drop (d_out d) (d_plain d))"
      let ?d = "d\<lparr>d_out := d_out d + k\<rparr>"
      have lb: "length b = k" and k: "0 < k" "k \<le> n" using n True by (auto simp: b_def k_def)
      have ok: "dec_ok ?d" using 1(3) by (auto simp: dec_ok_def k_def)
      have tl: "fst (dec_pend d) = b @ fst (dec_pend ?d)" "snd (dec_pend ?d) = snd (dec_pend d)"
        by (auto simp: dec_pend_def b_def split: prod.splits)
          (metis add.commute append_take_drop_id drop_drop)
      have eq: "dec_loop n w d = dec_loop (n - k) (w @ b) ?d"
        using n True by (subst dec_loop.simps) (simp add: k_def b_def Let_def)
      have "dec_step_ok (w @ b) (n - k) ?d (dec_loop (n - k) (w @ b) ?d)"
        unfolding b_def by (rule 1(1) [OF n True k_def ok])
      then show ?thesis
        unfolding eq by (rule dec_step_ok_copy) (use lb k tl in auto)
    next
      case drained: False
      then have dr: "drop (d_out d) (d_plain d) = []" by simp
      show ?thesis
      proof (cases "d_atEOF d")
        case True
        then show ?thesis
          using 1(3) n drained by (subst dec_loop.simps)
            (auto simp: dec_pend_def dec_step_ok_def dec_frames_eof)
      next
        case live: False
        note eq = dec_loop.simps [of n w d, unfolded if_not_P [OF n] if_not_P [OF drained] if_not_P [OF live]]
        note unf = dec_frames_unfold [OF live]
        show ?thesis
        proof (cases rule: dec_next_frame_cases [of d])
          case (eof r)
          let ?d = "d\<lparr>d_src := r, d_atEOF := True\<rparr>"
          have "dec_pend d = ([], Eof)" using unf eof dr by (simp add: dec_pend_def)
          moreover have "dec_pend ?d = ([], Eof)" using dr by (simp add: dec_pend_def dec_frames_eof)
          moreover have "dec_ok ?d" using 1(3) by (simp add: dec_ok_def)
          moreover have "dec_loop n w d = (if w = [] then ([], Some IoEOF, ?d) else (w, None, ?d))"
            unfolding eq eof by simp
          ultimately show ?thesis by (simp add: dec_step_ok_def)
        next
          case (err x d')
          have "dec_pend d = ([], Fail x)" using unf err dr by (simp add: dec_pend_def)
          moreover have "dec_loop n w d = (w, Some x, d')"
            unfolding eq using err by simp
          ultimately show ?thesis by (simp add: dec_step_ok_def)
        next
          case (frame d')
          note nf = frame(1)
          have ok: "dec_ok d'" using frame by (simp add: dec_ok_def)
          have tl: "dec_pend d = dec_pend d'"
            using unf frame dr by (simp add: dec_pend_def split: prod.splits)
          have "dec_step_ok w n d' (dec_loop n w d')"
            by (rule 1(2) [OF n drained live nf [symmetric] _ ok]) simp
          then show ?thesis
            unfolding eq nf prod.case option.case dec_step_ok_pend [OF tl] .
        qed
      qed
    qed
  qed
qed

text \<open>\<^verbatim>\<open>(*decrypter).Read\<close> keeps the contract.\<close>

lemma dec_read_cases:
  assumes "dec_ok d" "0 < n" "dec_read n d = (bs, err, d')"
  shows "length bs \<le> n \<and>
    (case err of
       None \<Rightarrow> dec_ok d' \<and> bs \<noteq> [] \<and>
               fst (dec_pend d) = bs @ fst (dec_pend d') \<and> snd (dec_pend d') = snd (dec_pend d)
     | Some x \<Rightarrow> fst (dec_pend d) = bs \<and> x = end_err (snd (dec_pend d)))"
  using dec_loop_spec [OF assms(1), of "[]" n] assms(2,3)
  by (cases err) (simp_all add: dec_read_def dec_step_ok_def)

interpretation dec: byte_reader dec_read dec_pend dec_ok
proof (unfold_locales, goal_cases)
  case (1 d n bs d')
  from dec_read_cases [OF this] show ?case by simp
next
  case (2 d n bs err d')
  from dec_read_cases [OF this] show ?case by simp
next
  case (3 d n bs d')
  from dec_read_cases [OF this] show ?case by simp
next
  case (4 d n bs d')
  from dec_read_cases [OF this] show ?case by simp
next
  case (5 d n bs err d')
  from dec_read_cases [OF this] show ?case by simp
qed

lemma dec_pend_fresh:
  assumes "new_decrypter c src = Inr d"
  shows "dec_ok d" "decrypt_stream c src = Inr (dec_pend d)"
proof -
  have "d_out d = 0" "d_plain d = []"
    using assms by (auto simp: new_decrypter_def Let_def split: prod.splits option.splits if_splits)
  then show "dec_ok d" "decrypt_stream c src = Inr (dec_pend d)"
    using assms by (simp_all add: dec_ok_def dec_pend_def decrypt_stream_def split: prod.splits)
qed

end
