(* ===== verification/FrameProperties.thy ===== *)
theory FrameProperties
  imports FrameReaders
begin

text \<open>
  The properties of \<^verbatim>\<open>internal/crypto/crypto.go\<close>: round trip, exact sizes, range
  decryption, the Read contract, nonce uniqueness, and what an attacker who can truncate a
  stored object achieves.  \<open>tagged_aead\<close> is the concrete AEAD of the witnesses: it appends
  the nonce and the associated data as a tag and checks them.
\<close>

section \<open>A concrete AEAD for the witnesses\<close>

definition tag_of :: "bytes \<Rightarrow> bytes \<Rightarrow> bytes" where
  "tag_of n d = take 16 (drop 4 n @ d @ replicate 16 0)"

definition tagged_aead :: aead where
  "tagged_aead =
     \<lparr>seal = (\<lambda>n p d. p @ tag_of n d),
      open_ct = (\<lambda>n c d. if 16 \<le> length c \<and> drop (length c - 16) c = tag_of n d
                        then Some (take (length c - 16) c) else None)\<rparr>"

definition small_cipher :: cipher where
  "small_cipher = \<lparr>aead_of = tagged_aead, frame_size = 4\<rparr>"

lemma length_tag_of [simp]: "length (tag_of n d) = 16"
  by (simp add: tag_of_def)

lemma tagged_aead_laws [simp]: "aead_laws tagged_aead"
  by (simp add: aead_laws_def tagged_aead_def tag_len_def)

lemma small_cipher_ok [simp]:
  "cipher_ok small_cipher" "aead_of small_cipher = tagged_aead" "frame_size small_cipher = 4"
  by (simp_all add: cipher_ok_def small_cipher_def)

section \<open>The decrypter takes its frame size from the header\<close>

lemma dec_open_frame_d_c:
  "aead_of c' = aead_of (d_c d) \<Longrightarrow>
   dec_open_frame (d\<lparr>d_c := c'\<rparr>) buf = map_prod id (\<lambda>d. d\<lparr>d_c := c'\<rparr>) (dec_open_frame d buf)"
  by (simp add: dec_open_frame_def split: option.split)

lemma dec_next_frame_d_c:
  assumes "aead_of c' = aead_of (d_c d)"
  shows "dec_next_frame (d\<lparr>d_c := c'\<rparr>) = map_prod id (\<lambda>d. d\<lparr>d_c := c'\<rparr>) (dec_next_frame d)"
proof -
  obtain buf e r where r: "read_full (nat (d_frameSize d) + tag_len) (d_src d) = (buf, e, r)"
    by (cases "read_full (nat (d_frameSize d) + tag_len) (d_src d)") auto
  have u: "d\<lparr>d_c := c', d_src := r\<rparr> = d\<lparr>d_src := r\<rparr>\<lparr>d_c := c'\<rparr>"
    "d\<lparr>d_c := c', d_atEOF := True\<rparr> = d\<lparr>d_atEOF := True\<rparr>\<lparr>d_c := c'\<rparr>" for d :: decrypter
    by simp_all
  have o: "aead_of c' = aead_of (d_c (d\<lparr>d_src := r\<rparr>))"
    "aead_of c' = aead_of (d_c (d\<lparr>d_src := r, d_atEOF := True\<rparr>))"
    using assms by simp_all
  show ?thesis
    using r by (cases e) (simp_all add: dec_next_frame_def Let_def u dec_open_frame_d_c [OF o(1)]
        dec_open_frame_d_c [OF o(2)] del: decrypter.update_convs)
qed

lemma dec_next_frame_keeps_c: "d_c (snd (dec_next_frame d)) = d_c d"
  by (auto simp: dec_next_frame_def dec_open_frame_def Let_def split: prod.split option.split)

lemma dec_frames_d_c:
  "aead_of c' = aead_of (d_c d) \<Longrightarrow> dec_frames (d\<lparr>d_c := c'\<rparr>) = dec_frames d"
proof (induction d rule: dec_frames.induct)
  case (1 d)
  show ?case
  proof (cases "d_atEOF d")
    case True
    then show ?thesis by (simp add: dec_frames_eof)
  next
    case False
    obtain e d' where nf: "dec_next_frame d = (e, d')" by (cases "dec_next_frame d")
    have c: "d_c d' = d_c d" using dec_next_frame_keeps_c [of d] nf by simp
    show ?thesis
    proof (cases e)
      case None
      have "dec_frames (d'\<lparr>d_c := c'\<rparr>) = dec_frames d'"
        using 1(1) [OF False nf [symmetric] None] 1(2) c by simp
      then show ?thesis
        using False nf None dec_next_frame_d_c [OF 1(2)] by (simp add: dec_frames_unfold)
    next
      case (Some x)
      then show ?thesis
        using False nf dec_next_frame_d_c [OF 1(2)] by (simp add: dec_frames_unfold)
    qed
  qed
qed

lemma decrypt_stream_c:
  assumes "aead_of c' = aead_of c"
  shows "decrypt_stream c' src = decrypt_stream c src"
proof -
  have new: "new_decrypter c' src = map_sum id (\<lambda>d. d\<lparr>d_c := c'\<rparr>) (new_decrypter c src)"
    by (auto simp: new_decrypter_def Let_def split: prod.split option.split)
  have "new_decrypter c src = Inr d \<Longrightarrow> d_c d = c" for d
    by (auto simp: new_decrypter_def Let_def split: prod.splits option.splits if_splits)
  then show ?thesis
    using dec_frames_d_c assms by (simp add: decrypt_stream_def new split: sum.split)
qed

section \<open>Cutting and accepting sealed streams\<close>

text \<open>The AEAD is deterministic: what \<^verbatim>\<open>Open\<close> accepts is what \<^verbatim>\<open>Seal\<close> produces.\<close>

definition aead_strict :: "aead \<Rightarrow> bool" where
  "aead_strict a \<longleftrightarrow> (\<forall>n p d ct. open_ct a n ct d = Some p \<longrightarrow> ct = seal a n p d)"

lemma tagged_aead_strict [simp]: "aead_strict tagged_aead"
  by (auto simp: aead_strict_def tagged_aead_def split: if_splits) (metis append_take_drop_id)

lemma take_sealed:
  assumes "aead_laws a" "\<forall>p\<in>set (take m ps). length p = k"
  shows "take (min m (length ps) * (k + tag_len)) (sealed a b i ps) = sealed a b i (take m ps)"
  using assms(2)
proof (induction ps arbitrary: i m)
  case (Cons p ps)
  show ?case
  proof (cases m)
    case (Suc m')
    with Cons.prems have "length p = k" "\<forall>p\<in>set (take m' ps). length p = k" by auto
    with Cons.IH [OF this(2), of "i + 1"] Suc show ?thesis
      by (simp add: aead_seal_length [OF assms(1)])
  qed simp
qed simp

lemma concat_take_frames:
  "0 < k \<Longrightarrow> m * k \<le> length p \<Longrightarrow>
     concat (take m (frames_of k p)) = take (m * k) p \<and> m \<le> length (frames_of k p)
     \<and> (\<forall>q\<in>set (take m (frames_of k p)). length q = k)"
proof (induction m arbitrary: p)
  case (Suc m)
  then have ne: "p \<noteq> []" and "m * k \<le> length (drop k p)" by auto
  from Suc.IH [OF Suc.prems(1) this(2)] have
    IH: "concat (take m (frames_of k (drop k p))) = take (m * k) (drop k p)"
      "m \<le> length (frames_of k (drop k p))"
      "\<forall>q\<in>set (take m (frames_of k (drop k p))). length q = k"
    by blast+
  have len: "length (take k p) = k" using Suc.prems by simp
  have t: "take (Suc m * k) p = take k p @ take (m * k) (drop k p)" by (simp add: take_add)
  show ?case
    unfolding frames_of_step [OF ne Suc.prems(1)] t
    using IH len by (simp only: take_Suc_Cons concat.simps length_Cons Suc_le_mono
        list.set insert_iff ball_simps simp_thms)
qed simp

lemma dec_frames_accepts:
  assumes "aead_strict (aead_of (d_c d))" "aead_laws (aead_of (d_c d))" "length (d_base d) = nonce_len"
    "0 < d_frameSize d" "d_src d = (bs, Eof)" "\<not> d_atEOF d" "dec_frames d = (p, Eof)"
  shows "\<exists>ps. bs = sealed (aead_of (d_c d)) (d_base d) (d_idx d) ps \<and>
    wf_frames (nat (d_frameSize d)) ps \<and> concat ps = p"
  using assms
proof (induction "length bs" arbitrary: bs d p rule: less_induct)
  case less
  define k where "k = nat (d_frameSize d)"
  define a where "a = aead_of (d_c d)"
  have fn: "frame_nonce (d_base d) (d_idx d) = Some (xor_nonce (d_base d) (d_idx d))"
    using less.prems(3) by (simp add: frame_nonce_def)
  have seal: "ct = seal a n q x \<and> length ct = length q + tag_len"
    if "open_ct a n ct x = Some q" for n ct x q
    using less.prems(1) aead_seal_length [OF less.prems(2)] that
    unfolding aead_strict_def a_def by metis
  show ?case
  proof (cases "k + tag_len \<le> length bs")
    case True
    define b where "b = take (k + tag_len) bs"
    let ?o = "open_ct a (xor_nonce (d_base d) (d_idx d)) b (frame_aad (d_idx d))"
    have nf: "dec_next_frame d = dec_open_frame (d\<lparr>d_src := (drop (k + tag_len) bs, Eof)\<rparr>) b"
      using less.prems(5) True by (simp add: dec_next_frame_def read_full_enough k_def b_def)
    show ?thesis
    proof (cases ?o)
      case None
      then show ?thesis
        using less.prems(6,7) nf fn
        by (simp add: dec_frames_unfold dec_open_frame_def IoEOF_def a_def)
    next
      case (Some q)
      define d' where "d' = d\<lparr>d_src := (drop (k + tag_len) bs, Eof), d_idx := d_idx d + 1,
        d_plain := q, d_out := 0\<rparr>"
      have nf': "dec_next_frame d = (None, d')"
        using nf fn Some by (simp add: dec_open_frame_def d'_def a_def)
      obtain p' where p': "dec_frames d' = (p', Eof)" "p = q @ p'"
        using less.prems(6,7) nf' by (auto simp: dec_frames_unfold d'_def split: prod.splits)
      have "length (drop (k + tag_len) bs) < length bs" using True by (simp add: tag_len_def)
      from less.hyps [OF this, of d' p'] less.prems p'(1) obtain ps where
        ps: "drop (k + tag_len) bs = sealed a (d_base d) (d_idx d + 1) ps" "wf_frames k ps"
          "concat ps = p'"
        by (auto simp: d'_def k_def a_def)
      have "length q = k" using seal [OF Some] True by (simp add: b_def)
      moreover have "bs = b @ drop (k + tag_len) bs" by (simp add: b_def)
      ultimately show ?thesis
        using ps p'(2) seal [OF Some]
        by (intro exI [of _ "q # ps"]) (cases ps; simp add: k_def a_def)
    qed
  next
    case short: False
    show ?thesis
    proof (cases "bs = []")
      case True
      then show ?thesis
        using less.prems(5-7) short
        by (intro exI [of _ "[]"])
          (simp add: dec_frames_unfold dec_next_frame_def read_full_def tag_len_def Let_def)
    next
      case ne: False
      have nf: "dec_next_frame d = (if length bs < tag_len then (Some ErrShortInput, d\<lparr>d_src := ([], Eof)\<rparr>)
          else dec_open_frame (d\<lparr>d_src := ([], Eof), d_atEOF := True\<rparr>) bs)"
        using less.prems(5) short ne
        by (simp add: dec_next_frame_def read_full_short k_def Let_def)
      have long: "\<not> length bs < tag_len"
        using less.prems(6,7) nf by (auto simp: dec_frames_unfold ErrShortInput_def IoEOF_def)
      let ?o = "open_ct a (xor_nonce (d_base d) (d_idx d)) bs (frame_aad (d_idx d))"
      show ?thesis
      proof (cases ?o)
        case None
        then show ?thesis
          using less.prems(6,7) nf long fn
          by (simp add: dec_frames_unfold dec_open_frame_def IoEOF_def a_def)
      next
        case (Some q)
        then have "p = q"
          using less.prems(6,7) nf long fn
          by (simp add: dec_frames_unfold dec_open_frame_def a_def dec_frames_eof)
        moreover have "length q \<le> k" using conjunct2 [OF seal [OF Some]] short by linarith
        ultimately show ?thesis
          using seal [OF Some] by (intro exI [of _ "[q]"]) (simp add: k_def a_def)
      qed
    qed
  qed
qed

lemma new_encrypter_encrypted:
  assumes "cipher_ok c" "nonce_len \<le> length rnd"
  shows "fst (new_encrypter rnd c (p @ rest, t) (int (length p))) = (encrypted c (take nonce_len rnd) p, Eof)"
  using assms encrypter_correct [of c "take nonce_len rnd" p rest t]
  by (simp add: new_encrypter_def copy_field_def cipher_ok_def Let_def)

section \<open>Properties\<close>

text \<open>
  C1: decryption inverts encryption.  For every key, frame size, nonce and plaintext (whatever
  follows the declared size in the source), the stream of \<^verbatim>\<open>NewEncrypter\<close> read through
  \<^verbatim>\<open>NewDecrypter\<close>, by a cipher with the same key but any frame size, is the plaintext and
  then a clean end of file.
\<close>

theorem decrypt_inverts_encrypt:
  assumes "cipher_ok c" "aead_of c' = aead_of c" "nonce_len \<le> length rnd"
  shows "decrypt_stream c' (fst (new_encrypter rnd c (p @ rest, t) (int (length p)))) = Inr (p, Eof)"
  using new_encrypter_encrypted [OF assms(1,3)] decrypt_encrypted [OF assms(1)] assms(3)
    decrypt_stream_c [OF assms(2)] by simp

theorem decrypt_inverts_encrypt_witness:
  "decrypt_stream (small_cipher\<lparr>frame_size := 7\<rparr>)
     (fst (new_encrypter (replicate 12 9) small_cipher ([1, 2, 3, 4, 5, 6], Eof) 5))
   = Inr ([1, 2, 3, 4, 5], Eof)"
  using decrypt_inverts_encrypt [of small_cipher "small_cipher\<lparr>frame_size := 7\<rparr>" "replicate 12 9"
      "[1, 2, 3, 4, 5]" "[6]" Eof]
  by (simp add: nonce_len_def)

text \<open>
  C2: range decryption.  \<^verbatim>\<open>DecryptRange\<close> on an encrypted object writes exactly the bytes
  \<open>s..e\<close> of the plaintext and succeeds, for every range inside the object.
\<close>

theorem decrypt_range_is_slice:
  assumes "cipher_ok c" "nonce_len \<le> length rnd" "length p \<le> 2 ^ 58" "s \<le> e" "e < length p"
    and "ct = fst (fst (new_encrypter rnd c (p, t) (int (length p))))"
  shows "decrypt_range c ct (int (length ct)) (int s) (int e) = (take (e + 1 - s) (drop s p), None)"
  using new_encrypter_encrypted [OF assms(1,2), of p "[]" t] assms(2)
    decrypt_range_encrypted [OF assms(1) _ assms(3-5), of "take nonce_len rnd"]
  by (simp add: assms(6))

theorem decrypt_range_is_slice_witness:
  "\<exists>ct. decrypt_range small_cipher ct (int (length ct)) 2 8 = ([3, 4, 5, 6, 7, 8, 9], None)"
  using decrypt_range_is_slice [OF small_cipher_ok(1), of "replicate 12 9"
      "[1, 2, 3, 4, 5, 6, 7, 8, 9, 10]" 2 8 _ Eof, OF _ _ _ _ refl]
  by (intro exI) (simp add: nonce_len_def)

text \<open>
  C3: \<^verbatim>\<open>CiphertextSize\<close>, computed in wrapping 64-bit arithmetic, is the exact length of the
  stream the encrypter produces, for objects up to 2^58 bytes.
\<close>

theorem ciphertext_size_is_length:
  assumes "cipher_ok c" "nonce_len \<le> length rnd" "length p \<le> 2 ^ 58"
  shows "ciphertext_size c (int (length p)) =
         int (length (fst (fst (new_encrypter rnd c (p, t) (int (length p))))))"
  using new_encrypter_encrypted [OF assms(1,2), of p "[]" t] assms(2)
    ciphertext_size_encrypted [OF assms(1) _ assms(3), of "take nonce_len rnd"]
  by simp

theorem ciphertext_size_is_length_witness:
  "ciphertext_size small_cipher 10 =
     int (length (fst (fst (new_encrypter (replicate 12 9) small_cipher
       ([1, 2, 3, 4, 5, 6, 7, 8, 9, 10], Eof) 10))))"
  using ciphertext_size_is_length [of small_cipher "replicate 12 9"
      "[1, 2, 3, 4, 5, 6, 7, 8, 9, 10]" Eof]
  by (simp add: nonce_len_def)

text \<open>
  C4: the encrypter's \<^verbatim>\<open>Read\<close>.  A caller using any sequence of positive buffer sizes, longer
  than the ciphertext, obtains exactly the ciphertext and then \<^verbatim>\<open>io.EOF\<close>: header, frame
  boundaries and buffer boundaries never lose or repeat a byte.
\<close>

theorem encrypter_reads_ciphertext:
  assumes "cipher_ok c" "length base = nonce_len" "\<forall>n\<in>set ns. 0 < n"
    and "length (encrypted c base p) < length ns"
  shows "read_sizes enc_rd ns (encrypter_init c (p @ rest, t) (int (length p)) base)
         = (encrypted c base p, Some IoEOF)"
proof -
  have "0 < frame_size c" using assms(1) by (simp add: cipher_ok_def)
  with assms show ?thesis
    using enc.read_sizes_all [of "encrypter_init c (p @ rest, t) (int (length p)) base" ns]
    by (simp add: enc_ok_init enc_pend_init encrypter_correct)
qed

theorem encrypter_reads_ciphertext_witness:
  "read_sizes enc_rd (replicate 100 3) (encrypter_init small_cipher ([1, 2, 3, 4, 5], Eof) 5 (replicate 12 9))
   = (encrypted small_cipher (replicate 12 9) [1, 2, 3, 4, 5], Some IoEOF)"
proof -
  have "length (encrypted small_cipher (replicate 12 9) [1, 2, 3, 4, 5]) = 54"
    by (subst length_encrypted)
      (simp_all add: nonce_len_def header_size_def tag_len_def plain_frames_def frames_of.simps)
  then show ?thesis
    using encrypter_reads_ciphertext [of small_cipher "replicate 12 9" "replicate 100 3"
        "[1, 2, 3, 4, 5]" "[]" Eof]
    by (simp add: nonce_len_def)
qed

text \<open>
  C5: the decrypter's \<^verbatim>\<open>Read\<close>.  Whatever the ciphertext, sound or not, and whatever positive
  buffer sizes the caller uses, the bytes it obtains and the final error are those of
  \<open>decrypt_stream\<close>: no plaintext byte of an accepted frame is lost when a later frame fails.
\<close>

theorem decrypter_reads_plaintext:
  assumes "new_decrypter c src = Inr d" "decrypt_stream c src = Inr (p, t)"
    and "\<forall>n\<in>set ns. 0 < n" "length p < length ns"
  shows "read_sizes dec_read ns d = (p, Some (end_err t))"
  using dec.read_sizes_all [OF dec_pend_fresh(1) [OF assms(1)] assms(3)]
    dec_pend_fresh(2) [OF assms(1)] assms(2,4) by (cases "dec_pend d") simp

theorem decrypter_reads_plaintext_witness:
  "\<exists>d. read_sizes dec_read [1, 2, 3, 4, 5, 6, 7] d = ([1, 2, 3, 4, 5], Some IoEOF)"
proof -
  let ?s = "fst (new_encrypter (replicate 12 9) small_cipher ([1, 2, 3, 4, 5], Eof) 5)"
  have s: "decrypt_stream small_cipher ?s = Inr ([1, 2, 3, 4, 5], Eof)"
    using new_encrypter_encrypted [of small_cipher "replicate 12 9" "[1, 2, 3, 4, 5]" "[]" Eof]
      decrypt_encrypted [of small_cipher "replicate 12 9"] by (simp add: nonce_len_def)
  then obtain d where "new_decrypter small_cipher ?s = Inr d"
    by (auto simp: decrypt_stream_def split: sum.splits)
  from decrypter_reads_plaintext [OF this s, of "[1, 2, 3, 4, 5, 6, 7]"] show ?thesis by auto
qed

text \<open>
  C6: only sealed frames are accepted, in order.  When the decrypter reports a clean end, the
  input after its header is the concatenation of frames sealed under the header's base nonce
  with the consecutive indices 0, 1, 2, ..., each but the last full, and the plaintext is
  theirs: frames cannot be reordered, repeated or dropped from the middle.
\<close>

theorem decrypter_accepts_only_sealed:
  assumes "aead_laws (aead_of c)" "aead_strict (aead_of c)"
    and "decrypt_stream c (ct, Eof) = Inr (p, Eof)"
  shows "\<exists>ps. drop header_size ct = sealed (aead_of c) (take nonce_len (drop 1 ct)) 0 ps \<and>
    wf_frames (uint_be (take 4 (drop (1 + nonce_len) ct))) ps \<and> concat ps = p \<and>
    ct ! 0 = crypto_version"
proof -
  have len: "header_size \<le> length ct"
    using assms(3) by (cases "header_size \<le> length ct")
      (auto simp: decrypt_stream_def new_decrypter_def read_full_def split: if_splits)
  define d where "d = \<lparr>d_c = c, d_src = (drop header_size ct, Eof),
    d_base = take nonce_len (drop 1 (take header_size ct)),
    d_frameSize = int (uint_be (drop (1 + nonce_len) (take header_size ct))), d_idx = 0,
    d_plain = [], d_out = 0, d_atEOF = False\<rparr>"
  have nd: "new_decrypter c (ct, Eof) = Inr d" "take header_size ct ! 0 = crypto_version"
      "0 < d_frameSize d"
    using assms(3) len
    by (auto simp: decrypt_stream_def new_decrypter_def read_full_enough Let_def d_def split: if_splits)
  have fields: "d_base d = take nonce_len (drop 1 ct)"
    "drop (1 + nonce_len) (take header_size ct) = take 4 (drop (1 + nonce_len) ct)"
    by (simp_all add: d_def header_size_def nonce_len_def drop_take)
  have lb: "length (d_base d) = nonce_len"
    using len by (simp add: fields header_size_def nonce_len_def)
  have "dec_frames d = (p, Eof)" using assms(3) nd(1) by (simp add: decrypt_stream_def)
  moreover have "d_src d = (drop header_size ct, Eof)" "\<not> d_atEOF d" "d_c d = c" "d_idx d = 0"
    "nat (d_frameSize d) = uint_be (take 4 (drop (1 + nonce_len) ct))"
    by (simp_all add: d_def flip: fields(2) del: One_nat_def add_Suc add_Suc_right)
  ultimately obtain ps where "drop header_size ct = sealed (aead_of c) (d_base d) 0 ps"
    "wf_frames (uint_be (take 4 (drop (1 + nonce_len) ct))) ps" "concat ps = p"
    using dec_frames_accepts [of d "drop header_size ct" p] assms(1,2) nd(3) lb by auto
  moreover have "ct ! 0 = crypto_version" using nd(2) by (simp add: header_size_def)
  ultimately show ?thesis unfolding fields(1) by blast
qed

theorem decrypter_accepts_only_sealed_witness:
  "\<exists>ct ps. drop header_size ct = sealed tagged_aead (take nonce_len (drop 1 ct)) 0 ps \<and>
    concat ps = [1, 2, 3, 4, 5]"
proof -
  have "decrypt_stream small_cipher (encrypted small_cipher (replicate 12 9) [1, 2, 3, 4, 5], Eof)
      = Inr ([1, 2, 3, 4, 5], Eof)"
    by (rule decrypt_encrypted) (simp_all add: nonce_len_def)
  from decrypter_accepts_only_sealed [OF _ _ this] show ?thesis by auto
qed

text \<open>
  C7: truncation.  Cutting a stored object at a frame boundary is not detected: the frames
  that remain decrypt to a proper prefix of the plaintext with a clean end of file (the code
  seals no frame count; only a cut inside a frame is an error).
\<close>

theorem truncation_at_frame_boundary_accepted:
  assumes "cipher_ok c" "length base = nonce_len" "frame_size c = int k" "m * k < length p"
  shows "decrypt_stream c (take (header_size + m * (k + tag_len)) (encrypted c base p), Eof)
         = Inr (take (m * k) p, Eof)"
proof -
  have k: "0 < k" "m * k \<le> length p" and laws: "aead_laws (aead_of c)"
    using assms by (auto simp: cipher_ok_def)
  note fr = concat_take_frames [OF k]
  have "take (m * (k + tag_len)) (sealed (aead_of c) base 0 (frames_of k p))
      = sealed (aead_of c) base 0 (take m (frames_of k p))"
    using take_sealed [OF laws, of m "frames_of k p" k base 0] fr by (simp add: min_absorb1)
  moreover have "wf_frames k (take m (frames_of k p))"
    using k(1) by (intro wf_frames_take wf_frames_of)
  ultimately show ?thesis
    using decrypt_sealed [OF assms(1,2), of "take m (frames_of k p)"] fr assms
    by (auto simp: encrypted_def plain_frames_def)
qed

theorem truncation_at_frame_boundary_accepted_witness:
  "\<exists>ct. decrypt_stream small_cipher (ct, Eof) = Inr ([1, 2, 3, 4], Eof) \<and>
        ct = take 37 (encrypted small_cipher (replicate 12 9) [1, 2, 3, 4, 5])"
  using truncation_at_frame_boundary_accepted [of small_cipher "replicate 12 9" 4 1 "[1, 2, 3, 4, 5]"]
  by (simp add: nonce_len_def header_size_def tag_len_def)

text \<open>
  C8: no nonce is used twice under a key within an object: the nonces of the up to 2^64
  frame indices are pairwise distinct.
\<close>

theorem frame_nonces_distinct:
  assumes "length base = nonce_len" "n \<le> 2 ^ 64"
  shows "distinct (map (\<lambda>i. frame_nonce base (of_nat i)) [0..<n])"
proof -
  have eq: "i = j" if "i < n" "j < n" "(of_nat i :: 64 word) = of_nat j" for i j
  proof -
    have "i < 2 ^ LENGTH(64)" "j < 2 ^ LENGTH(64)" using that(1,2) assms(2) by simp_all
    then show ?thesis using that(3) by (metis of_nat_inverse)
  qed
  have "inj_on (\<lambda>i. frame_nonce base (of_nat i)) (set [0..<n])"
  proof (rule inj_onI)
    fix i j assume ij: "i \<in> set [0..<n]" "j \<in> set [0..<n]"
      and "frame_nonce base (of_nat i) = frame_nonce base (of_nat j)"
    then have "(of_nat i :: 64 word) = of_nat j"
      using assms(1) by (simp add: frame_nonce_def xor_nonce_inject)
    with ij show "i = j" by (intro eq) simp_all
  qed
  then show ?thesis by (simp add: distinct_map)
qed

theorem frame_nonces_distinct_witness:
  "distinct (map (\<lambda>i. frame_nonce (replicate 12 9) (of_nat i)) [0..<1000])"
  using frame_nonces_distinct [of "replicate 12 9" 1000] by (simp add: nonce_len_def)

end
