(* ===== verification/Table.thy ===== *)
theory Table
  imports GoText
begin

text \<open>
  SQL tables with a primary key, as row lists in rowid (insertion) order, the statements the
  program issues against them, and the locale \<open>keyed_table\<close> that states what its clients
  rely on.  It is interpreted on the four tables of \<^verbatim>\<open>metadata.go\<close> in the theory Metadata.
\<close>

section \<open>Statements\<close>

definition t_find :: "('r \<Rightarrow> 'k) \<Rightarrow> 'k \<Rightarrow> 'r list \<Rightarrow> 'r option" where
  "t_find key k rows = find (\<lambda>r. key r = k) rows"

definition t_upsert :: "('r \<Rightarrow> 'k) \<Rightarrow> 'r \<Rightarrow> 'r list \<Rightarrow> 'r list" where
  "t_upsert key r rows =
     (if t_find key (key r) rows = None then rows @ [r]
      else map (\<lambda>x. if key x = key r then r else x) rows)"

definition t_delete :: "('r \<Rightarrow> 'k) \<Rightarrow> 'k \<Rightarrow> 'r list \<Rightarrow> 'r list" where
  "t_delete key k rows = filter (\<lambda>r. key r \<noteq> k) rows"

definition t_inv :: "('r \<Rightarrow> 'k) \<Rightarrow> 'r list \<Rightarrow> bool" where
  "t_inv key rows \<longleftrightarrow> distinct (map key rows)"

text \<open>\<^verbatim>\<open>ORDER BY\<close> is \<open>sort_key\<close>.\<close>

lemma t_find_Nil [simp]: "t_find key k [] = None"
  by (simp add: t_find_def)

lemma t_find_Cons: "t_find key k (r # rows) = (if key r = k then Some r else t_find key k rows)"
  by (simp add: t_find_def)

lemma t_find_None: "t_find key k rows = None \<longleftrightarrow> k \<notin> key ` set rows"
  by (auto simp: t_find_def find_None_iff)

lemma t_find_Some:
  "t_inv key rows \<Longrightarrow> t_find key k rows = Some r \<longleftrightarrow> r \<in> set rows \<and> key r = k"
  unfolding t_inv_def by (induction rows) (auto simp: t_find_Cons)

lemma t_find_append:
  "t_find key k (xs @ ys) = (case t_find key k xs of None \<Rightarrow> t_find key k ys | r \<Rightarrow> r)"
  by (induction xs) (auto simp: t_find_Cons)

lemma t_find_Some_key: "t_find key k rows = Some r \<Longrightarrow> key r = k \<and> k \<in> key ` set rows"
  by (induction rows) (auto simp: t_find_Cons split: if_splits)

lemma t_find_map_replace:
  "t_find key k (map (\<lambda>x. if key x = key r then r else x) rows) =
     (if k = key r \<and> k \<in> key ` set rows then Some r
      else t_find key k rows)"
  by (induction rows) (auto simp: t_find_Cons)

lemma t_find_upsert:
  "t_find key k (t_upsert key r rows) = (if k = key r then Some r else t_find key k rows)"
proof (cases "t_find key (key r) rows")
  case None
  then show ?thesis by (cases "t_find key k rows") (auto simp: t_upsert_def t_find_append t_find_Cons)
next
  case (Some x)
  then show ?thesis
    using t_find_Some_key [OF Some] by (auto simp: t_upsert_def t_find_map_replace)
qed

lemma t_find_delete:
  "t_find key k (t_delete key k' rows) = (if k = k' then None else t_find key k rows)"
  by (induction rows) (auto simp: t_delete_def t_find_Cons)

lemma t_inv_upsert: "t_inv key rows \<Longrightarrow> t_inv key (t_upsert key r rows)"
proof -
  have "map key (map (\<lambda>x. if key x = key r then r else x) rows) = map key rows" by auto
  then show "t_inv key rows \<Longrightarrow> t_inv key (t_upsert key r rows)"
    by (simp add: t_inv_def t_upsert_def t_find_None del: map_map)
qed

lemma t_inv_delete: "t_inv key rows \<Longrightarrow> t_inv key (t_delete key k rows)"
  by (simp add: t_inv_def t_delete_def distinct_map_filter)

section \<open>The contract of a table\<close>

locale keyed_table =
  fixes key :: "'r \<Rightarrow> 'k"
    and lookup :: "'k \<Rightarrow> 's \<Rightarrow> 'r option"
    and put :: "'r \<Rightarrow> 's \<Rightarrow> 's"
    and del :: "'k \<Rightarrow> 's \<Rightarrow> 's"
    and rows :: "'s \<Rightarrow> 'r list"
    and inv :: "'s \<Rightarrow> bool"
  assumes inv_put: "inv s \<Longrightarrow> inv (put r s)"
    and inv_del: "inv s \<Longrightarrow> inv (del k s)"
    and inv_rows: "inv s \<Longrightarrow> distinct (map key (rows s))"
    and lookup_put: "lookup k (put r s) = (if k = key r then Some r else lookup k s)"
    and lookup_del: "lookup k (del k' s) = (if k = k' then None else lookup k s)"
    and lookup_rows: "inv s \<Longrightarrow> lookup k s = Some r \<longleftrightarrow> r \<in> set (rows s) \<and> key r = k"
begin

lemma lookup_put_same [simp]: "lookup (key r) (put r s) = Some r"
  by (simp add: lookup_put)

lemma lookup_put_other: "k \<noteq> key r \<Longrightarrow> lookup k (put r s) = lookup k s"
  by (simp add: lookup_put)

lemma lookup_del_same [simp]: "lookup k (del k s) = None"
  by (simp add: lookup_del)

lemma rows_put: "inv s \<Longrightarrow> set (rows (put r s)) = insert r {x \<in> set (rows s). key x \<noteq> key r}"
  using lookup_rows [of s] lookup_rows [OF inv_put [of s r]] lookup_put
  by (auto simp: set_eq_iff) (metis option.inject option.simps(3))+

lemma rows_del: "inv s \<Longrightarrow> set (rows (del k s)) = {x \<in> set (rows s). key x \<noteq> k}"
  using lookup_rows [of s] lookup_rows [OF inv_del [of s k]] lookup_del
  by (auto simp: set_eq_iff) (metis option.simps(3))+

text \<open>
  A history of writes: the last write to a key decides what a lookup returns.
\<close>

fun apply_op :: "'r + 'k \<Rightarrow> 's \<Rightarrow> 's" where
  "apply_op (Inl r) s = put r s"
| "apply_op (Inr k) s = del k s"

fun op_effect :: "'k \<Rightarrow> 'r + 'k \<Rightarrow> 'r option \<Rightarrow> 'r option" where
  "op_effect k (Inl r) old = (if k = key r then Some r else old)"
| "op_effect k (Inr k') old = (if k = k' then None else old)"

lemma lookup_apply: "lookup k (apply_op w s) = op_effect k w (lookup k s)"
  by (cases w) (simp_all add: lookup_put lookup_del)

lemma lookup_history: "lookup k (fold apply_op ws s) = fold (op_effect k) ws (lookup k s)"
  by (induction ws arbitrary: s) (simp_all add: lookup_apply)

lemma inv_history: "inv s \<Longrightarrow> inv (fold apply_op ws s)"
proof (induction ws arbitrary: s)
  case (Cons w ws)
  then have "inv (apply_op w s)" by (cases w) (simp_all add: inv_put inv_del)
  with Cons.IH show ?case by simp
qed simp

end

end
