(* ===== verification/Metadata.thy ===== *)
theory Metadata
  imports Table "HOL-Library.Product_Lexorder"
begin

text \<open>
  The metadata store of \<^verbatim>\<open>internal/metadata/metadata.go\<close>: four SQLite tables, each a row list
  in rowid order.  A store also carries the schedule of the database failures to come: every
  statement takes the head of \<open>faults\<close>; \<open>Some (e, k)\<close> makes it fail with \<open>e\<close> (a query after
  \<open>k\<close> rows), so every error return of the Go code is a branch of the model.  A transaction
  that does not reach its commit leaves the tables alone.
\<close>

section \<open>Rows and state\<close>

record bucket =
  b_name :: string
  b_created :: int
  b_enckey :: string

record upload =
  u_id :: string
  u_bucket :: string
  u_key :: string
  u_staging :: string
  u_created :: int

record part =
  p_upload :: string
  p_num :: int
  p_size :: int
  p_etag :: string

record object =
  o_bucket :: string
  o_key :: string
  o_size :: int
  o_ctsize :: int
  o_etag :: string
  o_ctype :: string
  o_msg :: int
  o_file :: string
  o_nonce :: bytes
  o_created :: int

record store =
  buckets :: "bucket list"
  objects :: "object list"
  uploads :: "upload list"
  parts :: "part list"
  faults :: "(goerr \<times> nat) option list"

definition empty_store :: store where
  "empty_store = \<lparr>buckets = [], objects = [], uploads = [], parts = [], faults = []\<rparr>"

text \<open>The primary key of an object, ordered as \<^verbatim>\<open>ORDER BY bucket, key\<close> orders rows.\<close>

datatype objid = ObjId (id_bucket: string) (id_key: string)

instantiation objid :: linorder
begin

definition less_eq_objid :: "objid \<Rightarrow> objid \<Rightarrow> bool" where
  "less_eq_objid a b \<longleftrightarrow> (id_bucket a, id_key a) \<le> (id_bucket b, id_key b)"

definition less_objid :: "objid \<Rightarrow> objid \<Rightarrow> bool" where
  "less_objid a b \<longleftrightarrow> (id_bucket a, id_key a) < (id_bucket b, id_key b)"

instance
  by standard (auto simp: less_eq_objid_def less_objid_def less_le_not_le objid.expand)

end

definition obj_id :: "object \<Rightarrow> objid" where
  "obj_id ob = ObjId (o_bucket ob) (o_key ob)"

definition part_id :: "part \<Rightarrow> string \<times> int" where
  "part_id p = (p_upload p, p_num p)"

definition ErrNotFound :: goerr where "ErrNotFound = New ''metadata: not found''"
definition ErrBucketNotEmpty :: goerr where "ErrBucketNotEmpty = New ''metadata: bucket not empty''"
definition ErrBucketExists :: goerr where "ErrBucketExists = New ''metadata: bucket already exists''"
definition ErrUploadNotFound :: goerr where
  "ErrUploadNotFound = New ''metadata: multipart upload not found''"

text \<open>Failure of a primary key, as the driver reports it, and \<^verbatim>\<open>isUniqueErr\<close>.\<close>

definition UniqueErr :: goerr where "UniqueErr = New ''UNIQUE constraint failed''"

definition is_unique_err :: "goerr \<Rightarrow> bool" where
  "is_unique_err e = (case e of New m \<Rightarrow> contains_str m ''UNIQUE constraint failed'' | _ \<Rightarrow> False)"

lemma metadata_errors_distinct [simp]:
  "ErrNotFound \<noteq> ErrBucketNotEmpty" "ErrBucketExists \<noteq> ErrNotFound" "ErrUploadNotFound \<noteq> ErrNotFound"
  "ErrNotFound \<noteq> ErrUploadNotFound" "ErrBucketNotEmpty \<noteq> ErrNotFound" "ErrNotFound \<noteq> ErrBucketExists"
  by (simp_all add: ErrNotFound_def ErrBucketNotEmpty_def ErrBucketExists_def ErrUploadNotFound_def)

section \<open>Statements\<close>

definition sql :: "store \<Rightarrow> (goerr \<times> nat) option \<times> store" where
  "sql s = (case faults s of [] \<Rightarrow> (None, s) | f # fs \<Rightarrow> (f, s\<lparr>faults := fs\<rparr>))"

text \<open>A statement whose failure aborts the operation.\<close>

definition exec :: "(store, unit) step" where
  "exec s = (case sql s of (None, s') \<Rightarrow> (Inr (), s') | (Some (e, k), s') \<Rightarrow> (Inl e, s'))"

definition gets :: "(store \<Rightarrow> 'a) \<Rightarrow> (store, 'a) step" where
  "gets f s = (Inr (f s), s)"

definition modify :: "(store \<Rightarrow> store) \<Rightarrow> (store, unit) step" where
  "modify f s = (Inr (), f s)"

definition find_bucket :: "string \<Rightarrow> store \<Rightarrow> bucket option" where
  "find_bucket n s = t_find b_name n (buckets s)"
definition put_bucket_row :: "bucket \<Rightarrow> store \<Rightarrow> store" where
  "put_bucket_row r s = s\<lparr>buckets := t_upsert b_name r (buckets s)\<rparr>"
definition del_bucket_row :: "string \<Rightarrow> store \<Rightarrow> store" where
  "del_bucket_row n s = s\<lparr>buckets := t_delete b_name n (buckets s)\<rparr>"

definition find_object :: "objid \<Rightarrow> store \<Rightarrow> object option" where
  "find_object i s = t_find obj_id i (objects s)"
definition put_object_row :: "object \<Rightarrow> store \<Rightarrow> store" where
  "put_object_row r s = s\<lparr>objects := t_upsert obj_id r (objects s)\<rparr>"
definition del_object_row :: "objid \<Rightarrow> store \<Rightarrow> store" where
  "del_object_row i s = s\<lparr>objects := t_delete obj_id i (objects s)\<rparr>"

definition find_upload :: "string \<Rightarrow> store \<Rightarrow> upload option" where
  "find_upload i s = t_find u_id i (uploads s)"
definition put_upload_row :: "upload \<Rightarrow> store \<Rightarrow> store" where
  "put_upload_row r s = s\<lparr>uploads := t_upsert u_id r (uploads s)\<rparr>"
definition del_upload_row :: "string \<Rightarrow> store \<Rightarrow> store" where
  "del_upload_row i s = s\<lparr>uploads := t_delete u_id i (uploads s)\<rparr>"

definition find_part :: "string \<times> int \<Rightarrow> store \<Rightarrow> part option" where
  "find_part i s = t_find part_id i (parts s)"
definition put_part_row :: "part \<Rightarrow> store \<Rightarrow> store" where
  "put_part_row r s = s\<lparr>parts := t_upsert part_id r (parts s)\<rparr>"
definition del_part_row :: "string \<times> int \<Rightarrow> store \<Rightarrow> store" where
  "del_part_row i s = s\<lparr>parts := t_delete part_id i (parts s)\<rparr>"

text \<open>The primary keys of the schema.\<close>

definition store_inv :: "store \<Rightarrow> bool" where
  "store_inv s \<longleftrightarrow> t_inv b_name (buckets s) \<and> t_inv obj_id (objects s) \<and>
     t_inv u_id (uploads s) \<and> t_inv part_id (parts s)"

lemmas row_defs = find_bucket_def put_bucket_row_def del_bucket_row_def
  find_object_def put_object_row_def del_object_row_def
  find_upload_def put_upload_row_def del_upload_row_def
  find_part_def put_part_row_def del_part_row_def

lemmas table_facts = t_inv_upsert t_inv_delete t_find_upsert t_find_delete t_find_Some

interpretation bkt: keyed_table b_name find_bucket put_bucket_row del_bucket_row buckets store_inv
  by unfold_locales (simp_all add: row_defs store_inv_def table_facts t_inv_def [symmetric])

interpretation obj: keyed_table obj_id find_object put_object_row del_object_row objects store_inv
  by unfold_locales (simp_all add: row_defs store_inv_def table_facts t_inv_def [symmetric])

interpretation upl: keyed_table u_id find_upload put_upload_row del_upload_row uploads store_inv
  by unfold_locales (simp_all add: row_defs store_inv_def table_facts t_inv_def [symmetric])

interpretation prt: keyed_table part_id find_part put_part_row del_part_row parts store_inv
  by unfold_locales (simp_all add: row_defs store_inv_def table_facts t_inv_def [symmetric])

section \<open>Buckets\<close>

text \<open>\<^verbatim>\<open>INSERT\<close> without a conflict clause fails on an existing key.\<close>

definition create_bucket :: "int \<Rightarrow> string \<Rightarrow> string \<Rightarrow> (store, unit) step" where
  "create_bucket now name enc_key =
     ecatch (ebind exec (\<lambda>_. ebind (gets (find_bucket name)) (\<lambda>b.
         if b \<noteq> None then efail UniqueErr
         else modify (put_bucket_row \<lparr>b_name = name, b_created = now, b_enckey = enc_key\<rparr>))))
       (\<lambda>err. if is_unique_err err then efail ErrBucketExists
              else efail (Wrap ''metadata: create bucket'' [err]))
       eret"

definition get_bucket :: "string \<Rightarrow> (store, bucket) step" where
  "get_bucket name =
     ebind exec (\<lambda>_. ebind (gets (find_bucket name)) (\<lambda>b.
       case b of None \<Rightarrow> efail ErrNotFound | Some r \<Rightarrow> eret r))"

definition list_buckets :: "(store, bucket list) step" where
  "list_buckets = ebind exec (\<lambda>_. gets (\<lambda>s. sort_key b_name (buckets s)))"

definition bucket_count :: "string \<Rightarrow> store \<Rightarrow> nat" where
  "bucket_count name s = length (filter (\<lambda>ob. o_bucket ob = name) (objects s))"

text \<open>Begin, count, delete, commit: only the commit makes the deletion visible.\<close>

definition delete_bucket :: "string \<Rightarrow> (store, unit) step" where
  "delete_bucket name =
     ebind exec (\<lambda>_. ebind exec (\<lambda>_. ebind (gets (bucket_count name)) (\<lambda>n.
       if n > 0 then efail ErrBucketNotEmpty
       else ebind exec (\<lambda>_. ebind (gets (find_bucket name)) (\<lambda>b.
         if b = None then efail ErrNotFound
         else ebind exec (\<lambda>_. modify (del_bucket_row name)))))))"

section \<open>Objects\<close>

text \<open>\<^verbatim>\<open>time.Time{}\<close> as seconds since the epoch.\<close>

definition zero_time :: int where "zero_time = - 62135596800"

text \<open>A content type of \<^verbatim>\<open>""\<close> is stored as NULL, which reads back as \<^verbatim>\<open>""\<close>.\<close>

definition put_object :: "int \<Rightarrow> object \<Rightarrow> (store, unit) step" where
  "put_object now ob =
     (let ob' = (if o_created ob = zero_time then ob\<lparr>o_created := now\<rparr> else ob) in
      ecatch exec (\<lambda>err. efail (Wrap ''metadata: put object'' [err]))
        (\<lambda>_. modify (put_object_row ob')))"

definition get_object :: "string \<Rightarrow> string \<Rightarrow> (store, object) step" where
  "get_object b k =
     ebind exec (\<lambda>_. ebind (gets (find_object (ObjId b k))) (\<lambda>r.
       case r of None \<Rightarrow> efail ErrNotFound | Some ob \<Rightarrow> eret ob))"

text \<open>
  SQLite's \<^verbatim>\<open>substr(text, 1, n)\<close> counts UTF-8 characters: a byte from 0xC0 on starts a
  character that its continuation bytes belong to.
\<close>

definition is_cont :: "char \<Rightarrow> bool" where
  "is_cont c \<longleftrightarrow> 128 \<le> (of_char c :: nat) \<and> (of_char c :: nat) < 192"

function sql_substr :: "string \<Rightarrow> nat \<Rightarrow> string" where
  "sql_substr s 0 = []"
| "sql_substr [] (Suc n) = []"
| "sql_substr (c # cs) (Suc n) =
     (if 192 \<le> (of_char c :: nat)
      then c # takeWhile is_cont cs @ sql_substr (dropWhile is_cont cs) n
      else c # sql_substr cs n)"
  by pat_completeness auto
termination
  by (relation "measure snd") auto

text \<open>A negative \<^verbatim>\<open>LIMIT\<close> is none.\<close>

definition sql_limit :: "int \<Rightarrow> 'a list \<Rightarrow> 'a list" where
  "sql_limit n xs = (if n < 0 then xs else take (nat n) xs)"

definition select_objects :: "string \<Rightarrow> string \<Rightarrow> string \<Rightarrow> int \<Rightarrow> store \<Rightarrow> object list" where
  "select_objects b prefix start_after n s =
     sql_limit n (sort_key o_key (filter (\<lambda>ob. o_bucket ob = b \<and> start_after < o_key ob \<and>
       sql_substr (o_key ob) (length prefix) = prefix) (objects s)))"

definition list_objects ::
    "string \<Rightarrow> string \<Rightarrow> string \<Rightarrow> int \<Rightarrow> (store, object list \<times> bool) step" where
  "list_objects b prefix start_after lim =
     (let limit = (if lim \<le> 0 then 1000 else lim) in
      ebind exec (\<lambda>_. ebind (gets (select_objects b prefix start_after (i64 (limit + 1)))) (\<lambda>objs.
        if int (length objs) > limit then eret (take (nat limit) objs, True)
        else eret (objs, False))))"

text \<open>A query whose rows go through a callback: a callback error stops it, and the query
  itself may fail after some of its rows.\<close>

fun for_rows :: "('r \<Rightarrow> 'a \<Rightarrow> (goerr + unit) \<times> 'a) \<Rightarrow> 'r list \<Rightarrow> 'a \<Rightarrow> (goerr + unit) \<times> 'a" where
  "for_rows f [] acc = (Inr (), acc)"
| "for_rows f (r # rs) acc =
     (case f r acc of (Inl e, acc') \<Rightarrow> (Inl e, acc') | (Inr _, acc') \<Rightarrow> for_rows f rs acc')"

definition for_query ::
    "(store \<Rightarrow> 'r list) \<Rightarrow> ('r \<Rightarrow> 'a \<Rightarrow> (goerr + unit) \<times> 'a) \<Rightarrow> 'a \<Rightarrow> store
      \<Rightarrow> (goerr + unit) \<times> 'a \<times> store" where
  "for_query q f acc s = (case sql s of
       (None, s') \<Rightarrow> (case for_rows f (q s) acc of (r, acc') \<Rightarrow> (r, acc', s'))
     | (Some (e, k), s') \<Rightarrow> (case for_rows f (take k (q s)) acc of
           (Inl e', acc') \<Rightarrow> (Inl e', acc', s') | (Inr _, acc') \<Rightarrow> (Inl e, acc', s')))"

definition for_each_object where
  "for_each_object = for_query (\<lambda>s. sort_key obj_id (objects s))"

definition for_each_bucket where
  "for_each_bucket = for_query (\<lambda>s. sort_key b_name (buckets s))"

definition delete_object :: "string \<Rightarrow> string \<Rightarrow> (store, object) step" where
  "delete_object b k =
     ebind exec (\<lambda>_. ebind exec (\<lambda>_. ebind (gets (find_object (ObjId b k))) (\<lambda>r.
       case r of None \<Rightarrow> efail ErrNotFound
       | Some ob \<Rightarrow> ebind exec (\<lambda>_. ebind exec (\<lambda>_.
           ebind (modify (del_object_row (ObjId b k))) (\<lambda>_. eret ob))))))"

section \<open>Multipart uploads\<close>

definition create_multipart :: "int \<Rightarrow> upload \<Rightarrow> (store, unit) step" where
  "create_multipart now m =
     (let m' = (if u_created m = zero_time then m\<lparr>u_created := now\<rparr> else m) in
      ebind exec (\<lambda>_. ebind (gets (find_upload (u_id m'))) (\<lambda>r.
        if r \<noteq> None then efail UniqueErr else modify (put_upload_row m'))))"

definition get_multipart :: "string \<Rightarrow> (store, upload) step" where
  "get_multipart i =
     ebind exec (\<lambda>_. ebind (gets (find_upload i)) (\<lambda>r.
       case r of None \<Rightarrow> efail ErrUploadNotFound | Some m \<Rightarrow> eret m))"

definition delete_multipart :: "string \<Rightarrow> (store, unit) step" where
  "delete_multipart i =
     ebind exec (\<lambda>_. ebind exec (\<lambda>_. ebind exec (\<lambda>_. ebind (gets (find_upload i)) (\<lambda>r.
       if r = None then efail ErrUploadNotFound
       else ebind exec (\<lambda>_. modify (\<lambda>s. del_upload_row i
              (s\<lparr>parts := filter (\<lambda>p. p_upload p \<noteq> i) (parts s)\<rparr>)))))))"

definition upsert_part :: "part \<Rightarrow> (store, unit) step" where
  "upsert_part p = ebind exec (\<lambda>_. modify (put_part_row p))"

definition list_parts :: "string \<Rightarrow> (store, part list) step" where
  "list_parts i = ebind exec (\<lambda>_. gets (\<lambda>s.
     sort_key p_num (filter (\<lambda>p. p_upload p = i) (parts s))))"

text \<open>\<^verbatim>\<open>ForEachMultipart\<close> reads all uploads first, then the parts of each.\<close>

fun for_uploads ::
    "(upload \<Rightarrow> part list \<Rightarrow> 'a \<Rightarrow> (goerr + unit) \<times> 'a) \<Rightarrow> upload list \<Rightarrow> 'a \<Rightarrow> store
      \<Rightarrow> (goerr + unit) \<times> 'a \<times> store" where
  "for_uploads f [] acc s = (Inr (), acc, s)"
| "for_uploads f (m # ms) acc s = (case list_parts (u_id m) s of
       (Inl e, s') \<Rightarrow> (Inl e, acc, s')
     | (Inr ps, s') \<Rightarrow> (case f m ps acc of
           (Inl e, acc') \<Rightarrow> (Inl e, acc', s') | (Inr _, acc') \<Rightarrow> for_uploads f ms acc' s'))"

definition for_each_multipart where
  "for_each_multipart f acc s = (case exec s of
       (Inl e, s') \<Rightarrow> (Inl e, acc, s') | (Inr _, s') \<Rightarrow> for_uploads f (uploads s) acc s')"

section \<open>Behaviour\<close>

text \<open>What a store holds, whatever failures are still to come.\<close>

definition tables :: "store \<Rightarrow> bucket list \<times> object list \<times> upload list \<times> part list" where
  "tables s = (buckets s, objects s, uploads s, parts s)"

lemma sql_simps [simp]:
  "buckets (snd (sql s)) = buckets s" "objects (snd (sql s)) = objects s"
  "uploads (snd (sql s)) = uploads s" "parts (snd (sql s)) = parts s"
  by (simp_all add: sql_def split: list.split)

lemma exec_cases:
  obtains (ok) s' where "exec s = (Inr (), s')" "tables s' = tables s"
  | (fail) e s' where "exec s = (Inl e, s')" "tables s' = tables s"
proof (cases "sql s")
  case (Pair f s')
  have "tables s' = tables s" using Pair by (auto simp: sql_def tables_def split: list.splits)
  with Pair ok fail show ?thesis by (cases f) (auto simp: exec_def)
qed

lemma exec_no_faults [simp]: "faults s = [] \<Longrightarrow> exec s = (Inr (), s)"
  by (simp add: exec_def sql_def)

lemma tables_find:
  assumes "tables s' = tables s"
  shows "find_bucket n s' = find_bucket n s" "find_object i s' = find_object i s"
    "find_upload u s' = find_upload u s" "find_part p s' = find_part p s"
    "store_inv s' = store_inv s" "bucket_count n s' = bucket_count n s"
  using assms by (simp_all add: row_defs store_inv_def bucket_count_def tables_def)

lemma exec_Inr: "exec s = (Inr u, s') \<Longrightarrow> tables s' = tables s"
  and exec_Inl: "exec s = (Inl e, s') \<Longrightarrow> tables s' = tables s"
  by (cases s rule: exec_cases; simp)+

lemma gets_eq [simp, step_simps]: "gets f s = (Inr (f s), s)"
  by (simp add: gets_def)

lemma modify_eq [simp, step_simps]: "modify f s = (Inr (), f s)"
  by (simp add: modify_def)

lemma eret_eq [simp]: "eret x s = (Inr x, s)"
  by (simp add: eret_def)

lemma efail_eq [simp]: "efail e s = (Inl e, s)"
  by (simp add: efail_def)

lemma ebind_exec_Inr:
  "ebind exec f s = (Inr x, t) \<longleftrightarrow> (\<exists>s'. exec s = (Inr (), s') \<and> f () s' = (Inr x, t))"
  by (simp add: ebind_Inr)

lemma ebind_gets [simp]: "ebind (gets g) f s = f (g s) s"
  by (simp add: ebind_def)

lemma ecatch_Inr: "ecatch m h f s = (Inr y, t) \<longleftrightarrow>
    (\<exists>e s'. m s = (Inl e, s') \<and> h e s' = (Inr y, t)) \<or> (\<exists>x s'. m s = (Inr x, s') \<and> f x s' = (Inr y, t))"
  by (auto simp: ecatch_def split: prod.splits sum.splits)

lemma ecatch_Inl: "ecatch m h f s = (Inl y, t) \<longleftrightarrow>
    (\<exists>e s'. m s = (Inl e, s') \<and> h e s' = (Inl y, t)) \<or> (\<exists>x s'. m s = (Inr x, s') \<and> f x s' = (Inl y, t))"
  by (auto simp: ecatch_def split: prod.splits sum.splits)

text \<open>Success: what the operation saw and what it did.\<close>

lemma create_bucket_Inr:
  assumes "create_bucket now n k s = (Inr u, s')"
  shows "find_bucket n s = None \<and>
    tables s' = tables (put_bucket_row \<lparr>b_name = n, b_created = now, b_enckey = k\<rparr> s)"
  using assms
  by (auto simp: create_bucket_def Let_def ecatch_Inr ebind_exec_Inr ebind_Inr row_defs tables_def bucket_count_def
      split: if_splits option.splits dest!: exec_Inr)

lemma get_bucket_Inr:
  assumes "get_bucket n s = (Inr b, s')"
  shows "find_bucket n s = Some b \<and> tables s' = tables s"
  using assms
  by (auto simp: get_bucket_def Let_def ecatch_Inr ebind_exec_Inr ebind_Inr row_defs tables_def bucket_count_def
      split: if_splits option.splits dest!: exec_Inr)

lemma put_object_Inr:
  assumes "put_object now ob s = (Inr u, s')"
  shows "tables s' = tables (put_object_row
    (if o_created ob = zero_time then ob\<lparr>o_created := now\<rparr> else ob) s)"
  using assms
  by (auto simp: put_object_def Let_def ecatch_Inr ebind_exec_Inr ebind_Inr row_defs tables_def bucket_count_def
      split: if_splits option.splits dest!: exec_Inr)

lemma get_object_Inr:
  assumes "get_object b k s = (Inr ob, s')"
  shows "find_object (ObjId b k) s = Some ob \<and> tables s' = tables s"
  using assms
  by (auto simp: get_object_def Let_def ecatch_Inr ebind_exec_Inr ebind_Inr row_defs tables_def bucket_count_def
      split: if_splits option.splits dest!: exec_Inr)

lemma delete_object_Inr:
  assumes "delete_object b k s = (Inr ob, s')"
  shows "find_object (ObjId b k) s = Some ob \<and> tables s' = tables (del_object_row (ObjId b k) s)"
  using assms
  by (auto simp: delete_object_def Let_def ecatch_Inr ebind_exec_Inr ebind_Inr row_defs tables_def bucket_count_def
      split: if_splits option.splits dest!: exec_Inr)

lemma delete_bucket_Inr:
  assumes "delete_bucket n s = (Inr u, s')"
  shows "bucket_count n s = 0 \<and> find_bucket n s \<noteq> None \<and> tables s' = tables (del_bucket_row n s)"
  using assms
  by (auto simp: delete_bucket_def Let_def ecatch_Inr ebind_exec_Inr ebind_Inr row_defs tables_def bucket_count_def
      split: if_splits option.splits dest!: exec_Inr)

lemma create_multipart_Inr:
  assumes "create_multipart now m s = (Inr u, s')"
  shows "find_upload (u_id m) s = None \<and> tables s' = tables (put_upload_row
    (if u_created m = zero_time then m\<lparr>u_created := now\<rparr> else m) s)"
  using assms
  by (auto simp: create_multipart_def Let_def ecatch_Inr ebind_exec_Inr ebind_Inr row_defs tables_def bucket_count_def
      split: if_splits option.splits dest!: exec_Inr)

lemma get_multipart_Inr:
  assumes "get_multipart i s = (Inr m, s')"
  shows "find_upload i s = Some m \<and> tables s' = tables s"
  using assms
  by (auto simp: get_multipart_def Let_def ecatch_Inr ebind_exec_Inr ebind_Inr row_defs tables_def bucket_count_def
      split: if_splits option.splits dest!: exec_Inr)

lemma upsert_part_Inr:
  assumes "upsert_part p s = (Inr u, s')"
  shows "tables s' = tables (put_part_row p s)"
  using assms
  by (auto simp: upsert_part_def Let_def ecatch_Inr ebind_exec_Inr ebind_Inr row_defs tables_def bucket_count_def
      split: if_splits option.splits dest!: exec_Inr)

lemma list_parts_Inr:
  assumes "list_parts i s = (Inr ps, s')"
  shows "ps = sort_key p_num (filter (\<lambda>p. p_upload p = i) (parts s)) \<and> tables s' = tables s"
  using assms
  by (auto simp: list_parts_def Let_def ecatch_Inr ebind_exec_Inr ebind_Inr row_defs tables_def bucket_count_def
      split: if_splits option.splits dest!: exec_Inr)

lemma delete_multipart_Inr:
  assumes "delete_multipart i s = (Inr u, s')"
  shows "find_upload i s \<noteq> None \<and> tables s' = tables (del_upload_row i
           (s\<lparr>parts := filter (\<lambda>p. p_upload p \<noteq> i) (parts s)\<rparr>))"
  using assms
  by (auto simp: delete_multipart_def Let_def ecatch_Inr ebind_exec_Inr ebind_Inr row_defs tables_def bucket_count_def
      split: if_splits option.splits dest!: exec_Inr)

text \<open>Failure: nothing has changed.\<close>

lemma exec_then_Inl:
  assumes "ebind exec f s = (Inl e, s')"
    and "\<And>s1 s2. f () s1 = (Inl e, s2) \<Longrightarrow> tables s2 = tables s1"
  shows "tables s' = tables s"
  using assms(1) assms(2) exec_Inr exec_Inl unfolding ebind_Inl by (metis (full_types) old.unit.exhaust)

lemma create_bucket_Inl: "create_bucket now n k s = (Inl e, s') \<Longrightarrow> tables s' = tables s"
  by (auto simp: create_bucket_def ecatch_Inl ebind_Inl split: if_splits dest!: exec_Inr exec_Inl)

lemma put_object_Inl: "put_object now ob s = (Inl e, s') \<Longrightarrow> tables s' = tables s"
  by (auto simp: put_object_def Let_def ecatch_Inl dest!: exec_Inr exec_Inl)

lemma delete_object_Inl: "delete_object b k s = (Inl e, s') \<Longrightarrow> tables s' = tables s"
  unfolding delete_object_def
  by (elim exec_then_Inl) (auto split: option.splits elim!: exec_then_Inl simp: ebind_Inl [of "modify f" for f])

lemma delete_bucket_Inl: "delete_bucket n s = (Inl e, s') \<Longrightarrow> tables s' = tables s"
  unfolding delete_bucket_def
  by (elim exec_then_Inl) (auto split: if_splits elim!: exec_then_Inl)

lemma create_multipart_Inl: "create_multipart now m s = (Inl e, s') \<Longrightarrow> tables s' = tables s"
  unfolding create_multipart_def Let_def
  by (elim exec_then_Inl) (auto split: if_splits)

lemma delete_multipart_Inl: "delete_multipart i s = (Inl e, s') \<Longrightarrow> tables s' = tables s"
  unfolding delete_multipart_def
  by (elim exec_then_Inl) (auto split: if_splits elim!: exec_then_Inl)

lemma upsert_part_Inl: "upsert_part p s = (Inl e, s') \<Longrightarrow> tables s' = tables s"
  unfolding upsert_part_def by (elim exec_then_Inl) auto

lemma get_Inl:
  "get_bucket n s = (Inl e, s') \<Longrightarrow> tables s' = tables s"
  "get_object b k s = (Inl e, s') \<Longrightarrow> tables s' = tables s"
  "get_multipart i s = (Inl e, s') \<Longrightarrow> tables s' = tables s"
  "list_parts i s = (Inl e, s') \<Longrightarrow> tables s' = tables s"
  unfolding get_bucket_def get_object_def get_multipart_def list_parts_def
  by (elim exec_then_Inl; auto split: option.splits)+

end
