(* ===== verification/MetadataProperties.thy ===== *)
theory MetadataProperties
  imports Metadata
begin

text \<open>
  Properties of the metadata store: atomicity of every write under every failure schedule,
  the primary keys, bucket deletion, and the pages of \<^verbatim>\<open>ListObjects\<close>.
\<close>

section \<open>Writes\<close>

text \<open>The operations of \<^verbatim>\<open>*Store\<close> that write.\<close>

datatype store_write =
    CreateBucket string string
  | DeleteBucket string
  | PutObject object
  | DeleteObject string string
  | CreateMultipart upload
  | DeleteMultipart string
  | UpsertPart part

definition ignore :: "('s, 'a) step \<Rightarrow> ('s, unit) step" where
  "ignore m = ebind m (\<lambda>_. eret ())"

fun run_write :: "int \<Rightarrow> store_write \<Rightarrow> (store, unit) step" where
  "run_write now (CreateBucket n k) = create_bucket now n k"
| "run_write now (DeleteBucket n) = delete_bucket n"
| "run_write now (PutObject ob) = put_object now ob"
| "run_write now (DeleteObject b k) = ignore (delete_object b k)"
| "run_write now (CreateMultipart m) = create_multipart now m"
| "run_write now (DeleteMultipart i) = delete_multipart i"
| "run_write now (UpsertPart p) = upsert_part p"

text \<open>A client: a sequence of writes at given times, whose errors it ignores.\<close>

definition run_writes :: "(int \<times> store_write) list \<Rightarrow> store \<Rightarrow> store" where
  "run_writes ws s = fold (\<lambda>(now, w) s. snd (run_write now w s)) ws s"

lemma ignore_Inl: "ignore m s = (Inl e, s') \<longleftrightarrow> m s = (Inl e, s')"
  by (auto simp: ignore_def ebind_Inl)

lemma ignore_Inr: "ignore m s = (Inr u, s') \<longleftrightarrow> (\<exists>x. m s = (Inr x, s'))"
  by (auto simp: ignore_def ebind_Inr)

lemma run_write_Inl: "run_write now w s = (Inl e, s') \<Longrightarrow> tables s' = tables s"
  by (cases w) (auto simp: ignore_Inl dest: create_bucket_Inl delete_bucket_Inl put_object_Inl
      delete_object_Inl create_multipart_Inl delete_multipart_Inl upsert_part_Inl)

lemma t_inv_filter: "t_inv key rows \<Longrightarrow> t_inv key (filter P rows)"
  by (simp add: t_inv_def distinct_map_filter)

lemma run_write_Inr:
  assumes "run_write now w s = (Inr u, s')" "store_inv s"
  shows "store_inv s'"
proof -
  have eq: "tables s' = tables t \<Longrightarrow> store_inv s' = store_inv t" for t by (rule tables_find(5))
  show ?thesis
  proof (cases w)
    case (CreateBucket n k)
    with assms show ?thesis by (auto dest!: create_bucket_Inr eq intro: bkt.inv_put)
  next
    case (DeleteBucket n)
    with assms show ?thesis by (auto dest!: delete_bucket_Inr eq intro: bkt.inv_del)
  next
    case (PutObject ob)
    with assms show ?thesis by (auto dest!: put_object_Inr eq intro: obj.inv_put)
  next
    case (DeleteObject b k)
    with assms show ?thesis by (auto simp: ignore_Inr dest!: delete_object_Inr eq intro: obj.inv_del)
  next
    case (CreateMultipart m)
    with assms show ?thesis by (auto dest!: create_multipart_Inr eq intro: upl.inv_put)
  next
    case (DeleteMultipart i)
    have "store_inv (s\<lparr>parts := filter (\<lambda>p. p_upload p \<noteq> i) (parts s)\<rparr>)"
      using assms(2) by (simp add: store_inv_def t_inv_filter)
    with DeleteMultipart assms show ?thesis by (auto dest!: delete_multipart_Inr eq intro: upl.inv_del)
  next
    case (UpsertPart p)
    with assms show ?thesis by (auto dest!: upsert_part_Inr eq intro: prt.inv_put)
  qed
qed

lemma run_write_inv: "store_inv s \<Longrightarrow> store_inv (snd (run_write now w s))"
proof -
  assume inv: "store_inv s"
  obtain r s' where r: "run_write now w s = (r, s')" by (cases "run_write now w s")
  have "store_inv s'"
  proof (cases r)
    case (Inl e)
    then show ?thesis using run_write_Inl r tables_find(5) inv by metis
  next
    case (Inr u)
    then show ?thesis using run_write_Inr r inv by metis
  qed
  then show ?thesis by (simp add: r)
qed

section \<open>Pages\<close>

definition ascii :: "string \<Rightarrow> bool" where
  "ascii p \<longleftrightarrow> (\<forall>c\<in>set p. (of_char c :: nat) < 128)"

lemma sql_substr_ascii:
  "ascii p \<Longrightarrow> sql_substr s (length p) = p \<longleftrightarrow> has_prefix s p"
proof (induction p arbitrary: s)
  case (Cons c p)
  then have p: "ascii p" and c: "(of_char c :: nat) < 128" by (auto simp: ascii_def)
  show ?case
  proof (cases s)
    case s: (Cons d t)
    have "has_prefix (d # t) (c # p) \<longleftrightarrow> c = d \<and> has_prefix t p"
      by (auto simp: has_prefix_def)
    moreover have "sql_substr (d # t) (length (c # p)) = c # p \<longleftrightarrow>
        c = d \<and> sql_substr t (length p) = p"
      using c by auto
    ultimately show ?thesis using Cons.IH [OF p, of t] s by blast
  qed (simp add: has_prefix_def)
qed (cases s; simp add: has_prefix_def)

text \<open>All objects a listing of \<open>b\<close> with \<open>prefix\<close> after the key \<open>a\<close> has to return.\<close>

definition matches :: "string \<Rightarrow> string \<Rightarrow> string \<Rightarrow> object \<Rightarrow> bool" where
  "matches b prefix a ob \<longleftrightarrow> o_bucket ob = b \<and> a < o_key ob \<and> has_prefix (o_key ob) prefix"

definition all_after :: "string \<Rightarrow> string \<Rightarrow> string \<Rightarrow> object list \<Rightarrow> object list" where
  "all_after b prefix a obs = sort_key o_key (filter (matches b prefix a) obs)"

lemma set_all_after [simp]: "set (all_after b p a obs) = {ob \<in> set obs. matches b p a ob}"
  by (auto simp: all_after_def)

lemma all_after_sorted:
  assumes "t_inv obj_id obs"
  shows "sorted_wrt (<) (map o_key (all_after b p a obs))"
proof -
  have "inj_on o_key (set (filter (matches b p a) obs))"
    using assms by (auto simp: t_inv_def distinct_map inj_on_def obj_id_def matches_def)
  then have "distinct (map o_key (filter (matches b p a) obs))"
    using assms by (auto simp: t_inv_def distinct_map)
  then have "distinct (map o_key (all_after b p a obs))"
    by (simp add: all_after_def distinct_map)
  then show ?thesis by (simp add: strict_sorted_iff all_after_def)
qed

lemma list_objects_Inr:
  assumes "list_objects b p a n s = (Inr (page, trunc), s')" "ascii p" "0 < n" "n < 2 ^ 63 - 1"
  shows "page = take (nat n) (all_after b p a (objects s)) \<and>
    (trunc \<longleftrightarrow> n < int (length (all_after b p a (objects s)))) \<and> tables s' = tables s"
proof -
  have n: "i64 (n + 1) = n + 1" using assms(3,4) by (intro i64_id) auto
  obtain s1 where s1: "exec s = (Inr (), s1)"
    and eq: "(let objs = select_objects b p a (n + 1) s1 in
      if int (length objs) > n then (Inr (take (nat n) objs, True), s1)
      else (Inr (objs, False), s1)) = (Inr (page, trunc), s')"
    using assms(1,3) by (auto simp: list_objects_def Let_def ebind_exec_Inr n split: if_splits)
  have t: "tables s1 = tables s" using exec_Inr [OF s1] .
  then have "objects s1 = objects s" by (simp add: tables_def)
  moreover have "(\<lambda>ob. o_bucket ob = b \<and> a < o_key ob \<and> sql_substr (o_key ob) (length p) = p)
      = matches b p a"
    using assms(2) by (simp add: sql_substr_ascii matches_def fun_eq_iff)
  ultimately have sel: "select_objects b p a (n + 1) s1 = take (nat (n + 1)) (all_after b p a (objects s))"
    using assms(3) by (simp add: select_objects_def sql_limit_def all_after_def)
  have k: "nat n < nat (n + 1)" using assms(3) by simp
  show ?thesis
    using eq assms(3) t unfolding sel Let_def
    by (auto simp: min_def split: if_splits)
qed

lemma list_objects_Inl: "list_objects b p a n s = (Inl e, s') \<Longrightarrow> tables s' = tables s"
  unfolding list_objects_def Let_def by (elim exec_then_Inl) (auto split: if_splits)

end
