(* ===== verification/Codecs.thy ===== *)
theory Codecs
  imports GoText
begin

text \<open>
  Text encodings: base64 (\<^verbatim>\<open>StdEncoding\<close>, \<^verbatim>\<open>RawURLEncoding\<close>) as \<^verbatim>\<open>encoding/base64\<close>
  documents them, and the locale \<open>codec\<close> of an encoding that decodes to what was encoded.
  It is interpreted on hexadecimal and both base64 variants here, and on the percent-encoding
  of \<^verbatim>\<open>sigv4.go\<close> in the theory SigCanonical.
\<close>

section \<open>The contract of an encoding\<close>

locale codec =
  fixes enc :: "'a \<Rightarrow> string" and dec :: "string \<Rightarrow> 'a option"
  assumes dec_enc: "dec (enc x) = Some x"
begin

lemma enc_inject: "enc x = enc y \<longleftrightarrow> x = y"
  by (metis dec_enc option.inject)

lemma dec_all: "map dec (map enc xs) = map Some xs"
  by (simp add: dec_enc comp_def)

lemma dec_Some_enc: "dec s = Some x \<Longrightarrow> dec (enc x) = dec s"
  by (simp add: dec_enc)

lemma enc_distinct: "distinct (map enc xs) \<longleftrightarrow> distinct xs"
  by (simp add: distinct_map inj_on_def enc_inject)

end

interpretation hex: codec hex_encode hex_decode
  by unfold_locales simp

section \<open>Base64\<close>

definition b64_char :: "bool \<Rightarrow> nat \<Rightarrow> char" where
  "b64_char url n =
     (if n < 26 then char_of (65 + n) else if n < 52 then char_of (71 + n)
      else if n < 62 then char_of (n - 4)
      else if n = 62 then (if url then CHR ''-'' else CHR ''+'')
      else (if url then CHR ''_'' else CHR ''/''))"

definition b64_val :: "bool \<Rightarrow> char \<Rightarrow> nat option" where
  "b64_val url c = (let n = of_char c :: nat in
     if 65 \<le> n \<and> n \<le> 90 then Some (n - 65)
     else if 97 \<le> n \<and> n \<le> 122 then Some (n - 71)
     else if 48 \<le> n \<and> n \<le> 57 then Some (n + 4)
     else if c = (if url then CHR ''-'' else CHR ''+'') then Some 62
     else if c = (if url then CHR ''_'' else CHR ''/'') then Some 63 else None)"

text \<open>Groups of three bytes as four digits, and the short groups at the end.\<close>

fun b64_digits :: "nat list \<Rightarrow> nat list" where
  "b64_digits [] = []"
| "b64_digits [a] = [a div 4, a mod 4 * 16]"
| "b64_digits [a, b] = [a div 4, a mod 4 * 16 + b div 16, b mod 16 * 4]"
| "b64_digits (a # b # c # r) =
     a div 4 # (a mod 4 * 16 + b div 16) # (b mod 16 * 4 + c div 64) # (c mod 64) # b64_digits r"

text \<open>Go does not check the unused bits of the last digit.\<close>

fun b64_undigits :: "nat list \<Rightarrow> nat list option" where
  "b64_undigits [] = Some []"
| "b64_undigits [p] = None"
| "b64_undigits [p, q] = Some [p * 4 + q div 16]"
| "b64_undigits [p, q, r] = Some [p * 4 + q div 16, q mod 16 * 16 + r div 4]"
| "b64_undigits (p # q # r # t # rest) =
     map_option (\<lambda>bs. (p * 4 + q div 16) # (q mod 16 * 16 + r div 4) # (r mod 4 * 64 + t) # bs)
       (b64_undigits rest)"

fun all_some :: "'a option list \<Rightarrow> 'a list option" where
  "all_some [] = Some []"
| "all_some (None # xs) = None"
| "all_some (Some x # xs) = map_option (Cons x) (all_some xs)"

definition not_newline :: "char \<Rightarrow> bool" where
  "not_newline c \<longleftrightarrow> c \<noteq> CHR 0x0A \<and> c \<noteq> CHR 0x0D"

definition b64_body :: "bool \<Rightarrow> bytes \<Rightarrow> string" where
  "b64_body url bs = map (b64_char url) (b64_digits (map unat bs))"

definition b64_unbody :: "bool \<Rightarrow> string \<Rightarrow> bytes option" where
  "b64_unbody url s = (case all_some (map (b64_val url) s) of
       None \<Rightarrow> None | Some ds \<Rightarrow> map_option (map of_nat) (b64_undigits ds))"

definition raw_url_encode :: "bytes \<Rightarrow> string" where
  "raw_url_encode = b64_body True"

definition raw_url_decode :: "string \<Rightarrow> bytes option" where
  "raw_url_decode s = b64_unbody True (filter not_newline s)"

definition b64_pad :: "nat \<Rightarrow> string" where
  "b64_pad n = (if n mod 4 = 2 then ''=='' else if n mod 4 = 3 then ''='' else [])"

definition std_encode :: "bytes \<Rightarrow> string" where
  "std_encode bs = (let s = b64_body False bs in s @ b64_pad (length s))"

definition std_decode :: "string \<Rightarrow> bytes option" where
  "std_decode s =
     (let t = filter not_newline s;
          body = takeWhile (\<lambda>c. c \<noteq> CHR ''='') t
      in if length body mod 4 \<noteq> 1 \<and> drop (length body) t = b64_pad (length body)
         then b64_unbody False body else None)"

lemma b64_digits_less: "\<forall>a\<in>set as. a < 256 \<Longrightarrow> d \<in> set (b64_digits as) \<Longrightarrow> d < 64"
  by (induction as rule: b64_digits.induct) auto

lemma b64_undigits_digits: "\<forall>a\<in>set as. a < 256 \<Longrightarrow> b64_undigits (b64_digits as) = Some as"
  by (induction as rule: b64_digits.induct) auto

lemma b64_digits_mod: "length (b64_digits as) mod 4 \<noteq> 1"
  by (induction as rule: b64_digits.induct) auto

lemma b64_val_char: "n < 64 \<Longrightarrow> b64_val url (b64_char url n) = Some n"
proof -
  assume n: "n < 64"
  consider "n < 26" | "26 \<le> n" "n < 52" | "52 \<le> n" "n < 62" | "n = 62" | "n = 63" using n by linarith
  then show ?thesis by cases (auto simp: b64_val_def b64_char_def Let_def)
qed

lemma b64_char_plain: "n < 64 \<Longrightarrow> not_newline (b64_char url n) \<and> b64_char url n \<noteq> CHR ''=''"
proof -
  assume "n < 64"
  then have "b64_val url (b64_char url n) = Some n" by (rule b64_val_char)
  moreover have "b64_val url CHR 0x0A = None" "b64_val url CHR 0x0D = None" "b64_val url CHR ''='' = None"
    by (auto simp: b64_val_def Let_def)
  ultimately show ?thesis unfolding not_newline_def by (metis option.distinct(1))
qed

lemma all_some_map_Some: "all_some (map Some xs) = Some xs"
  by (induction xs) auto

lemma b64_body_chars: "c \<in> set (b64_body url bs) \<Longrightarrow> not_newline c \<and> c \<noteq> CHR ''=''"
  using b64_digits_less [of "map unat bs"] unat_byte_less b64_char_plain
  by (auto simp: b64_body_def)

lemma b64_unbody_body: "b64_unbody url (b64_body url bs) = Some bs"
proof -
  have "map (b64_val url) (b64_body url bs) = map Some (b64_digits (map unat bs))"
    using b64_digits_less [of "map unat bs"] unat_byte_less
    by (auto simp: b64_body_def b64_val_char)
  then show ?thesis
    using b64_undigits_digits [of "map unat bs"] unat_byte_less
    by (simp add: b64_unbody_def all_some_map_Some comp_def)
qed

lemma filter_b64_body [simp]: "filter not_newline (b64_body url bs) = b64_body url bs"
  using b64_body_chars by (simp add: filter_id_conv)

lemma filter_b64_pad [simp]: "filter not_newline (b64_pad n) = b64_pad n"
  by (simp add: b64_pad_def not_newline_def)

lemma std_decode_encode: "std_decode (std_encode bs) = Some bs"
proof -
  let ?s = "b64_body False bs"
  have "takeWhile (\<lambda>c. c \<noteq> CHR ''='') (?s @ b64_pad (length ?s)) = ?s"
    using b64_body_chars [of _ False bs] by (subst takeWhile_append2) (auto simp: b64_pad_def)
  moreover have "length ?s mod 4 \<noteq> 1"
    using b64_digits_mod by (simp add: b64_body_def)
  ultimately show ?thesis
    by (simp add: std_decode_def std_encode_def Let_def b64_unbody_body)
qed

interpretation b64url: codec raw_url_encode raw_url_decode
  by unfold_locales (simp add: raw_url_encode_def raw_url_decode_def b64_unbody_body)

interpretation b64std: codec std_encode std_decode
  by unfold_locales (rule std_decode_encode)

end
