(* ===== verification/GoTime.thy ===== *)
theory GoTime
  imports GoText
begin

text \<open>
  \<^verbatim>\<open>time.Parse\<close> for the two layouts of \<^verbatim>\<open>sigv4.go\<close>, \<^verbatim>\<open>20060102\<close> and
  \<^verbatim>\<open>20060102T150405Z\<close>.  An instant is a number of nanoseconds since the Unix epoch (UTC);
  \<^verbatim>\<open>time.Duration\<close> is a 64-bit number of nanoseconds.
\<close>

definition second :: int where "second = 1000000000"
definition minute :: int where "minute = 60 * second"
definition hour :: int where "hour = 60 * minute"
definition day :: int where "day = 24 * hour"

section \<open>The calendar\<close>

definition is_leap :: "int \<Rightarrow> bool" where
  "is_leap y \<longleftrightarrow> y mod 4 = 0 \<and> (y mod 100 \<noteq> 0 \<or> y mod 400 = 0)"

definition month_days :: "int \<Rightarrow> int \<Rightarrow> int" where
  "month_days y m = (if m = 2 then (if is_leap y then 29 else 28)
     else if m \<in> {4, 6, 9, 11} then 30 else 31)"

definition days_before_year :: "int \<Rightarrow> int" where
  "days_before_year y = (let n = y - 1 in 365 * n + n div 4 - n div 100 + n div 400)"

fun days_before_month :: "int \<Rightarrow> nat \<Rightarrow> int" where
  "days_before_month y 0 = 0"
| "days_before_month y (Suc m) = (if m = 0 then 0 else days_before_month y m + month_days y (int m))"

text \<open>Days since 1 January 1970, day 719162 of the proleptic calendar.\<close>

definition days_since_epoch :: "int \<Rightarrow> int \<Rightarrow> int \<Rightarrow> int" where
  "days_since_epoch y m d = days_before_year y + days_before_month y (nat m) + (d - 1) - 719162"

section \<open>Parsing\<close>

text \<open>\<open>n\<close> decimal digits and the rest.\<close>

definition take_digits :: "nat \<Rightarrow> string \<Rightarrow> (int \<times> string) option" where
  "take_digits n s =
     (if length s < n \<or> \<not> list_all is_digit (take n s) then None
      else Some (digits_val (take n s), drop n s))"

text \<open>Year, month and day with the range checks of \<^verbatim>\<open>time.Parse\<close>.\<close>

definition parse_ymd :: "string \<Rightarrow> (int \<times> string) option" where
  "parse_ymd s = (case take_digits 4 s of
       None \<Rightarrow> None
     | Some (y, s1) \<Rightarrow> (case take_digits 2 s1 of
           None \<Rightarrow> None
         | Some (m, s2) \<Rightarrow> (case take_digits 2 s2 of
               None \<Rightarrow> None
             | Some (d, s3) \<Rightarrow>
                 if 1 \<le> m \<and> m \<le> 12 \<and> 1 \<le> d \<and> d \<le> month_days y m
                 then Some (days_since_epoch y m d, s3) else None)))"

definition parse_date :: "string \<Rightarrow> int option" where
  "parse_date s = (case parse_ymd s of Some (n, []) \<Rightarrow> Some (n * day) | _ \<Rightarrow> None)"

text \<open>A fraction of a second may follow the seconds although the layout has none: the
  first nine digits count.\<close>

definition parse_fraction :: "string \<Rightarrow> int \<times> string" where
  "parse_fraction s = (case s of
       c # d # r \<Rightarrow>
         if (c = CHR ''.'' \<or> c = CHR '','') \<and> is_digit d
         then let ds = takeWhile is_digit (d # r); k = take 9 ds in
              (digits_val k * 10 ^ (9 - length k), drop (length ds) (d # r))
         else (0, s)
     | _ \<Rightarrow> (0, s))"

definition parse_amz_date :: "string \<Rightarrow> int option" where
  "parse_amz_date s = (case parse_ymd s of
       Some (n, CHR ''T'' # s1) \<Rightarrow> (case take_digits 2 s1 of
           None \<Rightarrow> None
         | Some (h, s2) \<Rightarrow> (case take_digits 2 s2 of
               None \<Rightarrow> None
             | Some (mi, s3) \<Rightarrow> (case take_digits 2 s3 of
                   None \<Rightarrow> None
                 | Some (sec, s4) \<Rightarrow> (case parse_fraction s4 of (ns, s5) \<Rightarrow>
                     if h < 24 \<and> mi < 60 \<and> sec < 60 \<and> s5 = ''Z''
                     then Some (n * day + h * hour + mi * minute + sec * second + ns) else None))))
     | _ \<Rightarrow> None)"

text \<open>Three instants of the calendar.\<close>

lemma parse_amz_date_examples:
  "parse_amz_date ''19700101T000000Z'' = Some 0"
  "parse_amz_date ''20130524T000000Z'' = Some (1369353600 * second)"
  "parse_amz_date ''20240229T120000.5Z'' = Some (1709208000 * second + 500000000)"
  "parse_amz_date ''20230229T120000Z'' = None"
  by code_simp+

end
