(* ===== verification/SigCanonical.thy ===== *)
theory SigCanonical
  imports Codecs GoTime "HOL-Library.Product_Lexorder" "HOL-Library.Multiset"
begin

text \<open>
  The canonical request of \<^verbatim>\<open>internal/sigv4/sigv4.go\<close>: escaping, the canonical URI, query
  string and headers, and the parsing of the Authorization header.
\<close>

section \<open>Requests\<close>

text \<open>The parts of an \<^verbatim>\<open>*http.Request\<close> the verifier reads.  Header names compare without
  regard to case, as canonical header keys do.\<close>

record request =
  rq_method :: string
  rq_path :: string
  rq_raw_query :: string
  rq_host :: string
  rq_content_length :: int
  rq_headers :: "(string \<times> string) list"

definition header_values :: "string \<Rightarrow> request \<Rightarrow> string list" where
  "header_values n r = map snd (filter (\<lambda>(k, v). to_lower k = to_lower n) (rq_headers r))"

definition header_get :: "string \<Rightarrow> request \<Rightarrow> string" where
  "header_get n r = (case header_values n r of [] \<Rightarrow> [] | v # _ \<Rightarrow> v)"

section \<open>Escaping\<close>

definition ErrMalformedAuth :: goerr where
  "ErrMalformedAuth = New ''sigv4: malformed Authorization header''"
definition ErrUnsupportedAlgo :: goerr where
  "ErrUnsupportedAlgo = New ''sigv4: unsupported algorithm''"

definition unreserved :: "char \<Rightarrow> bool" where
  "unreserved c = (let n = of_char c :: nat in
     65 \<le> n \<and> n \<le> 90 \<or> 97 \<le> n \<and> n \<le> 122 \<or> 48 \<le> n \<and> n \<le> 57 \<or>
     c = CHR ''-'' \<or> c = CHR ''_'' \<or> c = CHR ''.'' \<or> c = CHR ''~'')"

definition aws_escape_char :: "bool \<Rightarrow> char \<Rightarrow> string" where
  "aws_escape_char encode_slash c =
     (if unreserved c \<or> \<not> encode_slash \<and> c = CHR ''/'' then [c]
      else [CHR 0x25, hex_digit_upper (of_char c div 16), hex_digit_upper (of_char c mod 16)])"

definition aws_escape :: "bool \<Rightarrow> string \<Rightarrow> string" where
  "aws_escape encode_slash s = concat (map (aws_escape_char encode_slash) s)"

text \<open>\<^verbatim>\<open>url.QueryUnescape\<close>.\<close>

fun query_unescape :: "string \<Rightarrow> string option" where
  "query_unescape [] = Some []"
| "query_unescape (c # cs) =
     (if c = CHR 0x25 then
        (case cs of
           h # l # r \<Rightarrow> (case (hex_val h, hex_val l) of
               (Some a, Some b) \<Rightarrow> map_option (Cons (char_of (16 * a + b))) (query_unescape r)
             | _ \<Rightarrow> None)
         | _ \<Rightarrow> None)
      else map_option (Cons (if c = CHR ''+'' then CHR '' '' else c)) (query_unescape cs))"

text \<open>\<^verbatim>\<open>url.ParseQuery\<close>, dropping the malformed settings, and \<^verbatim>\<open>url.Values.Get\<close>.\<close>

definition split_setting :: "string \<Rightarrow> string \<times> string" where
  "split_setting part = (case cut_at CHR ''='' part of None \<Rightarrow> (part, []) | Some kv \<Rightarrow> kv)"

definition parse_setting :: "string \<Rightarrow> (string \<times> string) option" where
  "parse_setting part =
     (if part = [] \<or> CHR '';'' \<in> set part then None
      else case split_setting part of (k, v) \<Rightarrow>
        (case (query_unescape k, query_unescape v) of
           (Some k', Some v') \<Rightarrow> Some (k', v') | _ \<Rightarrow> None))"

definition parse_query :: "string \<Rightarrow> (string \<times> string) list" where
  "parse_query raw = List.map_filter parse_setting (split_on CHR ''&'' raw)"

definition query_get :: "string \<Rightarrow> string \<Rightarrow> string" where
  "query_get raw n = (case map_of (parse_query raw) n of None \<Rightarrow> [] | Some v \<Rightarrow> v)"

section \<open>The canonical request\<close>

definition canonical_uri :: "string \<Rightarrow> string" where
  "canonical_uri p =
     (if p = [] then ''/''
      else let out = join_with ''/'' (map (aws_escape False) (split_on CHR ''/'' p)) in
        if has_prefix out ''/'' then out else CHR ''/'' # out)"

definition unescape_or_keep :: "string \<Rightarrow> string" where
  "unescape_or_keep s = (case query_unescape s of Some t \<Rightarrow> t | None \<Rightarrow> s)"

definition canonical_pair :: "string \<Rightarrow> string \<times> string" where
  "canonical_pair part = (case split_setting part of (k, v) \<Rightarrow>
     (aws_escape True (unescape_or_keep k), aws_escape True (unescape_or_keep v)))"

definition pair_text :: "string \<times> string \<Rightarrow> string" where
  "pair_text kv = fst kv @ CHR ''='' # snd kv"

definition canonical_query_raw :: "string \<Rightarrow> string" where
  "canonical_query_raw raw =
     (if raw = [] then []
      else join_with ''&'' (map pair_text (sort (map canonical_pair
             (filter (\<lambda>part. part \<noteq> []) (split_on CHR ''&'' raw))))))"

text \<open>\<^verbatim>\<open>strings.EqualFold\<close> with an ASCII name: besides the case of ASCII letters, the Unicode
  folding identifies the long s (0xC5 0xBF) with s and the Kelvin sign with k.\<close>

fun fold_text :: "string \<Rightarrow> string" where
  "fold_text [] = []"
| "fold_text [c] = [char_lower c]"
| "fold_text [c, d] = (if c = CHR 0xC5 \<and> d = CHR 0xBF then ''s'' else [char_lower c, char_lower d])"
| "fold_text (c # d # e # r) =
     (if c = CHR 0xC5 \<and> d = CHR 0xBF then CHR ''s'' # fold_text (e # r)
      else if c = CHR 0xE2 \<and> d = CHR 0x84 \<and> e = CHR 0xAA then CHR ''k'' # fold_text r
      else char_lower c # fold_text (d # e # r))"

definition is_param :: "string \<Rightarrow> string \<Rightarrow> bool" where
  "is_param name part \<longleftrightarrow> fold_text (unescape_or_keep (fst (split_setting part))) = to_lower name"

definition strip_query_param :: "string \<Rightarrow> string \<Rightarrow> string" where
  "strip_query_param raw name =
     (if raw = [] then []
      else join_with ''&'' (filter (\<lambda>part. part \<noteq> [] \<and> \<not> is_param name part) (split_on CHR ''&'' raw)))"

text \<open>Ranging over a string: the length of the UTF-8 sequence at its start, 0 when it is
  malformed.\<close>

definition in_range :: "nat \<Rightarrow> nat \<Rightarrow> char \<Rightarrow> bool" where
  "in_range lo hi c \<longleftrightarrow> lo \<le> of_char c \<and> of_char c \<le> hi"

definition rune_len :: "string \<Rightarrow> nat" where
  "rune_len s = (case s of [] \<Rightarrow> 0
     | c # r \<Rightarrow> let n = of_char c :: nat;
          tail = (\<lambda>lo hi k. case r of [] \<Rightarrow> False
                    | d # r' \<Rightarrow> in_range lo hi d \<and> k \<le> length r' \<and> list_all (in_range 128 191) (take k r')) in
       if n < 128 then 1
       else if 194 \<le> n \<and> n \<le> 223 then (if tail 128 191 0 then 2 else 0)
       else if n = 224 then (if tail 160 191 1 then 3 else 0)
       else if n = 237 then (if tail 128 159 1 then 3 else 0)
       else if 225 \<le> n \<and> n \<le> 239 then (if tail 128 191 1 then 3 else 0)
       else if n = 240 then (if tail 144 191 2 then 4 else 0)
       else if 241 \<le> n \<and> n \<le> 243 then (if tail 128 191 2 then 4 else 0)
       else if n = 244 then (if tail 128 143 2 then 4 else 0)
       else 0)"

text \<open>The loop of \<^verbatim>\<open>trimAll\<close>; a malformed byte is written as the replacement character.\<close>

function trim_loop :: "bool \<Rightarrow> string \<Rightarrow> string" where
  "trim_loop prev [] = []"
| "trim_loop prev (c # cs) =
     (if c = CHR '' '' \<or> c = CHR 0x09 then
        (if prev then trim_loop True cs else CHR '' '' # trim_loop True cs)
      else let n = rune_len (c # cs) in
        if n = 0 then [CHR 0xEF, CHR 0xBF, CHR 0xBD] @ trim_loop False cs
        else take n (c # cs) @ trim_loop False (drop n (c # cs)))"
  by pat_completeness auto
termination
  by (relation "measure (\<lambda>(p, s). length s)") auto

definition trim_all :: "string \<Rightarrow> string" where
  "trim_all s = trim_loop False (trim_space s)"

text \<open>\<^verbatim>\<open>strconv.FormatInt(n, 10)\<close>.\<close>

fun nat_digits :: "nat \<Rightarrow> string" where
  "nat_digits n = (if n < 10 then [char_of (48 + n)]
                   else nat_digits (n div 10) @ [char_of (48 + n mod 10)])"

declare nat_digits.simps [simp del]

definition format_int :: "int \<Rightarrow> string" where
  "format_int n = (if n < 0 then CHR ''-'' # nat_digits (nat (- n)) else nat_digits (nat n))"

definition signed_header_value :: "request \<Rightarrow> string \<Rightarrow> string option" where
  "signed_header_value r name =
     (if name = ''host'' then Some (rq_host r)
      else if name = ''content-length'' then
        Some (if rq_content_length r \<ge> 0 then format_int (rq_content_length r)
              else header_get ''Content-Length'' r)
      else let vals = header_values name r in
        if vals = [] then None else Some (join_with '','' vals))"

fun header_lines :: "request \<Rightarrow> string list \<Rightarrow> goerr + string" where
  "header_lines r [] = Inr []"
| "header_lines r (name # ns) = (case signed_header_value r name of
       None \<Rightarrow> Inl (Wrap ''sigv4: missing signed header'' [])
     | Some v \<Rightarrow> (case header_lines r ns of
           Inl e \<Rightarrow> Inl e
         | Inr rest \<Rightarrow> Inr (name @ '':'' @ trim_all v @ [CHR 0x0A] @ rest)))"

definition canonical_headers :: "request \<Rightarrow> string list \<Rightarrow> goerr + (string \<times> string)" where
  "canonical_headers r shs =
     (let low = sort (map (\<lambda>h. to_lower (trim_space h)) shs) in
      case header_lines r low of
        Inl e \<Rightarrow> Inl e | Inr ls \<Rightarrow> Inr (ls, join_with '';'' low))"

definition nl :: string where "nl = [CHR 0x0A]"

definition canonical_request_with_query ::
    "request \<Rightarrow> string list \<Rightarrow> string \<Rightarrow> string \<Rightarrow> goerr + string" where
  "canonical_request_with_query r shs payload_hash raw_query =
     (case canonical_headers r shs of
        Inl e \<Rightarrow> Inl e
      | Inr (hdrs, names) \<Rightarrow>
          Inr (join_with nl [rq_method r, canonical_uri (rq_path r), canonical_query_raw raw_query,
                             hdrs, [], names, payload_hash]))"

definition canonical_request :: "request \<Rightarrow> string list \<Rightarrow> string \<Rightarrow> goerr + string" where
  "canonical_request r shs payload_hash =
     canonical_request_with_query r shs payload_hash (rq_raw_query r)"

section \<open>The Authorization header\<close>

record auth_header =
  a_key :: string
  a_date :: string
  a_region :: string
  a_service :: string
  a_signed :: "string list"
  a_sig :: string

definition empty_auth :: auth_header where
  "empty_auth = \<lparr>a_key = [], a_date = [], a_region = [], a_service = [], a_signed = [], a_sig = []\<rparr>"

definition algorithm :: string where "algorithm = ''AWS4-HMAC-SHA256''"
definition request_kind :: string where "request_kind = ''aws4_request''"

definition auth_field :: "string \<Rightarrow> auth_header \<Rightarrow> goerr + auth_header" where
  "auth_field part out =
     (let p = trim_space part in
      if has_prefix p ''Credential='' then
        (case split_on CHR ''/'' (trim_prefix p ''Credential='') of
           [k, d, rg, sv, kind] \<Rightarrow>
             if kind \<noteq> request_kind then Inl ErrMalformedAuth
             else Inr (out\<lparr>a_key := k, a_date := d, a_region := rg, a_service := sv\<rparr>)
         | _ \<Rightarrow> Inl ErrMalformedAuth)
      else if has_prefix p ''SignedHeaders='' then
        Inr (out\<lparr>a_signed := split_on CHR '';'' (trim_prefix p ''SignedHeaders='')\<rparr>)
      else if has_prefix p ''Signature='' then Inr (out\<lparr>a_sig := trim_prefix p ''Signature=''\<rparr>)
      else Inr out)"

fun auth_fields :: "string list \<Rightarrow> auth_header \<Rightarrow> goerr + auth_header" where
  "auth_fields [] out = Inr out"
| "auth_fields (p # ps) out = (case auth_field p out of Inl e \<Rightarrow> Inl e | Inr out' \<Rightarrow> auth_fields ps out')"

definition parse_auth_header :: "string \<Rightarrow> goerr + auth_header" where
  "parse_auth_header s =
     (if \<not> has_prefix s (algorithm @ '' '') then Inl ErrUnsupportedAlgo
      else case auth_fields (split_on CHR '','' (trim_prefix s (algorithm @ '' ''))) empty_auth of
        Inl e \<Rightarrow> Inl e
      | Inr out \<Rightarrow>
          if a_key out = [] \<or> a_date out = [] \<or> a_region out = [] \<or> a_service out = [] \<or>
             a_signed out = [] \<or> a_sig out = [] then Inl ErrMalformedAuth
          else if parse_date (a_date out) = None then Inl ErrMalformedAuth
          else Inr out)"

section \<open>Escaping is invertible\<close>

lemma char_nibbles: "(char_of (16 * (of_char c div 16) + of_char c mod 16 :: nat) :: char) = c"
  by (simp only: mult_div_mod_eq char_of_char)

lemma of_char_div_less: "(of_char (c :: char) :: nat) div 16 < 16"
proof -
  have "(of_char c :: nat) < 16 * 16" using nat_of_char_less_256 [of c] by simp
  then show ?thesis by (rule less_mult_imp_div_less)
qed

lemma unreserved_plain:
  "unreserved c \<Longrightarrow> c \<noteq> CHR 0x25 \<and> c \<noteq> CHR ''+'' \<and> c \<noteq> CHR ''&'' \<and> c \<noteq> CHR ''=''"
  by (auto simp: unreserved_def Let_def)

lemma hex_digit_upper_plain:
  "n < 16 \<Longrightarrow> hex_digit_upper n \<notin> {CHR ''&'', CHR ''=''}"
proof -
  assume "n < 16"
  then have "hex_val (hex_digit_upper n) = Some n" by (rule hex_val_digit_upper)
  moreover have "hex_val CHR ''&'' = None" "hex_val CHR ''='' = None" by (simp_all add: hex_val_def)
  ultimately show ?thesis by auto
qed

lemma query_unescape_escape_char:
  "query_unescape (aws_escape_char sl c @ r) = map_option (Cons c) (query_unescape r)"
proof (cases "unreserved c \<or> \<not> sl \<and> c = CHR ''/''")
  case True
  then have "c \<noteq> CHR 0x25" "c \<noteq> CHR ''+''" using unreserved_plain by auto
  with True show ?thesis by (simp add: aws_escape_char_def)
next
  case False
  then show ?thesis
    using of_char_div_less [of c] char_nibbles [of c] by (simp add: aws_escape_char_def hex_val_digit_upper)
qed

lemma query_unescape_escape: "query_unescape (aws_escape sl s) = Some s"
  by (induction s) (simp_all add: aws_escape_def query_unescape_escape_char)

interpretation pct: codec "aws_escape sl" query_unescape for sl
  by unfold_locales (rule query_unescape_escape)

lemma aws_escape_plain: "c \<in> set (aws_escape True s) \<Longrightarrow> c \<noteq> CHR ''&'' \<and> c \<noteq> CHR ''=''"
proof -
  assume "c \<in> set (aws_escape True s)"
  then obtain d where d: "c \<in> set (aws_escape_char True d)" by (auto simp: aws_escape_def)
  have "(of_char d :: nat) div 16 < 16" "(of_char d :: nat) mod 16 < 16"
    using of_char_div_less [of d] by simp_all
  with d hex_digit_upper_plain unreserved_plain [of d] show ?thesis
    by (auto simp: aws_escape_char_def split: if_splits)
qed

section \<open>The canonical query is a normal form\<close>

definition query_parts :: "string \<Rightarrow> string list" where
  "query_parts raw = filter (\<lambda>part. part \<noteq> []) (split_on CHR ''&'' raw)"

definition canonical_pairs :: "string \<Rightarrow> (string \<times> string) list" where
  "canonical_pairs raw = sort (map canonical_pair (query_parts raw))"

lemma query_parts_Nil [simp]: "query_parts [] = []"
  by (simp add: query_parts_def)

lemma canonical_query_pairs:
  "canonical_query_raw raw = join_with ''&'' (map pair_text (canonical_pairs raw))"
  by (simp add: canonical_query_raw_def canonical_pairs_def flip: query_parts_def)

definition escaped_pair :: "string \<times> string \<Rightarrow> bool" where
  "escaped_pair kv \<longleftrightarrow> (\<exists>k v. kv = (aws_escape True k, aws_escape True v))"

lemma canonical_pair_escaped: "escaped_pair (canonical_pair part)"
  by (auto simp: canonical_pair_def escaped_pair_def split: prod.split)

lemma canonical_pairs_escaped: "kv \<in> set (canonical_pairs raw) \<Longrightarrow> escaped_pair kv"
  by (auto simp: canonical_pairs_def canonical_pair_escaped)

lemma pair_text_plain:
  assumes "escaped_pair kv"
  shows "CHR ''&'' \<notin> set (pair_text kv)" "canonical_pair (pair_text kv) = kv" "pair_text kv \<noteq> []"
proof -
  obtain k v where kv: "kv = (aws_escape True k, aws_escape True v)"
    using assms by (auto simp: escaped_pair_def)
  show "CHR ''&'' \<notin> set (pair_text kv)" using aws_escape_plain by (auto simp: pair_text_def kv)
  show "pair_text kv \<noteq> []" by (simp add: pair_text_def)
  have "CHR ''='' \<notin> set (aws_escape True k)" using aws_escape_plain by blast
  then show "canonical_pair (pair_text kv) = kv"
    by (simp add: canonical_pair_def split_setting_def pair_text_def kv cut_at_append
        unescape_or_keep_def query_unescape_escape)
qed

lemma query_parts_join:
  assumes "\<forall>kv\<in>set ps. escaped_pair kv"
  shows "query_parts (join_with ''&'' (map pair_text ps)) = map pair_text ps"
proof (cases "ps = []")
  case False
  then have "split_on CHR ''&'' (join_with ''&'' (map pair_text ps)) = map pair_text ps"
    using assms pair_text_plain(1) by (intro split_join) auto
  moreover have "filter (\<lambda>part. part \<noteq> []) (map pair_text ps) = map pair_text ps"
    using assms pair_text_plain(3) by (auto simp: filter_id_conv)
  ultimately show ?thesis by (simp add: query_parts_def)
qed simp

lemma canonical_query_idem: "canonical_query_raw (canonical_query_raw raw) = canonical_query_raw raw"
proof -
  let ?ps = "canonical_pairs raw"
  have esc: "\<forall>kv\<in>set ?ps. escaped_pair kv" using canonical_pairs_escaped by blast
  have "map canonical_pair (map pair_text ?ps) = ?ps"
    using esc pair_text_plain(2) by (simp add: map_idI)
  moreover have "sort ?ps = ?ps" by (simp add: canonical_pairs_def sort_key_id_if_sorted)
  ultimately have "canonical_pairs (canonical_query_raw raw) = ?ps"
    unfolding canonical_pairs_def [of "canonical_query_raw raw"]
    by (simp only: canonical_query_pairs [of raw] query_parts_join [OF esc])
  then show ?thesis by (simp add: canonical_query_pairs)
qed

lemma sort_mset_eq: "mset xs = mset ys \<Longrightarrow> sort xs = sort (ys :: 'a :: linorder list)"
  by (metis mset_sort properties_for_sort sorted_sort)

lemma canonical_query_perm:
  "mset (query_parts raw) = mset (query_parts raw') \<Longrightarrow> canonical_query_raw raw = canonical_query_raw raw'"
  unfolding canonical_query_pairs canonical_pairs_def
  by (subst sort_mset_eq [of _ "map canonical_pair (query_parts raw')"]) simp_all

section \<open>Stripping a parameter\<close>

lemma query_parts_strip:
  "query_parts (strip_query_param raw name) = filter (\<lambda>p. \<not> is_param name p) (query_parts raw)"
proof (cases "raw = []")
  case False
  let ?ps = "filter (\<lambda>p. p \<noteq> [] \<and> \<not> is_param name p) (split_on CHR ''&'' raw)"
  have "\<forall>p\<in>set ?ps. CHR ''&'' \<notin> set p" using split_on_parts by auto
  then have "query_parts (join_with ''&'' ?ps) = ?ps"
    using split_join [of ?ps "CHR ''&''"] by (cases "?ps = []") (simp_all add: query_parts_def, meson)
  moreover have "?ps = filter (\<lambda>p. \<not> is_param name p) (query_parts raw)"
    by (simp add: query_parts_def conj_commute)
  ultimately show ?thesis using False by (simp add: strip_query_param_def)
qed (simp add: strip_query_param_def)

lemma strip_idem: "strip_query_param (strip_query_param raw name) name = strip_query_param raw name"
proof -
  have j: "strip_query_param r name = join_with ''&'' (filter (\<lambda>p. \<not> is_param name p) (query_parts r))" for r
    by (simp add: strip_query_param_def query_parts_def conj_commute)
  show ?thesis unfolding j [of "strip_query_param raw name"] query_parts_strip
    by (simp add: j [of raw])
qed

end
