(* ===== verification/SigVerify.thy ===== *)
theory SigVerify
  imports SigCanonical
begin

text \<open>
  \<^verbatim>\<open>(*Verifier).Verify\<close> and \<^verbatim>\<open>verifyPresigned\<close> of \<^verbatim>\<open>internal/sigv4/sigv4.go\<close>.  SHA-256 and
  HMAC-SHA-256 (\<^verbatim>\<open>crypto/sha256\<close>, \<^verbatim>\<open>crypto/hmac\<close>) are the functions of a \<open>digests\<close>
  record; nothing is assumed of them.  A successful verification yields how the body is to
  be decoded.
\<close>

section \<open>Keys and signatures\<close>

record digests =
  sha256 :: "bytes \<Rightarrow> bytes"
  hmac :: "bytes \<Rightarrow> bytes \<Rightarrow> bytes"   \<comment> \<open>key, message\<close>

definition hash_hex :: "digests \<Rightarrow> bytes \<Rightarrow> string" where
  "hash_hex d b = hex_encode (sha256 d b)"

definition derive_signing_key :: "digests \<Rightarrow> string \<Rightarrow> string \<Rightarrow> string \<Rightarrow> string \<Rightarrow> bytes" where
  "derive_signing_key d secret date region svc =
     (let k_date = hmac d (bytes_of (''AWS4'' @ secret)) (bytes_of date);
          k_region = hmac d k_date (bytes_of region);
          k_service = hmac d k_region (bytes_of svc)
      in hmac d k_service (bytes_of request_kind))"

text \<open>The credential scope, the string to sign and its signature.\<close>

definition scope_of :: "auth_header \<Rightarrow> string" where
  "scope_of a = join_with ''/'' [a_date a, a_region a, a_service a, request_kind]"

definition string_to_sign :: "digests \<Rightarrow> string \<Rightarrow> string \<Rightarrow> string \<Rightarrow> string" where
  "string_to_sign d date_str scope canon =
     join_with nl [algorithm, date_str, scope, hash_hex d (bytes_of canon)]"

definition signing_key_of :: "digests \<Rightarrow> string \<Rightarrow> auth_header \<Rightarrow> bytes" where
  "signing_key_of d secret a = derive_signing_key d secret (a_date a) (a_region a) (a_service a)"

definition expected_sig :: "digests \<Rightarrow> string \<Rightarrow> auth_header \<Rightarrow> string \<Rightarrow> string \<Rightarrow> string" where
  "expected_sig d secret a date_str canon =
     hex_encode (hmac d (signing_key_of d secret a)
       (bytes_of (string_to_sign d date_str (scope_of a) canon)))"

section \<open>The verifier\<close>

text \<open>\<open>v_now\<close> is the reading of \<^verbatim>\<open>v.Now\<close>, or of the system clock when that is nil.\<close>

record verifier =
  v_region :: string
  v_lookup :: "(string \<Rightarrow> string option) option"
  v_now :: int
  v_dig :: digests

definition ErrMissingAuth :: goerr where "ErrMissingAuth = New ''sigv4: missing Authorization header''"
definition ErrUnknownAccessKey :: goerr where "ErrUnknownAccessKey = New ''sigv4: unknown access key''"
definition ErrSignatureMismatch :: goerr where
  "ErrSignatureMismatch = New ''sigv4: signature does not match''"
definition ErrExpired :: goerr where "ErrExpired = New ''sigv4: request outside clock-skew window''"
definition ErrBadPayloadHash :: goerr where
  "ErrBadPayloadHash = New ''sigv4: x-amz-content-sha256 mismatch''"

definition max_clock_skew :: int where "max_clock_skew = 15 * minute"
definition max_presigned_age :: int where "max_presigned_age = 7 * 24 * hour"

definition unsigned_payload :: string where "unsigned_payload = ''UNSIGNED-PAYLOAD''"
definition streaming_signed :: string where
  "streaming_signed = ''STREAMING-AWS4-HMAC-SHA256-PAYLOAD''"
definition streaming_unsigned_trailer :: string where
  "streaming_unsigned_trailer = ''STREAMING-UNSIGNED-PAYLOAD-TRAILER''"

text \<open>What \<^verbatim>\<open>Verify\<close> does to \<^verbatim>\<open>r.Body\<close>: nothing, or wrap it in one of the decoders (the
  signed one with signing key, date, scope and seed signature).\<close>

datatype body_mode =
    RawBody
  | UnsignedChunked
  | SignedChunked bytes string string string
  | HashChecked string

definition payload_mode :: "bytes \<Rightarrow> string \<Rightarrow> string \<Rightarrow> string \<Rightarrow> string \<Rightarrow> goerr + body_mode" where
  "payload_mode key date_str scope sig ph =
     (if ph = unsigned_payload then Inr RawBody
      else if ph = streaming_unsigned_trailer then Inr UnsignedChunked
      else if ph = streaming_signed then Inr (SignedChunked key date_str scope sig)
      else if hex_decode ph = None \<or> length ph \<noteq> 64
           then Inl (Wrap ''sigv4: unsupported payload hash'' [])
      else Inr (HashChecked (to_lower ph)))"

definition in_skew :: "int \<Rightarrow> int \<Rightarrow> bool" where
  "in_skew now t \<longleftrightarrow> \<not> t < now - max_clock_skew \<and> \<not> t > now + max_clock_skew"

text \<open>\<^verbatim>\<open>Verify\<close> after the credential has been parsed and looked up.\<close>

definition verify_signed :: "verifier \<Rightarrow> request \<Rightarrow> auth_header \<Rightarrow> string \<Rightarrow> goerr + body_mode" where
  "verify_signed v r a secret =
     (let date_str = header_get ''X-Amz-Date'' r in
      if date_str = [] then Inl (New ''sigv4: missing X-Amz-Date'')
      else case parse_amz_date date_str of
        None \<Rightarrow> Inl (Wrap ''sigv4: bad X-Amz-Date'' [New ''parsing time''])
      | Some t \<Rightarrow>
          if \<not> in_skew (v_now v) t then Inl ErrExpired
          else let ph = header_get ''X-Amz-Content-Sha256'' r in
            if ph = [] then Inl (New ''sigv4: missing X-Amz-Content-Sha256'')
            else case canonical_request r (a_signed a) ph of
              Inl e \<Rightarrow> Inl e
            | Inr canon \<Rightarrow>
                if expected_sig (v_dig v) secret a date_str canon \<noteq> a_sig a
                then Inl ErrSignatureMismatch
                else payload_mode (signing_key_of (v_dig v) secret a) date_str (scope_of a) (a_sig a) ph)"

text \<open>The credential of a presigned URL.\<close>

definition presigned_auth :: "string \<Rightarrow> goerr + auth_header" where
  "presigned_auth raw =
     (case split_on CHR ''/'' (query_get raw ''X-Amz-Credential'') of
        [k, d, rg, sv, kind] \<Rightarrow>
          if kind \<noteq> request_kind then Inl ErrMalformedAuth
          else Inr (empty_auth\<lparr>a_key := k, a_date := d, a_region := rg, a_service := sv,
                               a_sig := query_get raw ''X-Amz-Signature''\<rparr>)
      | _ \<Rightarrow> Inl ErrMalformedAuth)"

text \<open>The lifetime in nanoseconds, \<^verbatim>\<open>time.Duration(expiresSec) * time.Second\<close> in 64 bits.\<close>

definition expires_dur :: "int \<Rightarrow> int" where
  "expires_dur secs = i64 (secs * second)"

text \<open>The checks of \<^verbatim>\<open>verifyPresigned\<close> before the key is looked up: the signed headers and the
  date string.\<close>

definition presigned_checks :: "verifier \<Rightarrow> string \<Rightarrow> auth_header \<Rightarrow> goerr + (string list \<times> string)" where
  "presigned_checks v raw a =
     (if a_key a = [] \<or> a_sig a = [] then Inl ErrMalformedAuth
      else if a_service a \<noteq> ''s3'' then Inl (Wrap ''sigv4: presigned credential service'' [])
      else if v_region v \<noteq> [] \<and> a_region a \<noteq> v_region v
        then Inl (Wrap ''sigv4: presigned credential region'' [])
      else if parse_date (a_date a) = None then Inl ErrMalformedAuth
      else let signed_raw = query_get raw ''X-Amz-SignedHeaders''; date_str = query_get raw ''X-Amz-Date'' in
        if signed_raw = [] then Inl ErrMalformedAuth
        else case parse_amz_date date_str of
          None \<Rightarrow> Inl (Wrap ''sigv4: presigned X-Amz-Date'' [New ''parsing time''])
        | Some t \<Rightarrow>
           (case parse_int (query_get raw ''X-Amz-Expires'') of
              None \<Rightarrow> Inl (Wrap ''sigv4: presigned X-Amz-Expires'' [])
            | Some secs \<Rightarrow>
                if secs \<le> 0 then Inl (Wrap ''sigv4: presigned X-Amz-Expires'' [])
                else if expires_dur secs > max_presigned_age
                  then Inl (Wrap ''sigv4: presigned X-Amz-Expires exceeds 7-day cap'' [])
                else if v_now v < t - max_clock_skew \<or> v_now v > t + expires_dur secs
                  then Inl ErrExpired
                else Inr (split_on CHR '';'' signed_raw, date_str)))"

definition verify_presigned :: "verifier \<Rightarrow> (string \<Rightarrow> string option) \<Rightarrow> request \<Rightarrow> goerr + body_mode" where
  "verify_presigned v lookup r =
     (let raw = rq_raw_query r in
      if query_get raw ''X-Amz-Algorithm'' \<noteq> algorithm then Inl (Wrap ''sigv4: presigned'' [])
      else case presigned_auth raw of
        Inl e \<Rightarrow> Inl e
      | Inr a \<Rightarrow>
         (case presigned_checks v raw a of
            Inl e \<Rightarrow> Inl e
          | Inr (shs, date_str) \<Rightarrow>
             (case lookup (a_key a) of
                None \<Rightarrow> Inl ErrUnknownAccessKey
              | Some secret \<Rightarrow>
                 (case canonical_request_with_query r shs unsigned_payload
                         (strip_query_param raw ''X-Amz-Signature'') of
                    Inl e \<Rightarrow> Inl e
                  | Inr canon \<Rightarrow>
                      if expected_sig (v_dig v) secret a date_str canon \<noteq> a_sig a
                      then Inl ErrSignatureMismatch else Inr RawBody))))"

definition verify :: "verifier \<Rightarrow> request \<Rightarrow> goerr + body_mode" where
  "verify v r =
     (case v_lookup v of
        None \<Rightarrow> Inl (New ''sigv4: verifier has no credential lookup'')
      | Some lookup \<Rightarrow>
          let auth_str = header_get ''Authorization'' r in
          if auth_str = [] then
            (if query_get (rq_raw_query r) ''X-Amz-Signature'' \<noteq> [] then verify_presigned v lookup r
             else Inl ErrMissingAuth)
          else case parse_auth_header auth_str of
            Inl e \<Rightarrow> Inl e
          | Inr a \<Rightarrow>
              if a_service a \<noteq> ''s3'' then Inl (Wrap ''sigv4: wrong service'' [])
              else if v_region v \<noteq> [] \<and> a_region a \<noteq> v_region v then Inl (Wrap ''sigv4: wrong region'' [])
              else (case lookup (a_key a) of
                  None \<Rightarrow> Inl ErrUnknownAccessKey
                | Some secret \<Rightarrow> verify_signed v r a secret))"

end
