(* ===== verification/S3Errors.thy ===== *)
theory S3Errors
  imports SigVerify
begin

text \<open>
  The error catalogue of \<^verbatim>\<open>internal/s3api/errors.go\<close> and the translations into it.  The Go
  name \<^verbatim>\<open>ErrX\<close> is \<open>S3X\<close> here, apart from the errors of the metadata store.
\<close>

text \<open>An apostrophe is written by its code.\<close>

definition quote1 :: string where "quote1 = [CHR 0x27]"

definition S3NoSuchBucket :: goerr where
  "S3NoSuchBucket = S3Err ''NoSuchBucket''
     ''The specified bucket does not exist'' 404"
definition S3NoSuchKey :: goerr where
  "S3NoSuchKey = S3Err ''NoSuchKey''
     ''The specified key does not exist'' 404"
definition S3BucketAlreadyOwnedByYou :: goerr where
  "S3BucketAlreadyOwnedByYou = S3Err ''BucketAlreadyOwnedByYou''
     ''Your previous request to create the named bucket succeeded and you already own it'' 409"
definition S3BucketNotEmpty :: goerr where
  "S3BucketNotEmpty = S3Err ''BucketNotEmpty''
     ''The bucket you tried to delete is not empty'' 409"
definition S3InvalidBucketName :: goerr where
  "S3InvalidBucketName = S3Err ''InvalidBucketName''
     ''The specified bucket is not valid'' 400"
definition S3InvalidArgument :: goerr where
  "S3InvalidArgument = S3Err ''InvalidArgument''
     ''Invalid Argument'' 400"
definition S3EntityTooLarge :: goerr where
  "S3EntityTooLarge = S3Err ''EntityTooLarge''
     ''Your proposed upload exceeds the maximum allowed size'' 413"
definition S3MissingContentLength :: goerr where
  "S3MissingContentLength = S3Err ''MissingContentLength''
     ''You must provide the Content-Length HTTP header'' 411"
definition S3AccessDenied :: goerr where
  "S3AccessDenied = S3Err ''AccessDenied''
     ''Access Denied'' 403"
definition S3SignatureDoesNotMatch :: goerr where
  "S3SignatureDoesNotMatch = S3Err ''SignatureDoesNotMatch''
     ''The request signature does not match the calculated signature'' 403"
definition S3InvalidAccessKeyID :: goerr where
  "S3InvalidAccessKeyID = S3Err ''InvalidAccessKeyId''
     ''The AWS Access Key Id you provided does not exist in our records'' 403"
definition S3RequestTimeTooSkewed :: goerr where
  "S3RequestTimeTooSkewed = S3Err ''RequestTimeTooSkewed''
     (''The difference between the request time and the server'' @ quote1 @ ''s time is too large'') 403"
definition S3InternalError :: goerr where
  "S3InternalError = S3Err ''InternalError''
     ''We encountered an internal error. Please try again.'' 500"
definition S3NotImplemented :: goerr where
  "S3NotImplemented = S3Err ''NotImplemented''
     ''A header you provided implies functionality that is not implemented'' 501"
definition S3SlowDown :: goerr where
  "S3SlowDown = S3Err ''SlowDown''
     ''Reduce your request rate.'' 503"
definition S3ServiceUnavailable :: goerr where
  "S3ServiceUnavailable = S3Err ''ServiceUnavailable''
     ''Reduce your request rate.'' 503"
definition S3InsufficientStorage :: goerr where
  "S3InsufficientStorage = S3Err ''InsufficientStorage''
     ''Server has insufficient storage to complete the request.'' 507"
definition S3XAmzContentSHA256Missing :: goerr where
  "S3XAmzContentSHA256Missing = S3Err ''XAmzContentSHA256Mismatch''
     (''The provided '' @ quote1 @ ''x-amz-content-sha256'' @ quote1 @ '' header does not match what was computed'') 400"
definition S3InvalidRange :: goerr where
  "S3InvalidRange = S3Err ''InvalidRange''
     ''The requested range is not satisfiable'' 416"
definition S3NoSuchUpload :: goerr where
  "S3NoSuchUpload = S3Err ''NoSuchUpload''
     ''The specified multipart upload does not exist'' 404"
definition S3InvalidPart :: goerr where
  "S3InvalidPart = S3Err ''InvalidPart''
     ''One or more of the specified parts could not be found'' 400"
definition S3InvalidPartOrder :: goerr where
  "S3InvalidPartOrder = S3Err ''InvalidPartOrder''
     ''The list of parts was not in ascending order'' 400"
definition S3EntityTooSmall :: goerr where
  "S3EntityTooSmall = S3Err ''EntityTooSmall''
     ''Your proposed upload is smaller than the minimum allowed size'' 400"
definition S3MalformedXML :: goerr where
  "S3MalformedXML = S3Err ''MalformedXML''
     ''The XML you provided was not well-formed or did not validate against our published schema'' 400"

lemmas s3_error_defs = S3NoSuchBucket_def S3NoSuchKey_def S3BucketAlreadyOwnedByYou_def
  S3BucketNotEmpty_def S3InvalidBucketName_def S3InvalidArgument_def S3EntityTooLarge_def
  S3MissingContentLength_def S3AccessDenied_def S3SignatureDoesNotMatch_def
  S3InvalidAccessKeyID_def S3RequestTimeTooSkewed_def S3InternalError_def S3NotImplemented_def
  S3SlowDown_def S3ServiceUnavailable_def S3InsufficientStorage_def
  S3XAmzContentSHA256Missing_def S3InvalidRange_def S3NoSuchUpload_def S3InvalidPart_def
  S3InvalidPartOrder_def S3EntityTooSmall_def S3MalformedXML_def

text \<open>\<^verbatim>\<open>sigv4ErrToS3\<close>.\<close>

definition sigv4_err_to_s3 :: "goerr \<Rightarrow> goerr" where
  "sigv4_err_to_s3 e =
     (if errors_is e ErrMissingAuth \<or> errors_is e ErrMalformedAuth then S3AccessDenied
      else if errors_is e ErrUnknownAccessKey then S3InvalidAccessKeyID
      else if errors_is e ErrSignatureMismatch then S3SignatureDoesNotMatch
      else if errors_is e ErrExpired then S3RequestTimeTooSkewed
      else if errors_is e ErrBadPayloadHash then S3XAmzContentSHA256Missing
      else S3AccessDenied)"

text \<open>The error \<^verbatim>\<open>writeServiceErr\<close> writes.\<close>

definition service_err :: "goerr \<Rightarrow> goerr" where
  "service_err e = (case as_s3 e of Some (c, m, st) \<Rightarrow> S3Err c m st | None \<Rightarrow> S3InternalError)"

definition http_status :: "goerr \<Rightarrow> int" where
  "http_status e = (case e of S3Err c m st \<Rightarrow> st | _ \<Rightarrow> 500)"

text \<open>Every error a handler writes is one of the catalogue's kind, with a status of 400 or more.\<close>

lemma sigv4_err_s3: "\<exists>c m st. sigv4_err_to_s3 e = S3Err c m st \<and> 400 \<le> st"
  by (simp add: sigv4_err_to_s3_def s3_error_defs)

lemma service_err_s3: "\<exists>c m st. service_err e = S3Err c m st"
  by (auto simp: service_err_def s3_error_defs split: option.split)

end
