(* ===== verification/Listing.thy ===== *)
theory Listing
  imports MetadataProperties Codecs S3Errors
begin

text \<open>
  \<^verbatim>\<open>ListObjectsV2\<close> of \<^verbatim>\<open>internal/s3api/list.go\<close>: paging, grouping by delimiter and the
  continuation token.  An error is the \<^verbatim>\<open>*S3Error\<close> the handler writes.
\<close>

section \<open>One batch\<close>

text \<open>The local variables of the loop.\<close>

record lstate =
  l_cursor :: string
  l_seen :: "string list"
  l_contents :: "object list"
  l_prefixes :: "string list"
  l_emitted :: int
  l_last :: string

text \<open>The common prefix an object falls under, if any.\<close>

definition group_of :: "string \<Rightarrow> string \<Rightarrow> string \<Rightarrow> string option" where
  "group_of prefix delim key =
     (if delim = [] then None
      else let suffix = trim_prefix key prefix in
        map_option (\<lambda>i. prefix @ take (i + length delim) suffix) (index_of suffix delim))"

fun list_batch :: "string \<Rightarrow> string \<Rightarrow> int \<Rightarrow> object list \<Rightarrow> lstate \<Rightarrow> bool \<times> lstate" where
  "list_batch prefix delim mx [] st = (False, st)"
| "list_batch prefix delim mx (ob # obs) st =
     (let st = st\<lparr>l_cursor := o_key ob\<rparr> in
      case group_of prefix delim (o_key ob) of
        Some cp \<Rightarrow>
          if cp \<in> set (l_seen st) then list_batch prefix delim mx obs st
          else let st = st\<lparr>l_seen := l_seen st @ [cp], l_prefixes := l_prefixes st @ [cp],
                           l_emitted := l_emitted st + 1, l_last := o_key ob\<rparr> in
            if l_emitted st \<ge> mx then (True, st) else list_batch prefix delim mx obs st
      | None \<Rightarrow>
          let st = st\<lparr>l_contents := l_contents st @ [ob],
                      l_emitted := l_emitted st + 1, l_last := o_key ob\<rparr> in
          if l_emitted st \<ge> mx then (True, st) else list_batch prefix delim mx obs st)"

text \<open>\<^verbatim>\<open>keyHasMoreAfter\<close>: an error counts as no.\<close>

definition key_has_more_after :: "string \<Rightarrow> string \<Rightarrow> string \<Rightarrow> store \<Rightarrow> bool \<times> store" where
  "key_has_more_after b prefix after s = (case list_objects b prefix after 1 s of
       (Inr (rows, _), s') \<Rightarrow> (rows \<noteq> [], s') | (Inl _, s') \<Rightarrow> (False, s'))"

section \<open>The loop\<close>

definition remaining :: "string \<Rightarrow> store \<Rightarrow> nat" where
  "remaining cur s = length (filter (\<lambda>ob. cur < o_key ob) (objects s))"

lemma list_batch_cursor:
  "list_batch prefix delim mx obs st = (False, st') \<Longrightarrow> obs \<noteq> [] \<Longrightarrow>
     \<exists>ob\<in>set obs. l_cursor st' = o_key ob"
proof (induction obs arbitrary: st)
  case (Cons ob obs)
  have last: "l_cursor st' = o_key ob \<or> (\<exists>ob\<in>set obs. l_cursor st' = o_key ob)"
    if "list_batch prefix delim mx obs st1 = (False, st')" "l_cursor st1 = o_key ob" for st1
    using Cons.IH [OF that(1)] that by (cases "obs = []") auto
  then show ?case
    using Cons.prems(1) by (auto simp: Let_def split: option.splits if_splits)
qed simp

lemma select_objects_mem:
  "ob \<in> set (select_objects b p a k s) \<Longrightarrow> ob \<in> set (objects s) \<and> a < o_key ob"
  by (auto simp: select_objects_def sql_limit_def split: if_splits dest!: in_set_takeD)

lemma list_objects_select:
  assumes "list_objects b p a n s = (Inr (page, trunc), s')"
  shows "\<exists>k m. page = take m (select_objects b p a k s) \<and> tables s' = tables s"
proof -
  have sel: "tables s1 = tables s \<Longrightarrow> select_objects b p a k s1 = select_objects b p a k s" for k s1
    by (simp add: select_objects_def tables_def)
  define l where "l = (if n \<le> 0 then 1000 else n)"
  obtain s1 where s1: "exec s = (Inr (), s1)"
    and eq: "(if int (length (select_objects b p a (i64 (l + 1)) s1)) > l
      then (Inr (take (nat l) (select_objects b p a (i64 (l + 1)) s1), True), s1)
      else (Inr (select_objects b p a (i64 (l + 1)) s1, False), s1)) = (Inr (page, trunc), s')"
    using assms unfolding list_objects_def l_def [symmetric] Let_def ebind_exec_Inr
    by (auto split: if_splits)
  have "page = take (nat l) (select_objects b p a (i64 (l + 1)) s1) \<and> s' = s1"
    using eq by (auto split: if_splits)
  then show ?thesis using exec_Inr [OF s1] sel [OF exec_Inr [OF s1]] by auto
qed

lemma list_objects_mem:
  assumes "list_objects b p a n s = (Inr (page, trunc), s')" "ob \<in> set page"
  shows "ob \<in> set (objects s) \<and> a < o_key ob"
  using list_objects_select [OF assms(1)] assms(2) select_objects_mem by (blast dest: in_set_takeD)

lemma list_objects_tables: "tables (snd (list_objects b p a n s)) = tables s"
  unfolding list_objects_def Let_def
  by (cases s rule: exec_cases) (simp_all add: ebind_def split: if_split)

lemma remaining_less:
  assumes "ob \<in> set (objects s)" "cur < o_key ob" "objects s' = objects s"
  shows "remaining (o_key ob) s' < remaining cur s"
proof -
  have "filter (\<lambda>x. o_key ob < o_key x) (objects s) =
      filter (\<lambda>x. o_key ob < o_key x) (filter (\<lambda>x. cur < o_key x) (objects s))"
    using assms(2) by (auto simp: conj_commute intro!: filter_cong)
  moreover have "ob \<in> set (filter (\<lambda>x. cur < o_key x) (objects s))" using assms by simp
  from length_filter_less [OF this, of "\<lambda>x. o_key ob < o_key x"]
  have "length (filter (\<lambda>x. o_key ob < o_key x) (filter (\<lambda>x. cur < o_key x) (objects s)))
      < length (filter (\<lambda>x. cur < o_key x) (objects s))" by simp
  ultimately show ?thesis using assms(3) by (simp add: remaining_def)
qed

function list_loop :: "string \<Rightarrow> string \<Rightarrow> string \<Rightarrow> int \<Rightarrow> lstate \<Rightarrow> store
    \<Rightarrow> (goerr + bool \<times> lstate) \<times> store" where
  "list_loop b prefix delim mx st s =
     (case list_objects b prefix (l_cursor st) (mx - l_emitted st) s of
        (Inl e, s1) \<Rightarrow> (Inl S3InternalError, s1)
      | (Inr (batch, trunc), s1) \<Rightarrow>
          if batch = [] then (Inr (False, st), s1)
          else case list_batch prefix delim mx batch st of
            (True, st') \<Rightarrow>
              if trunc then (Inr (True, st'), s1)
              else (case key_has_more_after b prefix (l_cursor st') s1 of
                      (m, s2) \<Rightarrow> (Inr (m, st'), s2))
          | (False, st') \<Rightarrow>
              if trunc then list_loop b prefix delim mx st' s1 else (Inr (False, st'), s1))"
  by pat_completeness auto
termination
proof (relation "measure (\<lambda>(b, prefix, delim, mx, st, s). remaining (l_cursor st) s)", goal_cases)
  case (2 b prefix delim mx st s r s1 br batch trunc stop st')
  then have lo: "list_objects b prefix (l_cursor st) (mx - l_emitted st) s = (Inr (batch, trunc), s1)"
    and lb: "list_batch prefix delim mx batch st = (False, st')" and ne: "batch \<noteq> []" by auto
  obtain ob where ob: "ob \<in> set batch" "l_cursor st' = o_key ob"
    using list_batch_cursor [OF lb ne] by auto
  moreover have "objects s1 = objects s"
    using list_objects_tables [of b prefix "l_cursor st" "mx - l_emitted st" s] lo
    by (simp add: tables_def)
  ultimately show ?case
    using list_objects_mem [OF lo ob(1)] remaining_less [of ob s "l_cursor st" s1] by simp
qed simp

declare list_loop.simps [simp del]

section \<open>The handler\<close>

record list_resp =
  lr_name :: string
  lr_prefix :: string
  lr_delimiter :: string
  lr_token :: string
  lr_start_after :: string
  lr_contents :: "object list"
  lr_prefixes :: "string list"
  lr_max :: int
  lr_truncated :: bool
  lr_next :: string

definition lr_key_count :: "list_resp \<Rightarrow> int" where
  "lr_key_count r = int (length (lr_contents r)) + int (length (lr_prefixes r))"

text \<open>The query: \<open>q n\<close> is \<^verbatim>\<open>q.Get(n)\<close>, empty for an absent parameter.\<close>

definition start_key :: "(string \<Rightarrow> string) \<Rightarrow> string option" where
  "start_key q =
     (let tok = q ''continuation-token'' in
      if tok = [] then Some (q ''start-after'')
      else map_option string_of (raw_url_decode tok))"

definition max_keys :: "(string \<Rightarrow> string) \<Rightarrow> int option" where
  "max_keys q =
     (let mk = q ''max-keys'' in
      if mk = [] then Some 1000
      else case parse_int mk of
        None \<Rightarrow> None
      | Some n \<Rightarrow> if n < 0 then None else Some (min n 1000))"

definition resp_init :: "string \<Rightarrow> (string \<Rightarrow> string) \<Rightarrow> int \<Rightarrow> list_resp" where
  "resp_init b q mk =
     \<lparr>lr_name = b, lr_prefix = q ''prefix'', lr_delimiter = q ''delimiter'',
      lr_token = q ''continuation-token'', lr_start_after = q ''start-after'',
      lr_contents = [], lr_prefixes = [], lr_max = mk, lr_truncated = False, lr_next = []\<rparr>"

definition list_objects_v2 ::
    "string \<Rightarrow> (string \<Rightarrow> string) \<Rightarrow> store \<Rightarrow> (goerr + list_resp) \<times> store" where
  "list_objects_v2 b q s =
     (if q ''list-type'' \<noteq> ''2'' then (Inl S3NotImplemented, s)
      else case get_bucket b s of
        (Inl e, s1) \<Rightarrow> (Inl S3NoSuchBucket, s1)
      | (Inr bk, s1) \<Rightarrow>
         (case start_key q of
            None \<Rightarrow> (Inl S3InvalidArgument, s1)
          | Some start \<Rightarrow>
             (case max_keys q of
                None \<Rightarrow> (Inl S3InvalidArgument, s1)
              | Some mk \<Rightarrow>
                 if mk = 0
                 then (Inr (resp_init b q mk), s1)
                 else case list_loop b (q ''prefix'') (q ''delimiter'') mk
                        \<lparr>l_cursor = start, l_seen = [], l_contents = [], l_prefixes = [],
                         l_emitted = 0, l_last = []\<rparr> s1 of
                    (Inl e, s2) \<Rightarrow> (Inl e, s2)
                  | (Inr (trunc, st), s2) \<Rightarrow>
                      (Inr ((resp_init b q mk)
                         \<lparr>lr_contents := l_contents st, lr_prefixes := l_prefixes st, lr_truncated := trunc,
                          lr_next := (if trunc then raw_url_encode (bytes_of (l_last st)) else [])\<rparr>),
                       s2))))"

end
