(* ===== verification/ListingProperties.thy ===== *)
theory ListingProperties
  imports Listing
begin

text \<open>
  Properties of \<open>list_objects_v2\<close>: a page is an exact segment of the sorted keys, following
  the continuation tokens visits every key once, and grouping by a delimiter.
\<close>

section \<open>Segments of the sorted listing\<close>

lemma filter_sorted_segment:
  "sorted_wrt (<) (map f xs) \<Longrightarrow> 0 < m \<Longrightarrow> m \<le> length xs \<Longrightarrow>
     filter (\<lambda>x. (f (xs ! (m - 1)) :: 'b :: linorder) < f x) xs = drop m xs"
proof (induction xs arbitrary: m)
  case (Cons x xs)
  have gt: "\<forall>y\<in>set xs. f x < f y" using Cons.prems(1) by auto
  show ?case
  proof (cases "m = 1")
    case True
    then show ?thesis using gt by (simp add: filter_id_conv)
  next
    case False
    then obtain k where k: "m = Suc k" "0 < k" using Cons.prems(2) by (cases m) auto
    then have "xs ! (k - 1) \<in> set xs" using Cons.prems(3) by simp
    then have "\<not> f (xs ! (k - 1)) < f x" using gt by (simp add: less_le_not_le)
    moreover have "filter (\<lambda>y. f (xs ! (k - 1)) < f y) xs = drop k xs"
      using Cons.IH [of k] Cons.prems k by simp
    ultimately show ?thesis using k by (simp add: nth_Cons')
  qed
qed simp

lemma all_after_cut:
  assumes "t_inv obj_id obs" "0 < m" "m \<le> length (all_after b p a obs)"
  shows "all_after b p (o_key (all_after b p a obs ! (m - 1))) obs = drop m (all_after b p a obs)"
proof -
  define S where "S = all_after b p a obs"
  define k where "k = o_key (S ! (m - 1))"
  have "S ! (m - 1) \<in> set S" by (rule nth_mem) (use assms(2,3) in \<open>simp add: S_def\<close>)
  then have a: "a < k" unfolding S_def set_all_after k_def by (simp add: matches_def)
  have eq: "matches b p k = (\<lambda>ob. matches b p a ob \<and> k < o_key ob)"
    using a by (auto simp: matches_def fun_eq_iff)
  have "all_after b p k obs = filter (\<lambda>ob. k < o_key ob) S"
    by (simp add: all_after_def eq S_def filter_sort conj_commute)
  then show ?thesis
    using filter_sorted_segment [OF all_after_sorted [OF assms(1)] assms(2,3)]
    by (simp add: k_def S_def)
qed

section \<open>What a batch does to the loop variables\<close>

definition absorb1 :: "string \<Rightarrow> string \<Rightarrow> object \<Rightarrow> lstate \<Rightarrow> lstate" where
  "absorb1 prefix delim ob st =
     (let st = st\<lparr>l_cursor := o_key ob\<rparr> in
      case group_of prefix delim (o_key ob) of
        Some cp \<Rightarrow>
          if cp \<in> set (l_seen st) then st
          else st\<lparr>l_seen := l_seen st @ [cp], l_prefixes := l_prefixes st @ [cp],
                  l_emitted := l_emitted st + 1, l_last := o_key ob\<rparr>
      | None \<Rightarrow> st\<lparr>l_contents := l_contents st @ [ob],
                  l_emitted := l_emitted st + 1, l_last := o_key ob\<rparr>)"

definition absorb :: "string \<Rightarrow> string \<Rightarrow> object list \<Rightarrow> lstate \<Rightarrow> lstate" where
  "absorb prefix delim obs st = fold (absorb1 prefix delim) obs st"

lemma absorb_simps [simp]:
  "absorb p d [] st = st" "absorb p d (ob # obs) st = absorb p d obs (absorb1 p d ob st)"
  "absorb p d (xs @ ys) st = absorb p d ys (absorb p d xs st)"
  by (simp_all add: absorb_def)

lemma absorb1_cursor [simp]: "l_cursor (absorb1 p d ob st) = o_key ob"
  by (simp add: absorb1_def Let_def split: option.split)

lemma absorb_cursor: "obs \<noteq> [] \<Longrightarrow> l_cursor (absorb p d obs st) = o_key (last obs)"
  by (induction obs arbitrary: st) auto

lemma absorb1_emitted:
  "l_emitted (absorb1 p d ob st) = l_emitted st \<or>
   l_emitted (absorb1 p d ob st) = l_emitted st + 1 \<and> l_last (absorb1 p d ob st) = o_key ob"
  by (simp add: absorb1_def Let_def split: option.split)

text \<open>A batch stops right after the entry that fills the page, or is absorbed whole.\<close>

lemma list_batch_absorb:
  assumes "l_emitted st < mx"
  shows "\<exists>m stop. m \<le> length obs \<and>
    list_batch p d mx obs st = (stop, absorb p d (take m obs) st) \<and>
    (if stop then 0 < m \<and> l_emitted (absorb p d (take m obs) st) = mx \<and>
                  l_last (absorb p d (take m obs) st) = o_key (obs ! (m - 1))
     else m = length obs \<and> l_emitted (absorb p d (take m obs) st) < mx)"
  using assms
proof (induction obs arbitrary: st)
  case (Cons ob obs)
  let ?st = "absorb1 p d ob st"
  have step: "list_batch p d mx (ob # obs) st =
      (if l_emitted ?st \<ge> mx then (True, ?st) else list_batch p d mx obs ?st)"
    using Cons.prems by (auto simp: absorb1_def Let_def split: option.split)
  show ?case
  proof (cases "l_emitted ?st \<ge> mx")
    case True
    then have "l_emitted ?st = mx" "l_last ?st = o_key ob"
      using absorb1_emitted [of p d ob st] Cons.prems by auto
    then show ?thesis using step True by (intro exI [of _ 1] exI [of _ True]) simp
  next
    case False
    then have "l_emitted ?st < mx" by simp
    from Cons.IH [OF this] obtain m stop where IH: "m \<le> length obs"
      "list_batch p d mx obs ?st = (stop, absorb p d (take m obs) ?st)"
      "if stop then 0 < m \<and> l_emitted (absorb p d (take m obs) ?st) = mx \<and>
          l_last (absorb p d (take m obs) ?st) = o_key (obs ! (m - 1))
       else m = length obs \<and> l_emitted (absorb p d (take m obs) ?st) < mx" by blast
    then show ?thesis
      using step False
      by (intro exI [of _ "Suc m"] exI [of _ stop]) (auto simp: nth_Cons' split: if_splits)
  qed
next
  case Nil
  then show ?case by (intro exI [of _ 0] exI [of _ False]) simp
qed

text \<open>
  The loop absorbs a segment of the sorted keys.  It reports a truncated page only if keys
  are left and the page is full; without database failures, always then.
\<close>

definition loop_post ::
    "string \<Rightarrow> string \<Rightarrow> string \<Rightarrow> int \<Rightarrow> lstate \<Rightarrow> store \<Rightarrow> bool \<times> lstate \<Rightarrow> store \<Rightarrow> bool" where
  "loop_post b p d mx st s r s' =
     (let S = all_after b p (l_cursor st) (objects s) in
      tables s' = tables s \<and> (\<exists>m \<le> length S. snd r = absorb p d (take m S) st \<and>
        l_emitted (snd r) \<le> mx \<and>
        (fst r \<longrightarrow> 0 < m \<and> m < length S \<and> l_emitted (snd r) = mx \<and> l_last (snd r) = o_key (S ! (m - 1))) \<and>
        (\<not> fst r \<and> faults s = [] \<longrightarrow> m = length S \<and> faults s' = [])))"

lemma list_objects_faults:
  assumes "faults s = []"
  shows "\<exists>page trunc. list_objects b p a n s = (Inr (page, trunc), s)"
  using assms by (auto simp: list_objects_def Let_def ebind_def)

lemma key_has_more_spec:
  assumes "key_has_more_after b p k s = (mo, s')" "ascii p"
  shows "tables s' = tables s" "mo \<Longrightarrow> all_after b p k (objects s) \<noteq> []"
    "faults s = [] \<Longrightarrow> faults s' = [] \<and> (mo \<longleftrightarrow> all_after b p k (objects s) \<noteq> [])"
proof -
  obtain res s1 where lo: "list_objects b p k 1 s = (res, s1)" by (cases "list_objects b p k 1 s")
  have s1: "s1 = s'" using assms(1) lo by (auto simp: key_has_more_after_def split: sum.splits)
  show "tables s' = tables s" using list_objects_tables [of b p k 1 s] lo s1 by simp
  have mo: "mo \<longleftrightarrow> all_after b p k (objects s) \<noteq> []" if "res = Inr (page, trunc)" for page trunc
    using list_objects_Inr [OF lo [unfolded that] assms(2)] assms(1) lo that
    by (auto simp: key_has_more_after_def)
  then show "mo \<Longrightarrow> all_after b p k (objects s) \<noteq> []"
    using assms(1) lo by (cases res) (auto simp: key_has_more_after_def)
  show "faults s = [] \<Longrightarrow> faults s' = [] \<and> (mo \<longleftrightarrow> all_after b p k (objects s) \<noteq> [])"
    using list_objects_faults [of s b p k 1] mo lo s1 by auto
qed

lemma absorb_emitted_mono: "l_emitted st \<le> l_emitted (absorb p d xs st)"
proof (induction xs arbitrary: st)
  case (Cons x xs)
  show ?case using Cons [of "absorb1 p d x st"] absorb1_emitted [of p d x st] by auto
qed simp

text \<open>A page that fills up inside a batch.\<close>

lemma loop_post_stop:
  assumes S: "S = all_after b p (l_cursor st) (objects s)" and inv: "store_inv s" "ascii p"
    and m: "0 < m" "m \<le> length S" and st': "st' = absorb p d (take m S) st"
    and full: "l_emitted st' = mx" "l_last st' = o_key (S ! (m - 1))"
    and s1: "tables s1 = tables s" "faults s = [] \<Longrightarrow> faults s1 = []"
    and kh: "key_has_more_after b p (l_cursor st') s1 = (mo, s2)"
  shows "loop_post b p d mx st s (mo, st') s2"
proof -
  have ne: "take m S \<noteq> []" using m by (cases S) auto
  have cur: "l_cursor st' = o_key (S ! (m - 1))"
    using absorb_cursor [OF ne, of p d st] m
    by (simp add: st' last_conv_nth [OF ne] min_absorb1)
  have "objects s1 = objects s" using s1(1) by (simp add: tables_def)
  then have rest: "all_after b p (l_cursor st') (objects s1) = drop m S"
    unfolding cur S using all_after_cut [of "objects s" m b p "l_cursor st"] inv m S
    by (simp add: store_inv_def)
  note spec = key_has_more_spec [OF kh inv(2), unfolded rest]
  show ?thesis
    unfolding loop_post_def S [symmetric] Let_def
    using spec s1 m st' full by (auto intro!: exI [of _ m])
qed

lemma loop_post_trunc:
  assumes "S = all_after b p (l_cursor st) (objects s)" "0 < m" "m < length S"
    "st' = absorb p d (take m S) st" "l_emitted st' = mx" "l_last st' = o_key (S ! (m - 1))"
    "tables s1 = tables s"
  shows "loop_post b p d mx st s (True, st') s1"
  unfolding loop_post_def assms(1) [symmetric] Let_def using assms by (auto intro!: exI [of _ m])

lemma loop_post_done:
  assumes "S = all_after b p (l_cursor st) (objects s)" "st' = absorb p d S st" "l_emitted st' \<le> mx"
    "tables s1 = tables s" "faults s = [] \<Longrightarrow> faults s1 = []"
  shows "loop_post b p d mx st s (False, st') s1"
  unfolding loop_post_def assms(1) [symmetric] Let_def using assms by (auto intro!: exI [of _ "length S"])

text \<open>Absorbing a whole batch and going on.\<close>

lemma loop_post_next:
  assumes S: "S = all_after b p (l_cursor st) (objects s)" and inv: "store_inv s"
    and m: "0 < m" "m \<le> length S" and st': "st' = absorb p d (take m S) st"
    and s1: "tables s1 = tables s" "faults s = [] \<Longrightarrow> faults s1 = []"
    and post: "loop_post b p d mx st' s1 r s'"
  shows "loop_post b p d mx st s r s'"
proof -
  have ne: "take m S \<noteq> []" using m by (cases S) auto
  have cur: "l_cursor st' = o_key (S ! (m - 1))"
    using absorb_cursor [OF ne, of p d st] m
    by (simp add: st' last_conv_nth [OF ne] min_absorb1)
  have "objects s1 = objects s" using s1(1) by (simp add: tables_def)
  then have rest: "all_after b p (l_cursor st') (objects s1) = drop m S"
    unfolding cur S using all_after_cut [of "objects s" m b p "l_cursor st"] inv m S
    by (simp add: store_inv_def)
  obtain k where post: "tables s' = tables s1" "k \<le> length (drop m S)"
    "snd r = absorb p d (take k (drop m S)) st'" "l_emitted (snd r) \<le> mx"
    "fst r \<longrightarrow> 0 < k \<and> k < length (drop m S) \<and> l_emitted (snd r) = mx \<and>
       l_last (snd r) = o_key (drop m S ! (k - 1))"
    "\<not> fst r \<and> faults s1 = [] \<longrightarrow> k = length (drop m S) \<and> faults s' = []"
    using post unfolding loop_post_def rest Let_def by blast
  have k: "k \<le> length S - m" using post(2) by simp
  have eqr: "snd r = absorb p d (take (m + k) S) st" using post(3) st' by (simp add: take_add)
  have nth: "drop m S ! (k - 1) = S ! (m + k - 1)" if "0 < k" using that m k by simp
  show ?thesis
    unfolding loop_post_def S [symmetric] Let_def
  proof (intro conjI exI [of _ "m + k"] impI)
    show "tables s' = tables s" "m + k \<le> length S" "snd r = absorb p d (take (m + k) S) st"
      "l_emitted (snd r) \<le> mx" using post(1,4) s1(1) k m eqr by simp_all
  next
    assume r: "fst r"
    then have kk: "0 < k" "k < length S - m" "l_emitted (snd r) = mx"
      "l_last (snd r) = o_key (drop m S ! (k - 1))" using post(5) by simp_all
    show "0 < m + k" "m + k < length S" "l_emitted (snd r) = mx" using kk by simp_all
    show "l_last (snd r) = o_key (S ! (m + k - 1))" using kk(4) nth [OF kk(1)] by simp
  next
    assume "\<not> fst r \<and> faults s = []"
    then have "k = length S - m" "faults s' = []" using post(6) s1(2) by simp_all
    then show "m + k = length S" "faults s' = []" using m by simp_all
  qed
qed

lemma list_loop_post:
  assumes "list_loop b p d mx st s = (Inr r, s')" "store_inv s" "ascii p"
    "0 \<le> l_emitted st" "l_emitted st < mx" "mx < 2 ^ 62"
  shows "loop_post b p d mx st s r s'"
  using assms
proof (induction b p d mx st s arbitrary: r s' rule: list_loop.induct)
  case (1 b p d mx st s)
  define S where "S = all_after b p (l_cursor st) (objects s)"
  define n where "n = mx - l_emitted st"
  have n: "0 < n" "n < 2 ^ 63 - 1" using 1(5-7) by (auto simp: n_def)
  note unf = list_loop.simps [of b p d mx st s, folded n_def]
  obtain res s1 where lo: "list_objects b p (l_cursor st) n s = (res, s1)"
    by (cases "list_objects b p (l_cursor st) n s")
  from 1(2) have "\<exists>x. res = Inr x" unfolding unf lo by (cases res) auto
  then obtain batch trunc where res: "res = Inr (batch, trunc)" by auto
  have batch: "batch = take (nat n) S" and tr: "trunc \<longleftrightarrow> n < int (length S)" and ts: "tables s1 = tables s"
    using list_objects_Inr [OF lo [unfolded res] 1(4) n] by (simp_all add: S_def)
  have f1: "faults s = [] \<Longrightarrow> faults s1 = []"
    using list_objects_faults [of s b p "l_cursor st" n] lo by auto
  note eq = 1(2) [unfolded unf lo res prod.case sum.case]
  show ?case
  proof (cases "batch = []")
    case True
    then have "S = []" using batch n by (cases S) auto
    moreover have "r = (False, st)" "s' = s1" using eq True by auto
    ultimately show ?thesis
      using loop_post_done [OF S_def, of st d mx s1] ts f1 1(6) by simp
  next
    case ne: False
    obtain m stop where lb: "m \<le> length batch"
      "list_batch p d mx batch st = (stop, absorb p d (take m batch) st)"
      "if stop then 0 < m \<and> l_emitted (absorb p d (take m batch) st) = mx \<and>
          l_last (absorb p d (take m batch) st) = o_key (batch ! (m - 1))
       else m = length batch \<and> l_emitted (absorb p d (take m batch) st) < mx"
      using list_batch_absorb [OF 1(6)] by blast
    define st' where "st' = absorb p d (take m S) st"
    have mS: "m \<le> length S" "m \<le> nat n" "take m batch = take m S"
      using lb(1) batch by (auto simp: min_def split: if_splits)
    note eq' = eq [unfolded if_not_P [OF ne] lb(2) mS(3), folded st'_def]
    show ?thesis
    proof (cases stop)
      case True
      then have st: "0 < m" "l_emitted st' = mx" "l_last st' = o_key (S ! (m - 1))"
        using lb(1,3) mS batch by (auto simp: st'_def)
      obtain mo s2 where kh: "key_has_more_after b p (l_cursor st') s1 = (mo, s2)"
        by (cases "key_has_more_after b p (l_cursor st') s1")
      show ?thesis
      proof (cases trunc)
        case tru: True
        then have "m < length S" using mS tr n by simp
        with loop_post_trunc [OF S_def st(1) this st'_def st(2,3) ts] eq' True tru show ?thesis by simp
      next
        case False
        with loop_post_stop [OF S_def 1(3,4) st(1) mS(1) st'_def st(2,3) ts f1 kh] eq' True kh
        show ?thesis by simp
      qed
    next
      case False
      then have m: "m = length batch" "l_emitted st' < mx" "0 < m"
        using lb(3) mS(3) ne by (auto simp: st'_def)
      show ?thesis
      proof (cases trunc)
        case tru: True
        then have rec: "list_loop b p d mx st' s1 = (Inr r, s')" using eq' False by simp
        have "store_inv s1" "0 \<le> l_emitted st'"
          using 1(3,5) tables_find(5) [OF ts] absorb_emitted_mono [of st p d "take m S"]
          by (auto simp: st'_def)
        moreover have "(False, st') = list_batch p d mx batch st"
          using lb(2) mS(3) False by (simp add: st'_def)
        ultimately have "loop_post b p d mx st' s1 r s'"
          using 1(1) [of res s1 "(batch, trunc)" batch trunc False st']
            lo res ne tru rec m(2) 1(4,7) by (simp add: n_def)
        from loop_post_next [OF S_def 1(3) m(3) mS(1) st'_def ts _ this] f1 show ?thesis by blast
      next
        case notr: False
        then have "take m S = S" using m(1) batch tr n by simp
        then have "st' = absorb p d S st" by (simp add: st'_def)
        with loop_post_done [OF S_def this _ ts f1] m(2) eq' False notr show ?thesis by simp
      qed
    qed
  qed
qed

text \<open>Without database failures the loop returns and leaves the store as it is.\<close>

lemma list_loop_faults: "faults s = [] \<Longrightarrow> \<exists>r. list_loop b p d mx st s = (Inr r, s)"
proof (induction b p d mx st s rule: list_loop.induct)
  case (1 b p d mx st s)
  obtain batch trunc where lo: "list_objects b p (l_cursor st) (mx - l_emitted st) s = (Inr (batch, trunc), s)"
    using list_objects_faults [OF 1(2)] by blast
  have kh: "\<exists>m. key_has_more_after b p k s = (m, s)" for k
    using list_objects_faults [OF 1(2), of b p k 1] by (auto simp: key_has_more_after_def)
  obtain stop st' where lb: "list_batch p d mx batch st = (stop, st')"
    by (cases "list_batch p d mx batch st")
  have rec: "\<exists>r. list_loop b p d mx st' s = (Inr r, s)" if "batch \<noteq> []" "\<not> stop" trunc
    using 1(1) [of "Inr (batch, trunc)" s "(batch, trunc)" batch trunc stop st'] lo lb that 1(2) by simp
  have unf: "list_loop b p d mx st s =
      (if batch = [] then (Inr (False, st), s)
       else if stop then (if trunc then (Inr (True, st'), s)
              else (case key_has_more_after b p (l_cursor st') s of (m, s2) \<Rightarrow> (Inr (m, st'), s2)))
       else if trunc then list_loop b p d mx st' s else (Inr (False, st'), s))"
    by (subst list_loop.simps) (simp add: lo lb split: bool.split)
  show ?case
    unfolding unf using rec kh [of "l_cursor st'"]
    by (cases "batch = []"; cases stop; cases trunc) auto
qed

section \<open>The response\<close>

lemma absorb_contents:
  "l_contents (absorb p d obs st) = l_contents st @ filter (\<lambda>ob. group_of p d (o_key ob) = None) obs"
  by (induction obs arbitrary: st) (auto simp: absorb1_def Let_def split: option.split)

definition prefixes_ok :: "lstate \<Rightarrow> bool" where
  "prefixes_ok st \<longleftrightarrow> l_seen st = l_prefixes st \<and> distinct (l_prefixes st) \<and>
     l_emitted st = int (length (l_contents st)) + int (length (l_prefixes st))"

lemma absorb1_prefixes:
  assumes "prefixes_ok st"
  shows "prefixes_ok (absorb1 p d ob st) \<and> set (l_prefixes (absorb1 p d ob st)) =
    set (l_prefixes st) \<union> set_option (group_of p d (o_key ob))"
  using assms by (auto simp: absorb1_def Let_def prefixes_ok_def split: option.split)

lemma absorb_prefixes:
  "prefixes_ok st \<Longrightarrow> prefixes_ok (absorb p d obs st) \<and> set (l_prefixes (absorb p d obs st)) =
    set (l_prefixes st) \<union> (\<Union>ob\<in>set obs. set_option (group_of p d (o_key ob)))"
proof (induction obs arbitrary: st)
  case (Cons ob obs)
  show ?case
    using Cons.IH [of "absorb1 p d ob st"] absorb1_prefixes [OF Cons.prems, of p d ob] by auto
qed simp

definition lstate_init :: "string \<Rightarrow> lstate" where
  "lstate_init start = \<lparr>l_cursor = start, l_seen = [], l_contents = [], l_prefixes = [],
     l_emitted = 0, l_last = []\<rparr>"

text \<open>What a successful response was computed from.\<close>

lemma list_objects_v2_Inr:
  assumes "list_objects_v2 b q s = (Inr r, s')"
  obtains start mk s1 where "start_key q = Some start" "max_keys q = Some mk" "tables s1 = tables s"
    "faults s = [] \<Longrightarrow> s1 = s" "lr_max r = mk" "mk = 0 \<Longrightarrow> r = resp_init b q 0 \<and> s' = s1"
    "mk \<noteq> 0 \<Longrightarrow> \<exists>st trunc. list_loop b (q ''prefix'') (q ''delimiter'') mk (lstate_init start) s1
        = (Inr (trunc, st), s') \<and> lr_contents r = l_contents st \<and> lr_prefixes r = l_prefixes st \<and>
        lr_truncated r = trunc \<and> (trunc \<longrightarrow> lr_next r = raw_url_encode (bytes_of (l_last st)))"
proof -
  have lt: "q ''list-type'' = ''2''" using assms by (auto simp: list_objects_v2_def split: if_splits)
  obtain g s1 where g: "get_bucket b s = (g, s1)" by (cases "get_bucket b s")
  obtain bk where "g = Inr bk" using assms lt g by (cases g) (auto simp: list_objects_v2_def)
  with g have gb: "get_bucket b s = (Inr bk, s1)" by simp
  have t: "tables s1 = tables s" using get_bucket_Inr [OF gb] by simp
  have f: "faults s = [] \<Longrightarrow> s1 = s"
    using gb by (auto simp: get_bucket_def ebind_def split: option.splits)
  obtain start where st: "start_key q = Some start"
    using assms lt gb by (cases "start_key q") (auto simp: list_objects_v2_def)
  obtain mk where mk: "max_keys q = Some mk"
    using assms lt gb st by (cases "max_keys q") (auto simp: list_objects_v2_def)
  show ?thesis
    using assms
    by (intro that [OF st mk t f])
      (auto simp: list_objects_v2_def lt gb st mk resp_init_def lstate_init_def
        split: if_splits prod.splits sum.splits)
qed

lemma max_keys_range: "max_keys q = Some mk \<Longrightarrow> 0 \<le> mk \<and> mk \<le> 1000"
  by (auto simp: max_keys_def Let_def split: if_splits option.splits)

lemma page_segment:
  assumes "list_objects_v2 b q s = (Inr r, s')" "store_inv s" "ascii (q ''prefix'')"
    and "start_key q = Some a" "S = all_after b (q ''prefix'') a (objects s)"
  shows "\<exists>m \<le> length S.
    lr_contents r = filter (\<lambda>ob. group_of (q ''prefix'') (q ''delimiter'') (o_key ob) = None) (take m S) \<and>
    distinct (lr_prefixes r) \<and>
    set (lr_prefixes r) = (\<Union>ob\<in>set (take m S). set_option (group_of (q ''prefix'') (q ''delimiter'') (o_key ob))) \<and>
    lr_key_count r \<le> lr_max r \<and>
    (lr_truncated r \<longrightarrow> 0 < m \<and> m < length S \<and> lr_key_count r = lr_max r \<and>
       raw_url_decode (lr_next r) = Some (bytes_of (o_key (S ! (m - 1))))) \<and>
    (\<not> lr_truncated r \<and> faults s = [] \<and> lr_max r \<noteq> 0 \<longrightarrow> m = length S) \<and>
    (faults s = [] \<longrightarrow> s' = s)"
proof -
  obtain start mk s1 where x: "start_key q = Some start" "max_keys q = Some mk" "tables s1 = tables s"
    "faults s = [] \<Longrightarrow> s1 = s" "lr_max r = mk" "mk = 0 \<Longrightarrow> r = resp_init b q 0 \<and> s' = s1"
    "mk \<noteq> 0 \<Longrightarrow> \<exists>st trunc. list_loop b (q ''prefix'') (q ''delimiter'') mk (lstate_init start) s1
        = (Inr (trunc, st), s') \<and> lr_contents r = l_contents st \<and> lr_prefixes r = l_prefixes st \<and>
        lr_truncated r = trunc \<and> (trunc \<longrightarrow> lr_next r = raw_url_encode (bytes_of (l_last st)))"
    using list_objects_v2_Inr [OF assms(1)] by blast
  have a: "start = a" using x(1) assms(4) by simp
  show ?thesis
  proof (cases "mk = 0")
    case True
    then show ?thesis using x(4-6) by (intro exI [of _ 0]) (simp add: resp_init_def lr_key_count_def)
  next
    case False
    let ?p = "q ''prefix''" let ?d = "q ''delimiter''"
    obtain st trunc where L: "list_loop b ?p ?d mk (lstate_init a) s1 = (Inr (trunc, st), s')"
      "lr_contents r = l_contents st" "lr_prefixes r = l_prefixes st" "lr_truncated r = trunc"
      "trunc \<longrightarrow> lr_next r = raw_url_encode (bytes_of (l_last st))"
      using x(7) [OF False] a by blast
    have inv1: "store_inv s1" using assms(2) tables_find(5) [OF x(3)] by simp
    have mk: "0 < mk" "mk < 2 ^ 62" using max_keys_range [OF x(2)] False by auto
    have "loop_post b ?p ?d mk (lstate_init a) s1 (trunc, st) s'"
      by (rule list_loop_post [OF L(1) inv1 assms(3)]) (use mk in \<open>simp_all add: lstate_init_def\<close>)
    moreover have "all_after b ?p (l_cursor (lstate_init a)) (objects s1) = S"
      using x(3) assms(5) by (simp add: lstate_init_def tables_def)
    ultimately obtain m where m: "m \<le> length S" "st = absorb ?p ?d (take m S) (lstate_init a)"
      "l_emitted st \<le> mk"
      "trunc \<longrightarrow> 0 < m \<and> m < length S \<and> l_emitted st = mk \<and> l_last st = o_key (S ! (m - 1))"
      "\<not> trunc \<and> faults s1 = [] \<longrightarrow> m = length S"
      unfolding loop_post_def Let_def by auto
    have init: "prefixes_ok (lstate_init a)" by (simp add: prefixes_ok_def lstate_init_def)
    have pre: "prefixes_ok st" "set (l_prefixes st) = (\<Union>ob\<in>set (take m S). set_option (group_of ?p ?d (o_key ob)))"
      using absorb_prefixes [OF init, of ?p ?d "take m S"] m(2) by (auto simp: lstate_init_def)
    have cnt: "lr_key_count r = l_emitted st"
      using pre(1) L(2,3) by (simp add: lr_key_count_def prefixes_ok_def)
    have same: "faults s = [] \<longrightarrow> s' = s"
      using list_loop_faults [of s1 b ?p ?d mk "lstate_init a"] L(1) x(4) by auto
    have con: "lr_contents r = filter (\<lambda>ob. group_of ?p ?d (o_key ob) = None) (take m S)"
      using L(2) m(2) by (simp add: absorb_contents lstate_init_def)
    show ?thesis
      using m con pre L(3-5) cnt same x(4,5) b64url.dec_enc
      by (intro exI [of _ m]) (auto simp: prefixes_ok_def)
  qed
qed

end
