(* ===== verification/ListingWalk.thy ===== *)
theory ListingWalk
  imports ListingProperties
begin

text \<open>
  A client that follows continuation tokens, and the properties of the listing and of the
  metadata operations it rests on.
\<close>

section \<open>Following the continuation tokens\<close>

text \<open>The client stops when a page is not truncated; the fuel is the number of requests.\<close>

fun list_walk :: "nat \<Rightarrow> string \<Rightarrow> (string \<Rightarrow> string) \<Rightarrow> store \<Rightarrow> (object list \<times> string list) option" where
  "list_walk 0 b q s = None"
| "list_walk (Suc fuel) b q s = (case list_objects_v2 b q s of
       (Inl e, s') \<Rightarrow> None
     | (Inr r, s') \<Rightarrow>
         if lr_truncated r
         then map_option (\<lambda>(os, ps). (lr_contents r @ os, lr_prefixes r @ ps))
                (list_walk fuel b (q(''continuation-token'' := lr_next r)) s')
         else Some (lr_contents r, lr_prefixes r))"

lemma raw_url_encode_ne: "bs \<noteq> [] \<Longrightarrow> raw_url_encode bs \<noteq> []"
  using b64url.enc_inject [of bs "[]"] by (auto simp: raw_url_encode_def b64_body_def)

text \<open>A request of a walk: what stays the same from page to page.\<close>

definition walk_ok :: "string \<Rightarrow> (string \<Rightarrow> string) \<Rightarrow> store \<Rightarrow> bool" where
  "walk_ok b q s \<longleftrightarrow> q ''list-type'' = ''2'' \<and> (\<exists>mk. max_keys q = Some mk \<and> 0 < mk) \<and>
     ascii (q ''prefix'') \<and> faults s = [] \<and> find_bucket b s \<noteq> None \<and> store_inv s"

lemma walk_ok_token: "walk_ok b q s \<Longrightarrow> walk_ok b (q(''continuation-token'' := t)) s"
  by (simp add: walk_ok_def max_keys_def)

lemma list_objects_v2_ok:
  assumes "walk_ok b q s" "start_key q = Some a"
  shows "\<exists>r. list_objects_v2 b q s = (Inr r, s) \<and> lr_max r \<noteq> 0"
proof -
  obtain mk bk where q: "q ''list-type'' = ''2''" "max_keys q = Some mk" "0 < mk"
    "faults s = []" "find_bucket b s = Some bk" using assms(1) by (auto simp: walk_ok_def)
  have "get_bucket b s = (Inr bk, s)" using q by (simp add: get_bucket_def ebind_def)
  moreover obtain r where "list_loop b (q ''prefix'') (q ''delimiter'') mk (lstate_init a) s = (Inr r, s)"
    using list_loop_faults [OF q(4)] by blast
  ultimately show ?thesis
    using q assms(2)
    by (cases r) (simp add: list_objects_v2_def resp_init_def flip: lstate_init_def)
qed

lemma list_walk_all:
  assumes "walk_ok b q s" "start_key q = Some a" "S = all_after b (q ''prefix'') a (objects s)"
    "length S < fuel"
  shows "\<exists>ps. list_walk fuel b q s =
      Some (filter (\<lambda>ob. group_of (q ''prefix'') (q ''delimiter'') (o_key ob) = None) S, ps) \<and>
    set ps = (\<Union>ob\<in>set S. set_option (group_of (q ''prefix'') (q ''delimiter'') (o_key ob)))"
  using assms
proof (induction fuel arbitrary: q a S)
  case (Suc fuel)
  let ?g = "\<lambda>ob. group_of (q ''prefix'') (q ''delimiter'') (o_key ob)"
  have inv: "store_inv s" "ascii (q ''prefix'')" "faults s = []"
    using Suc.prems(1) by (auto simp: walk_ok_def)
  obtain r where r: "list_objects_v2 b q s = (Inr r, s)" "lr_max r \<noteq> 0"
    using list_objects_v2_ok [OF Suc.prems(1,2)] by blast
  from page_segment [OF r(1) inv(1,2) Suc.prems(2,3)] obtain m where m: "m \<le> length S"
    "lr_contents r = filter (\<lambda>ob. ?g ob = None) (take m S)"
    "set (lr_prefixes r) = (\<Union>ob\<in>set (take m S). set_option (?g ob))"
    "lr_truncated r \<longrightarrow> 0 < m \<and> m < length S \<and>
       raw_url_decode (lr_next r) = Some (bytes_of (o_key (S ! (m - 1))))"
    "\<not> lr_truncated r \<longrightarrow> m = length S"
    using r(2) inv(3) by blast
  show ?case
  proof (cases "lr_truncated r")
    case False
    then show ?thesis using m r by simp
  next
    case True
    define k where "k = o_key (S ! (m - 1))"
    define q' where "q' = q(''continuation-token'' := lr_next r)"
    have mS: "0 < m" "m < length S" and dec: "raw_url_decode (lr_next r) = Some (bytes_of k)"
      using m(4) True by (simp_all add: k_def)
    have "S ! (m - 1) \<in> set S" by (rule nth_mem) (use mS in simp)
    then have "a < k" unfolding Suc.prems(3) set_all_after by (simp add: matches_def k_def Suc.prems(3))
    then have "k \<noteq> []" by auto
    have "lr_next r \<noteq> []"
    proof
      assume "lr_next r = []"
      then have "bytes_of k = []"
        using dec by (simp add: raw_url_decode_def b64_unbody_def)
      then show False using \<open>k \<noteq> []\<close> by (simp add: bytes_of_def)
    qed
    then have sk: "start_key q' = Some k" using dec by (simp add: start_key_def q'_def Let_def)
    have qq: "q' ''prefix'' = q ''prefix''" "q' ''delimiter'' = q ''delimiter''"
      by (simp_all add: q'_def)
    have rest: "all_after b (q' ''prefix'') k (objects s) = drop m S"
      unfolding qq k_def Suc.prems(3)
      by (rule all_after_cut) (use inv(1) mS Suc.prems(3) in \<open>simp_all add: store_inv_def\<close>)
    obtain ps where ps: "list_walk fuel b q' s = Some (filter (\<lambda>ob. ?g ob = None) (drop m S), ps)"
      "set ps = (\<Union>ob\<in>set (drop m S). set_option (?g ob))"
    proof -
      have ok: "walk_ok b q' s" unfolding q'_def by (rule walk_ok_token [OF Suc.prems(1)])
      have "length (drop m S) < fuel" using mS Suc.prems(4) by simp
      from Suc.IH [OF ok sk rest [symmetric] this] that show ?thesis unfolding qq by blast
    qed
    have "filter (\<lambda>ob. ?g ob = None) S = lr_contents r @ filter (\<lambda>ob. ?g ob = None) (drop m S)"
      unfolding m(2) filter_append [symmetric] by simp
    moreover have "(\<Union>ob\<in>set S. set_option (?g ob)) = set (lr_prefixes r) \<union> set ps"
    proof -
      have "set S = set (take m S) \<union> set (drop m S)"
        by (metis append_take_drop_id set_append)
      then show ?thesis using m(3) ps(2) by (simp add: UN_Un)
    qed
    ultimately show ?thesis using r True ps(1) by (auto simp: q'_def)
  qed
qed simp

section \<open>Pages of one entry\<close>

lemma one_group_loop:
  assumes "faults s = []" "store_inv s" "ascii p" "all_after b p a (objects s) = ob # rest"
    and "group_of p d (o_key ob) = Some g"
  shows "\<exists>st trunc. list_loop b p d 1 (lstate_init a) s = (Inr (trunc, st), s) \<and>
    l_prefixes st = [g] \<and> l_last st = o_key ob \<and> (rest \<noteq> [] \<longrightarrow> trunc)"
proof -
  obtain page trunc where lo: "list_objects b p a 1 s = (Inr (page, trunc), s)"
    using list_objects_faults [OF assms(1)] by blast
  have page: "page = [ob]" "trunc \<longleftrightarrow> rest \<noteq> []"
    using list_objects_Inr [OF lo assms(3)] assms(4) by auto
  obtain mo where kh: "key_has_more_after b p (o_key ob) s = (mo, s)"
    using list_objects_faults [OF assms(1), of b p "o_key ob" 1] by (auto simp: key_has_more_after_def)
  show ?thesis
    using lo page kh assms(5)
    by (subst list_loop.simps) (auto simp: lstate_init_def split: bool.split)
qed

lemma one_group_page:
  assumes "walk_ok b q s" "start_key q = Some a" "max_keys q = Some 1"
    and "all_after b (q ''prefix'') a (objects s) = ob # rest"
    and "group_of (q ''prefix'') (q ''delimiter'') (o_key ob) = Some g"
  shows "\<exists>r. list_objects_v2 b q s = (Inr r, s) \<and> lr_prefixes r = [g] \<and>
    (rest \<noteq> [] \<longrightarrow> lr_truncated r \<and> lr_next r = raw_url_encode (bytes_of (o_key ob)))"
proof -
  obtain bk where w: "q ''list-type'' = ''2''" "faults s = []" "find_bucket b s = Some bk"
    "store_inv s" "ascii (q ''prefix'')" using assms(1) by (auto simp: walk_ok_def)
  have gb: "get_bucket b s = (Inr bk, s)" using w by (simp add: get_bucket_def ebind_def)
  obtain st trunc where L: "list_loop b (q ''prefix'') (q ''delimiter'') 1 (lstate_init a) s = (Inr (trunc, st), s)"
    "l_prefixes st = [g]" "l_last st = o_key ob" "rest \<noteq> [] \<longrightarrow> trunc"
    using one_group_loop [OF w(2,4,5) assms(4,5)] by blast
  show ?thesis
    using w(1) gb assms(2,3) L by (simp add: list_objects_v2_def resp_init_def flip: lstate_init_def)
qed

section \<open>A concrete store for the witnesses\<close>

definition obj_of :: "string \<Rightarrow> string \<Rightarrow> object" where
  "obj_of b k = \<lparr>o_bucket = b, o_key = k, o_size = 3, o_ctsize = 36, o_etag = ''e'', o_ctype = [],
     o_msg = 7, o_file = ''f'', o_nonce = [], o_created = 1\<rparr>"

definition demo_store :: store where
  "demo_store = \<lparr>buckets = [\<lparr>b_name = ''b'', b_created = 1, b_enckey = ''k''\<rparr>],
     objects = map (obj_of ''b'') [''d/2'', ''a'', ''d/1'', ''c''],
     uploads = [], parts = [], faults = []\<rparr>"

definition demo_query :: "string \<Rightarrow> string" where
  "demo_query = (\<lambda>_. [])(''list-type'' := ''2'', ''delimiter'' := ''/'', ''max-keys'' := ''2'')"

lemma demo_store_inv [simp]: "store_inv demo_store"
  by (simp add: store_inv_def t_inv_def demo_store_def obj_of_def obj_id_def)

lemma demo_faults [simp]: "faults demo_store = []"
  by (simp add: demo_store_def)

lemma demo_walk_ok [simp]: "walk_ok ''b'' demo_query demo_store"
proof -
  have "max_keys demo_query = Some 2"
    by code_simp
  moreover have "find_bucket ''b'' demo_store \<noteq> None"
    by (simp add: find_bucket_def t_find_def demo_store_def)
  moreover have "demo_query ''list-type'' = ''2''" "ascii (demo_query ''prefix'')"
    by (simp_all add: demo_query_def ascii_def)
  ultimately show ?thesis by (simp add: walk_ok_def)
qed

lemma demo_start [simp]: "start_key demo_query = Some []"
  by (simp add: start_key_def demo_query_def)

section \<open>Properties\<close>



text \<open>
  One page.  Whatever the delimiter and even when database statements fail, a successful
  response is computed from an initial segment of the matching keys in order: its contents
  are those without a group, its common prefixes the distinct groups of the others, together
  at most \<^verbatim>\<open>max-keys\<close>.  It is marked truncated only when matching keys are left and the page
  is full, and its token is the last key of the segment; without failures an untruncated
  page is the whole rest.
\<close>

theorem listing_page_segment:
  assumes "list_objects_v2 b q s = (Inr r, s')" "store_inv s" "ascii (q ''prefix'')"
    and "start_key q = Some a" "S = all_after b (q ''prefix'') a (objects s)"
  shows "\<exists>m \<le> length S.
    lr_contents r = filter (\<lambda>ob. group_of (q ''prefix'') (q ''delimiter'') (o_key ob) = None) (take m S) \<and>
    distinct (lr_prefixes r) \<and>
    set (lr_prefixes r) = (\<Union>ob\<in>set (take m S). set_option (group_of (q ''prefix'') (q ''delimiter'') (o_key ob))) \<and>
    lr_key_count r \<le> lr_max r \<and>
    (lr_truncated r \<longrightarrow> 0 < m \<and> m < length S \<and> lr_key_count r = lr_max r \<and>
       raw_url_decode (lr_next r) = Some (bytes_of (o_key (S ! (m - 1))))) \<and>
    (\<not> lr_truncated r \<and> faults s = [] \<and> lr_max r \<noteq> 0 \<longrightarrow> m = length S)"
  using page_segment [OF assms] by blast

theorem listing_page_segment_witness:
  "\<exists>r. list_objects_v2 ''b'' demo_query demo_store = (Inr r, demo_store) \<and> lr_key_count r \<le> lr_max r"
proof -
  obtain r where r: "list_objects_v2 ''b'' demo_query demo_store = (Inr r, demo_store)"
    using list_objects_v2_ok [OF demo_walk_ok demo_start] by blast
  have "ascii (demo_query ''prefix'')" by (simp add: demo_query_def ascii_def)
  from listing_page_segment [OF r demo_store_inv this demo_start refl] show ?thesis using r by blast
qed

text \<open>
  A common prefix is reported again on the next page.  When the page fills with a common
  prefix whose group has further keys, the continuation token is the first key of the group,
  so the next page starts inside the group and begins with the same common prefix.
\<close>

theorem common_prefix_repeated:
  assumes "walk_ok b q s" "start_key q = Some a" "max_keys q = Some 1"
    and "all_after b (q ''prefix'') a (objects s) = o1 # o2 # rest"
    and "group_of (q ''prefix'') (q ''delimiter'') (o_key o1) = Some g"
    and "group_of (q ''prefix'') (q ''delimiter'') (o_key o2) = Some g"
  shows "\<exists>r1 r2. list_objects_v2 b q s = (Inr r1, s) \<and> lr_prefixes r1 = [g] \<and> lr_truncated r1 \<and>
    list_objects_v2 b (q(''continuation-token'' := lr_next r1)) s = (Inr r2, s) \<and> lr_prefixes r2 = [g]"
proof -
  have ok: "walk_ok b (q(''continuation-token'' := t)) s" for t
    using walk_ok_token [OF assms(1)] .
  have s: "store_inv s" using assms(1) by (simp add: walk_ok_def)
  from one_group_page [OF assms(1-3) assms(4,5)] obtain r1 where
    r1: "list_objects_v2 b q s = (Inr r1, s)" "lr_prefixes r1 = [g]" "lr_truncated r1"
      "lr_next r1 = raw_url_encode (bytes_of (o_key o1))" by auto
  have "o1 \<in> set (all_after b (q ''prefix'') a (objects s))" using assms(4) by simp
  then have "a < o_key o1" unfolding set_all_after by (simp add: matches_def)
  then have "bytes_of (o_key o1) \<noteq> []" by (auto simp: bytes_of_def)
  then have tok: "lr_next r1 \<noteq> []" using r1(4) raw_url_encode_ne by simp
  let ?q = "q(''continuation-token'' := lr_next r1)"
  have st: "start_key ?q = Some (o_key o1)"
    using tok r1(4) b64url.dec_enc by (simp add: start_key_def Let_def)
  have mk: "max_keys ?q = Some 1" using assms(3) by (simp add: max_keys_def)
  have "all_after b (?q ''prefix'') (o_key o1) (objects s) = o2 # rest"
    using all_after_cut [of "objects s" 1 b "q ''prefix''" a] s assms(4) by (simp add: store_inv_def)
  moreover have "group_of (?q ''prefix'') (?q ''delimiter'') (o_key o2) = Some g"
    using assms(6) by simp
  ultimately obtain r2 where "list_objects_v2 b ?q s = (Inr r2, s)" "lr_prefixes r2 = [g]"
    using one_group_page [OF ok st mk] by blast
  with r1 show ?thesis by blast
qed

theorem common_prefix_repeated_witness:
  "\<exists>r1 r2. list_objects_v2 ''b'' (demo_query(''start-after'' := ''c'', ''max-keys'' := ''1'')) demo_store
        = (Inr r1, demo_store) \<and> lr_prefixes r1 = [''d/''] \<and> lr_truncated r1 \<and>
     list_objects_v2 ''b'' (demo_query(''start-after'' := ''c'', ''max-keys'' := ''1'',
         ''continuation-token'' := lr_next r1)) demo_store = (Inr r2, demo_store) \<and>
     lr_prefixes r2 = [''d/'']"
proof -
  let ?q = "demo_query(''start-after'' := ''c'', ''max-keys'' := ''1'')"
  have mk: "max_keys ?q = Some 1" by code_simp
  have ok: "walk_ok ''b'' ?q demo_store"
    using demo_walk_ok mk by (simp add: walk_ok_def demo_query_def)
  have st: "start_key ?q = Some ''c''" by (simp add: start_key_def demo_query_def)
  have S: "all_after ''b'' (?q ''prefix'') ''c'' (objects demo_store) =
      obj_of ''b'' ''d/1'' # obj_of ''b'' ''d/2'' # []" by code_simp
  have g: "group_of (?q ''prefix'') (?q ''delimiter'') (o_key (obj_of ''b'' ''d/1'')) = Some ''d/''"
    "group_of (?q ''prefix'') (?q ''delimiter'') (o_key (obj_of ''b'' ''d/2'')) = Some ''d/''"
    by code_simp+
  from common_prefix_repeated [OF ok st mk S g] show ?thesis .
qed



text \<open>
  The primary keys hold in every reachable store: after any sequence of writes, failing
  or not, no two buckets, objects, uploads or parts have the same key.
\<close>

theorem writes_keep_primary_keys:
  assumes "store_inv s"
  shows "store_inv (run_writes ws s)"
  using assms unfolding run_writes_def
  by (induction ws arbitrary: s) (auto intro: run_write_inv)

theorem writes_keep_primary_keys_witness:
  "store_inv (run_writes [(1, CreateBucket ''b'' ''k''), (2, PutObject (obj_of ''b'' ''x'')),
     (3, PutObject (obj_of ''b'' ''x'')), (4, CreateBucket ''b'' ''k'')] empty_store)"
  using writes_keep_primary_keys [of empty_store]
  by (simp add: store_inv_def t_inv_def empty_store_def)

text \<open>
  A bucket is deleted only when it is empty.  A successful \<^verbatim>\<open>DeleteBucket\<close> found the
  bucket, found no object in it, removed that row and no other, and left no object of the
  bucket behind.
\<close>

theorem delete_bucket_only_empty:
  assumes "delete_bucket n s = (Inr u, s')" "store_inv s"
  shows "find_bucket n s \<noteq> None \<and> find_bucket n s' = None \<and>
    (\<forall>m. m \<noteq> n \<longrightarrow> find_bucket m s' = find_bucket m s) \<and> objects s' = objects s \<and>
    (\<forall>ob\<in>set (objects s'). o_bucket ob \<noteq> n)"
proof -
  note d = delete_bucket_Inr [OF assms(1)]
  then have t: "tables s' = tables (del_bucket_row n s)" by simp
  have "find_bucket m s' = find_bucket m (del_bucket_row n s)" for m
    using tables_find(1) [OF t] .
  moreover have "objects s' = objects s" using t by (simp add: tables_def del_bucket_row_def)
  moreover have "\<forall>ob\<in>set (objects s). o_bucket ob \<noteq> n"
    using d by (auto simp: bucket_count_def filter_empty_conv)
  ultimately show ?thesis using d by (simp add: bkt.lookup_del)
qed

theorem delete_bucket_only_empty_witness:
  "\<exists>s'. delete_bucket ''b'' (demo_store\<lparr>objects := []\<rparr>) = (Inr (), s') \<and> find_bucket ''b'' s' = None"
proof -
  let ?s = "demo_store\<lparr>objects := []\<rparr>"
  have r: "delete_bucket ''b'' ?s = (Inr (), del_bucket_row ''b'' ?s)"
    by (simp add: delete_bucket_def ebind_def bucket_count_def find_bucket_def t_find_def demo_store_def)
  have "store_inv ?s" using demo_store_inv by (simp add: store_inv_def t_inv_def)
  from delete_bucket_only_empty [OF r this] r show ?thesis by blast
qed

text \<open>
  Prefixes beyond ASCII.  \<^verbatim>\<open>ListObjects\<close> passes the byte length of the prefix to SQLite's
  \<^verbatim>\<open>substr\<close>, which counts characters: for the two-byte prefix \<^verbatim>\<open>e-acute\<close> no key that
  continues with an ASCII character is ever returned, although it has the prefix.
\<close>

theorem non_ascii_prefix_misses_keys:
  assumes "list_objects b [CHR 0xC3, CHR 0xA9] a n s = (Inr (page, trunc), s')"
    and "ob \<in> set page" "o_key ob = CHR 0xC3 # CHR 0xA9 # c # rest"
  shows "128 \<le> (of_char c :: nat)"
proof (rule ccontr)
  assume c: "\<not> 128 \<le> (of_char c :: nat)"
  obtain k m where "page = take m (select_objects b [CHR 0xC3, CHR 0xA9] a k s)"
    using list_objects_select [OF assms(1)] by blast
  then have "ob \<in> set (select_objects b [CHR 0xC3, CHR 0xA9] a k s)" using assms(2) by (auto dest: in_set_takeD)
  then have "sql_substr (o_key ob) 2 = [CHR 0xC3, CHR 0xA9]"
    by (auto simp: select_objects_def sql_limit_def numeral_2_eq_2 split: if_splits dest!: in_set_takeD)
  moreover have "sql_substr (o_key ob) 2 = [CHR 0xC3, CHR 0xA9, c]"
    using c assms(3) by (simp add: numeral_2_eq_2 is_cont_def)
  ultimately show False by simp
qed

theorem non_ascii_prefix_misses_keys_witness:
  "\<exists>page trunc s'. list_objects ''b'' [CHR 0xC3, CHR 0xA9] [] 10
      (demo_store\<lparr>objects := [obj_of ''b'' [CHR 0xC3, CHR 0xA9, CHR ''a'']]\<rparr>) = (Inr (page, trunc), s') \<and>
      obj_of ''b'' [CHR 0xC3, CHR 0xA9, CHR ''a''] \<notin> set page"
proof -
  let ?s = "demo_store\<lparr>objects := [obj_of ''b'' [CHR 0xC3, CHR 0xA9, CHR ''a'']]\<rparr>"
  have "faults ?s = []" by simp
  from list_objects_faults [OF this] obtain page trunc where
    r: "list_objects ''b'' [CHR 0xC3, CHR 0xA9] [] 10 ?s = (Inr (page, trunc), ?s)" by blast
  have "obj_of ''b'' [CHR 0xC3, CHR 0xA9, CHR ''a''] \<notin> set page"
    using non_ascii_prefix_misses_keys [OF r, of "obj_of ''b'' [CHR 0xC3, CHR 0xA9, CHR ''a'']" "CHR ''a''" "[]"]
    by (auto simp: obj_of_def)
  with r show ?thesis by blast
qed

end
