(* ===== verification/SigProperties.thy ===== *)
theory SigProperties
  imports SigVerify
begin

text \<open>
  Properties of the signature verification: soundness, completeness for a client that signs
  as documented, binding of the signature to the request, the normal form of the canonical
  query, and the arithmetic of presigned lifetimes.
\<close>

section \<open>A client's Authorization header\<close>

definition print_auth :: "auth_header \<Rightarrow> string" where
  "print_auth a = algorithm @ '' '' @ join_with '',''
     [''Credential='' @ join_with ''/'' [a_key a, a_date a, a_region a, a_service a, request_kind],
      '' SignedHeaders='' @ join_with '';'' (a_signed a),
      '' Signature='' @ a_sig a]"

text \<open>Text without the separators of the header and without spaces.\<close>

definition plain_text :: "string \<Rightarrow> bool" where
  "plain_text s \<longleftrightarrow> (\<forall>c\<in>set s. \<not> is_space c \<and> c \<noteq> CHR '','' \<and> c \<noteq> CHR '';'')"

definition wf_auth :: "auth_header \<Rightarrow> bool" where
  "wf_auth a \<longleftrightarrow> a_key a \<noteq> [] \<and> a_region a \<noteq> [] \<and> a_service a \<noteq> [] \<and> a_signed a \<noteq> [] \<and> a_sig a \<noteq> [] \<and>
     plain_text (a_key a) \<and> plain_text (a_date a) \<and> plain_text (a_region a) \<and> plain_text (a_service a) \<and>
     plain_text (a_sig a) \<and> (\<forall>h\<in>set (a_signed a). plain_text h) \<and>
     CHR ''/'' \<notin> set (a_date a) \<union> set (a_region a) \<union> set (a_service a) \<and> parse_date (a_date a) \<noteq> None"

lemma trim_space_plain: "(\<forall>c\<in>set s. \<not> is_space c) \<Longrightarrow> trim_space s = s"
proof -
  assume ns: "\<forall>c\<in>set s. \<not> is_space c"
  have "dropWhile is_space t = t" if "\<forall>c\<in>set t. \<not> is_space c" for t
    using that by (cases t) auto
  from this [of s] this [of "rev s"] show ?thesis using ns by (simp add: trim_space_def)
qed

lemma trim_space_blank: "(\<forall>c\<in>set s. \<not> is_space c) \<Longrightarrow> trim_space (CHR '' '' # s) = s"
  using trim_space_plain [of s] by (simp add: trim_space_def is_space_def)

lemma join_chars: "c \<in> set (join_with d ps) \<Longrightarrow> c \<in> set d \<or> (\<exists>p\<in>set ps. c \<in> set p)"
  by (induction d ps rule: join_with.induct) auto

lemma plain_join:
  assumes "plain_text d" "\<forall>p\<in>set ps. plain_text p"
  shows "plain_text (join_with d ps)"
  unfolding plain_text_def
proof
  fix c assume "c \<in> set (join_with d ps)"
  then consider "c \<in> set d" | p where "p \<in> set ps" "c \<in> set p" using join_chars by blast
  then show "\<not> is_space c \<and> c \<noteq> CHR '','' \<and> c \<noteq> CHR '';''"
    using assms by cases (auto simp: plain_text_def)
qed

lemma plain_constants: "plain_text ''/''" "plain_text request_kind" "CHR ''/'' \<notin> set request_kind"
  by (simp_all add: plain_text_def is_space_def request_kind_def)

lemma wf_auth_plain:
  assumes "wf_auth a"
  shows "plain_text (a_key a)" "plain_text (a_date a)" "plain_text (a_region a)"
    "plain_text (a_service a)" "plain_text (a_sig a)" "\<forall>h\<in>set (a_signed a). plain_text h"
    "CHR ''/'' \<notin> set (a_date a)" "CHR ''/'' \<notin> set (a_region a)" "CHR ''/'' \<notin> set (a_service a)"
  using assms unfolding wf_auth_def by blast+

lemma parse_auth_print_fields:
  assumes "wf_auth a"
  shows "split_on CHR '','' (trim_prefix (print_auth a) (algorithm @ '' '')) =
    [''Credential='' @ join_with ''/'' [a_key a, a_date a, a_region a, a_service a, request_kind],
      '' SignedHeaders='' @ join_with '';'' (a_signed a), '' Signature='' @ a_sig a]" (is "_ = ?ps")
    and "trim_space (''Credential='' @ join_with ''/'' [a_key a, a_date a, a_region a, a_service a, request_kind])
      = ''Credential='' @ join_with ''/'' [a_key a, a_date a, a_region a, a_service a, request_kind]"
    and "trim_space ('' SignedHeaders='' @ join_with '';'' (a_signed a)) = ''SignedHeaders='' @ join_with '';'' (a_signed a)"
    and "trim_space ('' Signature='' @ a_sig a) = ''Signature='' @ a_sig a"
proof -
  have cred: "plain_text (join_with ''/'' [a_key a, a_date a, a_region a, a_service a, request_kind])"
    by (rule plain_join) (simp_all add: plain_constants wf_auth_plain [OF assms])
  have sh: "\<forall>c\<in>set (join_with '';'' (a_signed a)). \<not> is_space c \<and> c \<noteq> CHR '',''"
  proof
    fix c assume "c \<in> set (join_with '';'' (a_signed a))"
    then have "c = CHR '';'' \<or> (\<exists>h\<in>set (a_signed a). c \<in> set h)" using join_chars by fastforce
    then show "\<not> is_space c \<and> c \<noteq> CHR '',''"
    proof (elim disjE bexE)
      fix h assume "h \<in> set (a_signed a)" "c \<in> set h"
      then show ?thesis using wf_auth_plain(6) [OF assms] unfolding plain_text_def by blast
    qed (simp add: is_space_def)
  qed
  have sig: "plain_text (a_sig a)" using assms by (simp add: wf_auth_def)
  have "\<forall>p\<in>set ?ps. CHR '','' \<notin> set p" using cred sh sig by (auto simp: plain_text_def)
  then have "split_on CHR '','' (join_with '','' ?ps) = ?ps" by (intro split_join) auto
  moreover have "trim_prefix (print_auth a) (algorithm @ '' '') = join_with '','' ?ps"
    using trim_prefix_append [of "algorithm @ '' ''" "join_with '','' ?ps"] by (simp add: print_auth_def)
  ultimately show "split_on CHR '','' (trim_prefix (print_auth a) (algorithm @ '' '')) = ?ps" by simp
  show "trim_space (''Credential='' @ join_with ''/'' [a_key a, a_date a, a_region a, a_service a, request_kind])
      = ''Credential='' @ join_with ''/'' [a_key a, a_date a, a_region a, a_service a, request_kind]"
    by (rule trim_space_plain) (use cred in \<open>auto simp: plain_text_def is_space_def\<close>)
  have "trim_space (CHR '' '' # (''SignedHeaders='' @ join_with '';'' (a_signed a))) = ''SignedHeaders='' @ join_with '';'' (a_signed a)"
    by (rule trim_space_blank) (use sh in \<open>auto simp: is_space_def\<close>)
  then show "trim_space ('' SignedHeaders='' @ join_with '';'' (a_signed a)) = ''SignedHeaders='' @ join_with '';'' (a_signed a)"
    by simp
  have "trim_space (CHR '' '' # (''Signature='' @ a_sig a)) = ''Signature='' @ a_sig a"
    by (rule trim_space_blank) (use sig in \<open>auto simp: plain_text_def is_space_def\<close>)
  then show "trim_space ('' Signature='' @ a_sig a) = ''Signature='' @ a_sig a" by simp
qed

lemma prefix_of_auth: "has_prefix (print_auth a) (algorithm @ '' '')"
  unfolding print_auth_def has_prefix_iff by (rule exI) (rule append_assoc [symmetric])

lemma parse_print_auth:
  assumes "wf_auth a" "CHR ''/'' \<notin> set (a_key a)"
  shows "parse_auth_header (print_auth a) = Inr a"
proof -
  note f = parse_auth_print_fields [OF assms(1)]
  have cs: "split_on CHR ''/'' (join_with ''/'' [a_key a, a_date a, a_region a, a_service a, request_kind])
      = [a_key a, a_date a, a_region a, a_service a, request_kind]"
    by (rule split_join) (simp_all add: assms(2) plain_constants wf_auth_plain [OF assms(1)])
  have "a_signed a \<noteq> []" using assms(1) by (simp add: wf_auth_def)
  moreover have "\<forall>h\<in>set (a_signed a). CHR '';'' \<notin> set h"
    using wf_auth_plain(6) [OF assms(1)] unfolding plain_text_def by blast
  ultimately have sh: "split_on CHR '';'' (join_with '';'' (a_signed a)) = a_signed a"
    by (intro split_join)
  have p: "has_prefix (''SignedHeaders='' @ x) ''Credential='' = False"
    "has_prefix (''Signature='' @ x) ''Credential='' = False"
    "has_prefix (''Signature='' @ x) ''SignedHeaders='' = False" for x
    by (simp_all add: has_prefix_def)
  have 1: "auth_field (''Credential='' @ join_with ''/'' [a_key a, a_date a, a_region a, a_service a, request_kind]) empty_auth
      = Inr (empty_auth\<lparr>a_key := a_key a, a_date := a_date a, a_region := a_region a, a_service := a_service a\<rparr>)"
    by (simp only: auth_field_def Let_def f(2) has_prefix_append trim_prefix_append cs list.case
        not_True_eq_False simp_thms if_True if_False)
  have 2: "auth_field ('' SignedHeaders='' @ join_with '';'' (a_signed a)) out = Inr (out\<lparr>a_signed := a_signed a\<rparr>)" for out
    by (simp only: auth_field_def Let_def f(3) p has_prefix_append trim_prefix_append sh if_True if_False)
  have 3: "auth_field ('' Signature='' @ a_sig a) out = Inr (out\<lparr>a_sig := a_sig a\<rparr>)" for out
    by (simp only: auth_field_def Let_def f(4) p has_prefix_append trim_prefix_append if_True if_False)
  have "auth_fields (split_on CHR '','' (trim_prefix (print_auth a) (algorithm @ '' ''))) empty_auth = Inr a"
    unfolding f(1) auth_fields.simps 1 2 3 sum.case by (cases a) (simp add: empty_auth_def)
  moreover have "a_date a \<noteq> []" using assms(1) by (auto simp: wf_auth_def parse_date_def parse_ymd_def take_digits_def)
  ultimately show ?thesis
    using assms(1) prefix_of_auth [of a] by (simp add: parse_auth_header_def wf_auth_def)
qed

lemma length_split_on: "length (split_on d s) = Suc (count_list s d)"
proof (induction s)
  case (Cons c s)
  obtain p ps where "split_on d s = p # ps" by (cases "split_on d s") auto
  with Cons show ?case by auto
qed simp

lemma parse_print_slash:
  assumes "wf_auth a" "CHR ''/'' \<in> set (a_key a)"
  shows "parse_auth_header (print_auth a) = Inl ErrMalformedAuth"
proof -
  note f = parse_auth_print_fields [OF assms(1)]
  let ?c = "join_with ''/'' [a_key a, a_date a, a_region a, a_service a, request_kind]"
  have "0 < count_list (a_key a) CHR ''/''"
    using assms(2) by (metis count_list_0_iff gr0I)
  then have "length (split_on CHR ''/'' ?c) > 5" by (simp add: length_split_on)
  then have cs: "(case split_on CHR ''/'' ?c of
           [k, d, rg, sv, kind] \<Rightarrow>
             if kind \<noteq> request_kind then Inl ErrMalformedAuth
             else Inr (empty_auth\<lparr>a_key := k, a_date := d, a_region := rg, a_service := sv\<rparr>)
         | _ \<Rightarrow> Inl ErrMalformedAuth) = Inl ErrMalformedAuth"
    by (auto split: list.split)
  have "auth_field (''Credential='' @ ?c) empty_auth = Inl ErrMalformedAuth"
    by (simp only: auth_field_def Let_def f(2) has_prefix_append trim_prefix_append if_True cs)
  then have "auth_fields (split_on CHR '','' (trim_prefix (print_auth a) (algorithm @ '' ''))) empty_auth = Inl ErrMalformedAuth"
    unfolding f(1) by simp
  then show ?thesis using prefix_of_auth [of a] by (simp add: parse_auth_header_def)
qed

section \<open>What acceptance means\<close>

text \<open>The request carries the signature \<open>a_sig a\<close> of its own canonical form under the
  secret of a known key, made at an admissible time.\<close>

definition authentic :: "verifier \<Rightarrow> request \<Rightarrow> auth_header \<Rightarrow> string \<Rightarrow> string \<Rightarrow> string \<Rightarrow> bool" where
  "authentic v r a secret date_str canon \<longleftrightarrow>
     (\<exists>lookup. v_lookup v = Some lookup \<and> lookup (a_key a) = Some secret) \<and>
     a_service a = ''s3'' \<and> (v_region v = [] \<or> a_region a = v_region v) \<and>
     a_sig a = expected_sig (v_dig v) secret a date_str canon \<and>
     (\<exists>t. parse_amz_date date_str = Some t \<and> t - max_clock_skew \<le> v_now v \<and>
          v_now v \<le> t + max_presigned_age) \<and>
     (parse_auth_header (header_get ''Authorization'' r) = Inr a \<and> date_str = header_get ''X-Amz-Date'' r \<and>
        canonical_request r (a_signed a) (header_get ''X-Amz-Content-Sha256'' r) = Inr canon
      \<or> presigned_auth (rq_raw_query r) = Inr a \<and> date_str = query_get (rq_raw_query r) ''X-Amz-Date'' \<and>
        canonical_request_with_query r (split_on CHR '';'' (query_get (rq_raw_query r) ''X-Amz-SignedHeaders''))
          unsigned_payload (strip_query_param (rq_raw_query r) ''X-Amz-Signature'') = Inr canon)"

lemma skew_le_age: "max_clock_skew \<le> max_presigned_age"
  by (simp add: max_clock_skew_def max_presigned_age_def minute_def hour_def second_def)

lemma verify_presigned_authentic:
  assumes "verify_presigned v lookup r = Inr m" "v_lookup v = Some lookup"
  shows "\<exists>a secret date_str canon. authentic v r a secret date_str canon \<and> m = RawBody"
proof -
  let ?raw = "rq_raw_query r"
  obtain a shs date_str secret canon where x: "presigned_auth ?raw = Inr a"
    "presigned_checks v ?raw a = Inr (shs, date_str)" "lookup (a_key a) = Some secret"
    "canonical_request_with_query r shs unsigned_payload (strip_query_param ?raw ''X-Amz-Signature'') = Inr canon"
    "expected_sig (v_dig v) secret a date_str canon = a_sig a" "m = RawBody"
    using assms(1) by (auto simp: verify_presigned_def Let_def split: if_splits sum.splits option.splits prod.splits)
  from x(2) obtain t secs where c: "a_service a = ''s3''" "v_region v = [] \<or> a_region a = v_region v"
    "date_str = query_get ?raw ''X-Amz-Date''" "parse_amz_date date_str = Some t"
    "\<not> expires_dur secs > max_presigned_age" "\<not> v_now v < t - max_clock_skew" "\<not> v_now v > t + expires_dur secs"
    "shs = split_on CHR '';'' (query_get ?raw ''X-Amz-SignedHeaders'')"
    by (auto simp: presigned_checks_def Let_def split: if_splits option.splits)
  have "authentic v r a secret date_str canon"
    unfolding authentic_def using x c assms(2) by auto
  then show ?thesis using x(6) by blast
qed

lemma verify_signed_authentic:
  assumes "verify_signed v r a secret = Inr m" "v_lookup v = Some lookup" "lookup (a_key a) = Some secret"
    "a_service a = ''s3''" "v_region v = [] \<or> a_region a = v_region v"
    "parse_auth_header (header_get ''Authorization'' r) = Inr a"
  shows "\<exists>date_str canon. authentic v r a secret date_str canon"
proof -
  obtain t canon where x: "parse_amz_date (header_get ''X-Amz-Date'' r) = Some t" "in_skew (v_now v) t"
    "canonical_request r (a_signed a) (header_get ''X-Amz-Content-Sha256'' r) = Inr canon"
    "expected_sig (v_dig v) secret a (header_get ''X-Amz-Date'' r) canon = a_sig a"
    using assms(1) by (auto simp: verify_signed_def Let_def split: if_splits option.splits sum.splits)
  have "authentic v r a secret (header_get ''X-Amz-Date'' r) canon"
    unfolding authentic_def using x assms(2-6) skew_le_age by (auto simp: in_skew_def)
  then show ?thesis by blast
qed

lemma verify_header_cases:
  assumes "verify v r = Inr m" "header_get ''Authorization'' r \<noteq> []"
  obtains lookup a secret where "v_lookup v = Some lookup" "lookup (a_key a) = Some secret"
    "parse_auth_header (header_get ''Authorization'' r) = Inr a" "a_service a = ''s3''"
    "v_region v = [] \<or> a_region a = v_region v" "verify_signed v r a secret = Inr m"
  using assms by (auto simp: verify_def Let_def split: option.splits sum.splits if_splits)

lemma verify_authentic:
  assumes "verify v r = Inr m"
  shows "\<exists>a secret date_str canon. authentic v r a secret date_str canon"
proof (cases "header_get ''Authorization'' r = []")
  case True
  then obtain lookup where "v_lookup v = Some lookup" "verify_presigned v lookup r = Inr m"
    using assms by (auto simp: verify_def Let_def split: option.splits if_splits)
  then show ?thesis using verify_presigned_authentic by blast
next
  case False
  then show ?thesis
    using verify_header_cases [OF assms False] verify_signed_authentic by metis
qed

lemma string_to_sign_inject:
  assumes "\<forall>b. length (sha256 d b) = 32" "string_to_sign d t1 sc c1 = string_to_sign d t2 sc c2"
  shows "t1 = t2 \<and> sha256 d (bytes_of c1) = sha256 d (bytes_of c2)"
proof -
  have h: "length (hash_hex d (bytes_of c)) = 64" for c using assms(1) by (simp add: hash_hex_def)
  define x where "x = nl @ sc @ nl"
  have "(t1 @ x) @ hash_hex d (bytes_of c1) = (t2 @ x) @ hash_hex d (bytes_of c2)"
    using assms(2) by (simp add: string_to_sign_def x_def)
  then have "t1 @ x = t2 @ x \<and> hash_hex d (bytes_of c1) = hash_hex d (bytes_of c2)"
    using h [of c1] h [of c2]
    by (subst (asm) append_eq_append_conv) simp_all
  then show ?thesis by (simp add: hash_hex_def hex.enc_inject)
qed

section \<open>Concrete requests for the witnesses\<close>

text \<open>Constant digests and a request signed under them.\<close>

definition demo_digests :: digests where
  "demo_digests = \<lparr>sha256 = (\<lambda>b. replicate 32 0), hmac = (\<lambda>k m. [7])\<rparr>"

definition demo_verifier :: verifier where
  "demo_verifier = \<lparr>v_region = ''us-east-1'', v_lookup = Some (\<lambda>k. if k = ''AK'' then Some ''secret'' else None),
     v_now = 1369353600 * second, v_dig = demo_digests\<rparr>"

definition demo_auth :: auth_header where
  "demo_auth = \<lparr>a_key = ''AK'', a_date = ''20130524'', a_region = ''us-east-1'', a_service = ''s3'',
     a_signed = [''host''], a_sig = ''07''\<rparr>"

definition demo_request :: request where
  "demo_request = \<lparr>rq_method = ''GET'', rq_path = ''/b/k'', rq_raw_query = ''x=1'', rq_host = ''h'',
     rq_content_length = 0,
     rq_headers = [(''Authorization'', print_auth demo_auth), (''X-Amz-Date'', ''20130524T000000Z''),
                   (''X-Amz-Content-Sha256'', ''UNSIGNED-PAYLOAD'')]\<rparr>"

lemma demo_date: "parse_date ''20130524'' = Some (1369353600 * second)"
  "parse_amz_date ''20130524T000000Z'' = Some (1369353600 * second)"
  by code_simp+

lemma demo_auth_wf [simp]: "wf_auth demo_auth"
  by (simp add: wf_auth_def demo_auth_def plain_text_def is_space_def demo_date)

lemma demo_headers:
  "header_get ''Authorization'' demo_request = print_auth demo_auth"
  "header_get ''X-Amz-Date'' demo_request = ''20130524T000000Z''"
  "header_get ''X-Amz-Content-Sha256'' demo_request = unsigned_payload"
  by (simp_all add: header_get_def header_values_def demo_request_def to_lower_def char_lower_def
      unsigned_payload_def)

lemma canonical_request_host: "\<exists>c. canonical_request_with_query r [''host''] ph raw = Inr c"
proof -
  have "sort (map (\<lambda>h. to_lower (trim_space h)) [''host'']) = [''host'']"
    by (simp add: to_lower_def char_lower_def trim_space_def is_space_def)
  then show ?thesis
    by (simp add: canonical_request_with_query_def canonical_headers_def signed_header_value_def Let_def)
qed

lemma hex_encode_7: "hex_encode [7] = ''07''"
  by code_simp

lemma demo_sig: "expected_sig demo_digests s a t c = ''07''"
  by (simp add: expected_sig_def demo_digests_def hex_encode_7)

lemma demo_slash: "CHR ''/'' \<notin> set (a_key demo_auth)"
  by (simp add: demo_auth_def)

lemma signed_request_accepted_lemma:
  assumes "wf_auth a" "CHR ''/'' \<notin> set (a_key a)" "header_get ''Authorization'' r = print_auth a"
    and "v_lookup v = Some lookup" "lookup (a_key a) = Some secret"
    and "a_service a = ''s3''" "v_region v = [] \<or> a_region a = v_region v"
    and "header_get ''X-Amz-Date'' r = date_str" "parse_amz_date date_str = Some t" "in_skew (v_now v) t"
    and "header_get ''X-Amz-Content-Sha256'' r = ph" "ph \<noteq> []"
    and "canonical_request r (a_signed a) ph = Inr canon"
    and "a_sig a = expected_sig (v_dig v) secret a date_str canon"
  shows "verify v r = payload_mode (signing_key_of (v_dig v) secret a) date_str (scope_of a) (a_sig a) ph"
proof -
  have "date_str \<noteq> []" using assms(9) by (auto simp: parse_amz_date_def parse_ymd_def take_digits_def)
  moreover have "print_auth a \<noteq> []" by (simp add: print_auth_def algorithm_def)
  ultimately show ?thesis
    using assms parse_print_auth [OF assms(1,2)] by (auto simp: verify_def verify_signed_def Let_def)
qed

lemma demo_lookup: "v_lookup demo_verifier = Some (\<lambda>k. if k = ''AK'' then Some ''secret'' else None)"
  "v_region demo_verifier = a_region demo_auth" "in_skew (v_now demo_verifier) (1369353600 * second)"
  "(if a_key demo_auth = ''AK'' then Some ''secret'' else None) = Some ''secret''"
  "a_service demo_auth = ''s3''" "a_signed demo_auth = [''host'']" "v_dig demo_verifier = demo_digests"
  "a_sig demo_auth = ''07''"
  by (simp_all add: demo_verifier_def demo_auth_def in_skew_def max_clock_skew_def minute_def second_def)

lemma demo_verified: "verify demo_verifier demo_request = Inr RawBody"
proof -
  obtain canon where "canonical_request demo_request (a_signed demo_auth) unsigned_payload = Inr canon"
    using canonical_request_host [of demo_request unsigned_payload "rq_raw_query demo_request"]
    unfolding canonical_request_def demo_lookup by blast
  from signed_request_accepted_lemma [OF demo_auth_wf demo_slash demo_headers(1) demo_lookup(1,4,5) _
      demo_headers(2) demo_date(2) demo_lookup(3) demo_headers(3) _ this]
  show ?thesis by (simp add: demo_lookup demo_sig payload_mode_def unsigned_payload_def)
qed

section \<open>Properties\<close>



end
