(* ===== verification/SigClaims.thy ===== *)
theory SigClaims
  imports SigProperties
begin

text \<open>
  The claims on signature version 4 besides soundness: completeness for a client that signs
  as documented, the round trip of the Authorization header, the binding of a signature to
  the request it was made for, the normal form of the canonical query, and the lifetime of
  presigned URLs.
\<close>

section \<open>The canonical request determines its parts\<close>

lemma char_split_inject:
  fixes d :: char
  shows "d \<notin> set a \<Longrightarrow> d \<notin> set b \<Longrightarrow> a @ d # x = b @ d # y \<Longrightarrow> a = b \<and> x = y"
  by (metis cut_at_append option.inject prod.inject)

lemma char_split_inject_rev:
  fixes d :: char
  shows "d \<notin> set x \<Longrightarrow> d \<notin> set y \<Longrightarrow> a @ d # x = b @ d # y \<Longrightarrow> a = b \<and> x = y"
  using char_split_inject [of d "rev x" "rev y" "rev a" "rev b"]
  by (metis append.assoc append_Cons append_Nil rev.simps(2) rev_append rev_is_rev_conv set_rev)

definition one_line :: "string \<Rightarrow> bool" where
  "one_line s \<longleftrightarrow> CHR 0x0A \<notin> set s"

lemma hex_digit_upper_line: "n < 16 \<Longrightarrow> hex_digit_upper n \<noteq> CHR 0x0A"
proof
  assume n: "n < 16" and "hex_digit_upper n = CHR 0x0A"
  then have "hex_val CHR 0x0A = Some n" using hex_val_digit_upper [of n] by simp
  then show False by (simp add: hex_val_def)
qed

lemma aws_escape_one_line: "one_line (aws_escape sl s)"
proof -
  have "CHR 0x0A \<notin> set (aws_escape_char sl c)" for c
    using hex_digit_upper_line [of "of_char c div 16"] hex_digit_upper_line [of "of_char c mod 16"]
      of_char_div_less [of c]
    by (auto simp: aws_escape_char_def unreserved_def Let_def)
  then show ?thesis by (auto simp: one_line_def aws_escape_def)
qed

lemma join_one_line: "one_line d \<Longrightarrow> \<forall>p\<in>set ps. one_line p \<Longrightarrow> one_line (join_with d ps)"
  unfolding one_line_def using join_chars by blast

lemma aws_escape_join:
  "join_with ''/'' (map (aws_escape False) (split_on CHR ''/'' p)) = aws_escape False p"
proof (induction p)
  case Nil
  show ?case by (simp add: aws_escape_def)
next
  case (Cons c p)
  obtain q qs where s: "split_on CHR ''/'' p = q # qs" by (cases "split_on CHR ''/'' p") auto
  have "aws_escape False (c # p) = aws_escape_char False c @ aws_escape False p"
    and "aws_escape False (c # q) = aws_escape_char False c @ aws_escape False q"
    and "aws_escape_char False CHR ''/'' = ''/''" and "aws_escape False [] = []"
    by (simp_all add: aws_escape_def aws_escape_char_def)
  with Cons s show ?case by (cases qs) auto
qed

lemma canonical_uri_slash: "canonical_uri (CHR ''/'' # p) = aws_escape False (CHR ''/'' # p)"
proof -
  have "aws_escape False (CHR ''/'' # p) = ''/'' @ aws_escape False p"
    by (simp add: aws_escape_def aws_escape_char_def)
  then show ?thesis
    unfolding canonical_uri_def Let_def aws_escape_join by (simp add: has_prefix_def)
qed

lemma canonical_uri_inject:
  "canonical_uri (CHR ''/'' # p) = canonical_uri (CHR ''/'' # q) \<Longrightarrow> p = q"
  unfolding canonical_uri_slash using pct.enc_inject by (metis list.inject)

lemma canonical_uri_one_line: "one_line (canonical_uri p)"
  unfolding canonical_uri_def Let_def aws_escape_join using aws_escape_one_line [of False p]
  by (simp add: one_line_def)

lemma canonical_query_one_line: "one_line (canonical_query_raw raw)"
  unfolding canonical_query_pairs
proof (rule join_one_line)
  show "one_line ''&''" by (simp add: one_line_def)
  show "\<forall>p\<in>set (map pair_text (canonical_pairs raw)). one_line p"
    using aws_escape_one_line by (auto simp: canonical_pairs_def canonical_pair_def pair_text_def
        one_line_def split: prod.split)
qed

text \<open>The lower-cased, sorted list of signed headers.\<close>

definition signed_names :: "string list \<Rightarrow> string list" where
  "signed_names shs = sort (map (\<lambda>h. to_lower (trim_space h)) shs)"

lemma canonical_request_parts:
  "canonical_request_with_query r shs ph q = Inr c \<longleftrightarrow>
     (\<exists>hdrs. header_lines r (signed_names shs) = Inr hdrs \<and>
        c = rq_method r @ CHR 0x0A # canonical_uri (rq_path r) @ CHR 0x0A # canonical_query_raw q @ CHR 0x0A #
            (hdrs @ nl) @ CHR 0x0A # join_with '';'' (signed_names shs) @ CHR 0x0A # ph)"
  by (auto simp: canonical_request_with_query_def canonical_headers_def signed_names_def Let_def nl_def
      split: sum.splits)

lemma canonical_request_inject:
  assumes "canonical_request_with_query r shs ph q = Inr c" "canonical_request_with_query r' shs' ph' q' = Inr c"
    and "one_line (rq_method r)" "one_line (rq_method r')" "one_line ph" "one_line ph'"
    and "one_line (join_with '';'' (signed_names shs))" "one_line (join_with '';'' (signed_names shs'))"
  shows "rq_method r = rq_method r' \<and> canonical_uri (rq_path r) = canonical_uri (rq_path r') \<and>
    canonical_query_raw q = canonical_query_raw q' \<and> ph = ph' \<and>
    join_with '';'' (signed_names shs) = join_with '';'' (signed_names shs') \<and>
    header_lines r (signed_names shs) = header_lines r' (signed_names shs')"
proof -
  note line = assms(3-8) [unfolded one_line_def] canonical_uri_one_line [unfolded one_line_def]
    canonical_query_one_line [unfolded one_line_def]
  obtain h h' where h: "header_lines r (signed_names shs) = Inr h" "header_lines r' (signed_names shs') = Inr h'"
    and c1: "c = rq_method r @ CHR 0x0A # canonical_uri (rq_path r) @ CHR 0x0A # canonical_query_raw q @ CHR 0x0A #
            (h @ nl) @ CHR 0x0A # join_with '';'' (signed_names shs) @ CHR 0x0A # ph"
    and c2: "c = rq_method r' @ CHR 0x0A # canonical_uri (rq_path r') @ CHR 0x0A # canonical_query_raw q' @ CHR 0x0A #
            (h' @ nl) @ CHR 0x0A # join_with '';'' (signed_names shs') @ CHR 0x0A # ph'"
    using assms(1,2) unfolding canonical_request_parts by blast
  have c: "rq_method r @ CHR 0x0A # canonical_uri (rq_path r) @ CHR 0x0A # canonical_query_raw q @ CHR 0x0A #
            (h @ nl) @ CHR 0x0A # join_with '';'' (signed_names shs) @ CHR 0x0A # ph
      = rq_method r' @ CHR 0x0A # canonical_uri (rq_path r') @ CHR 0x0A # canonical_query_raw q' @ CHR 0x0A #
            (h' @ nl) @ CHR 0x0A # join_with '';'' (signed_names shs') @ CHR 0x0A # ph'"
    using c1 c2 by (rule trans [OF sym])
  note m = char_split_inject [OF line(1,2) c]
  note u = char_split_inject [OF line(7) line(7) conjunct2 [OF m]]
  note qs = char_split_inject [OF line(8) line(8) conjunct2 [OF u]]
  from conjunct2 [OF qs] have e: "((h @ nl) @ CHR 0x0A # join_with '';'' (signed_names shs)) @ CHR 0x0A # ph =
      ((h' @ nl) @ CHR 0x0A # join_with '';'' (signed_names shs')) @ CHR 0x0A # ph'" by simp
  note p = char_split_inject_rev [OF line(3,4) e]
  note n = char_split_inject_rev [OF line(5,6) conjunct1 [OF p]]
  show ?thesis using m u qs p n h by simp
qed

section \<open>Equal canonical queries\<close>

definition decoded_pair :: "string \<Rightarrow> string \<times> string" where
  "decoded_pair part = (case split_setting part of (k, v) \<Rightarrow> (unescape_or_keep k, unescape_or_keep v))"

lemma canonical_pair_decoded:
  "canonical_pair part = map_prod (aws_escape True) (aws_escape True) (decoded_pair part)"
  by (simp add: canonical_pair_def decoded_pair_def split: prod.split)

lemma escape_pairs_inject: "inj (map_prod (aws_escape True) (aws_escape True))"
  by (rule prod.inj_map) (simp_all add: inj_on_def pct.enc_inject)

lemma canonical_pairs_eq:
  "canonical_pairs raw = canonical_pairs raw' \<longleftrightarrow>
     mset (map decoded_pair (query_parts raw)) = mset (map decoded_pair (query_parts raw'))"
proof -
  have m: "mset (canonical_pairs s) =
      image_mset (map_prod (aws_escape True) (aws_escape True)) (mset (map decoded_pair (query_parts s)))" for s
    by (simp add: canonical_pairs_def canonical_pair_decoded [abs_def] multiset.map_comp comp_def)
  have "canonical_pairs raw = canonical_pairs raw' \<longleftrightarrow> mset (canonical_pairs raw) = mset (canonical_pairs raw')"
  proof
    assume "mset (canonical_pairs raw) = mset (canonical_pairs raw')"
    then have "mset (map canonical_pair (query_parts raw)) = mset (map canonical_pair (query_parts raw'))"
      by (simp only: canonical_pairs_def mset_sort)
    then show "canonical_pairs raw = canonical_pairs raw'"
      unfolding canonical_pairs_def by (rule sort_mset_eq)
  qed simp
  also have "\<dots> \<longleftrightarrow> mset (map decoded_pair (query_parts raw)) = mset (map decoded_pair (query_parts raw'))"
    by (simp only: m inj_eq [OF multiset.inj_map [OF escape_pairs_inject]])
  finally show ?thesis .
qed

lemma canonical_query_pairs_eq:
  "canonical_query_raw raw = canonical_query_raw raw' \<longleftrightarrow> canonical_pairs raw = canonical_pairs raw'"
proof
  assume eq: "canonical_query_raw raw = canonical_query_raw raw'"
  have "map canonical_pair (query_parts (canonical_query_raw s)) = canonical_pairs s" for s
  proof -
    have esc: "\<forall>kv\<in>set (canonical_pairs s). escaped_pair kv" using canonical_pairs_escaped by blast
    show ?thesis
      unfolding canonical_query_pairs query_parts_join [OF esc] using esc pair_text_plain(2)
      by (simp add: map_idI)
  qed
  with eq show "canonical_pairs raw = canonical_pairs raw'" by metis
qed (simp add: canonical_query_pairs)

section \<open>Claims\<close>



text \<open>
  C13: the round trip of the Authorization header.  \<^verbatim>\<open>parseAuthHeader\<close> recovers every field a
  client printed, except when the access key contains a slash: then the credential splits
  into more than five parts and the header is malformed, whatever the signature.
\<close>

theorem auth_header_roundtrip:
  assumes "wf_auth a"
  shows "parse_auth_header (print_auth a) =
    (if CHR ''/'' \<in> set (a_key a) then Inl ErrMalformedAuth else Inr a)"
  using parse_print_auth [OF assms] parse_print_slash [OF assms] by simp

theorem auth_header_roundtrip_witness:
  "parse_auth_header (print_auth demo_auth) = Inr demo_auth"
  using auth_header_roundtrip [OF demo_auth_wf] demo_slash by simp



text \<open>
  \<^verbatim>\<open>canonicalQueryRaw\<close> is a normal form.  Two raw query strings have the same canonical
  form exactly when they hold the same decoded parameters, with the same multiplicities, in
  any order and however escaped; and a canonical query is its own canonical form.
\<close>

theorem canonical_query_normal_form:
  "(canonical_query_raw raw = canonical_query_raw raw' \<longleftrightarrow>
     mset (map decoded_pair (query_parts raw)) = mset (map decoded_pair (query_parts raw'))) \<and>
   canonical_query_raw (canonical_query_raw raw) = canonical_query_raw raw"
  by (simp only: canonical_query_pairs_eq canonical_pairs_eq canonical_query_idem simp_thms)

text \<open>
  \<^verbatim>\<open>stripQueryParam\<close> removes exactly the settings whose decoded name is the given one up
  to case, keeps the others in order with their escaping, and removing twice changes nothing.
\<close>

theorem strip_removes_exactly:
  "query_parts (strip_query_param raw name) = filter (\<lambda>p. \<not> is_param name p) (query_parts raw) \<and>
   strip_query_param (strip_query_param raw name) name = strip_query_param raw name"
  by (simp only: query_parts_strip strip_idem simp_thms)

text \<open>
  The lifetime of a presigned URL.  The checks pass only between 15 minutes before its
  date and its expiry, never later than seven days after the date; and a lifetime that fits
  64-bit nanoseconds passes only when it is within the seven-day cap.
\<close>

theorem presigned_lifetime:
  assumes "presigned_checks v raw a = Inr (shs, date_str)"
  shows "\<exists>t secs. parse_amz_date date_str = Some t \<and> parse_int (query_get raw ''X-Amz-Expires'') = Some secs \<and>
    0 < secs \<and> t - max_clock_skew \<le> v_now v \<and> v_now v \<le> t + expires_dur secs \<and>
    v_now v \<le> t + max_presigned_age \<and>
    (secs \<le> 9223372036 \<longrightarrow> secs \<le> 604800 \<and> v_now v \<le> t + secs * second)"
proof -
  from assms obtain t secs where c: "date_str = query_get raw ''X-Amz-Date''" "parse_amz_date date_str = Some t"
    "parse_int (query_get raw ''X-Amz-Expires'') = Some secs" "\<not> secs \<le> 0"
    "\<not> expires_dur secs > max_presigned_age" "\<not> v_now v < t - max_clock_skew" "\<not> v_now v > t + expires_dur secs"
    by (auto simp: presigned_checks_def Let_def split: if_splits option.splits)
  moreover have "expires_dur secs = secs * second" if "secs \<le> 9223372036"
    using that c(4) by (simp add: expires_dur_def second_def i64_id)
  ultimately show ?thesis
    by (auto simp: max_presigned_age_def hour_def minute_def second_def)
qed

lemma i64_add_mult: "i64 (x + k * 2 ^ 64) = i64 x"
proof -
  have "(x + k * 2 ^ 64 + 2 ^ 63) mod 2 ^ 64 = (x + 2 ^ 63 + k * 2 ^ 64) mod 2 ^ 64" by (simp add: ac_simps)
  also have "\<dots> = (x + 2 ^ 63) mod 2 ^ 64" by (rule mod_mult_self1)
  finally show ?thesis by (simp add: i64_def signed_take_bit_eq_take_bit_shift take_bit_eq_mod)
qed

lemma expires_dur_wrap: "expires_dur (2 ^ 55 + secs) = expires_dur secs"
proof -
  have "(2 ^ 55 + secs) * second = secs * second + 1953125 * 2 ^ 64"
    by (simp add: second_def algebra_simps)
  then show ?thesis by (simp only: expires_dur_def i64_add_mult)
qed

text \<open>
  C15: the seven-day cap of presigned URLs overflows.  \<^verbatim>\<open>time.Duration(expiresSec) * time.Second\<close>
  wraps, so an X-Amz-Expires of \<open>2 ^ 55 + secs\<close> seconds passes the cap and is treated as one
  of \<open>secs\<close> seconds.
\<close>

theorem presigned_cap_overflow:
  assumes "a_key a \<noteq> []" "a_sig a \<noteq> []" "a_service a = ''s3''" "v_region v = [] \<or> a_region a = v_region v"
    and "parse_date (a_date a) \<noteq> None" "query_get raw ''X-Amz-SignedHeaders'' \<noteq> []"
    and "parse_amz_date (query_get raw ''X-Amz-Date'') = Some t"
    and "parse_int (query_get raw ''X-Amz-Expires'') = Some (2 ^ 55 + secs)" "0 < secs" "secs \<le> 604800"
    and "t - max_clock_skew \<le> v_now v" "v_now v \<le> t + secs * second"
  shows "presigned_checks v raw a =
    Inr (split_on CHR '';'' (query_get raw ''X-Amz-SignedHeaders''), query_get raw ''X-Amz-Date'')"
proof -
  have d: "expires_dur (2 ^ 55 + secs) = secs * second"
    unfolding expires_dur_wrap using assms(9,10) by (simp add: expires_dur_def second_def i64_id)
  have "\<not> secs * second > max_presigned_age"
    using assms(10) by (simp add: max_presigned_age_def hour_def minute_def second_def)
  moreover have "\<not> 2 ^ 55 + secs \<le> 0" using assms(9) by simp
  ultimately show ?thesis using assms d by (simp add: presigned_checks_def Let_def)
qed

definition demo_presigned :: string where
  "demo_presigned = ''X-Amz-Date=20130524T000000Z&X-Amz-Expires=36028797018963969&X-Amz-SignedHeaders=host''"

lemma demo_presigned_values:
  "query_get demo_presigned ''X-Amz-Date'' = ''20130524T000000Z''"
  "query_get demo_presigned ''X-Amz-SignedHeaders'' = ''host''"
  "parse_int (query_get demo_presigned ''X-Amz-Expires'') = Some (2 ^ 55 + 1)"
  by code_simp+

theorem presigned_lifetime_witness:
  "\<exists>t secs. parse_amz_date ''20130524T000000Z'' = Some t \<and>
    parse_int (query_get ''X-Amz-Date=20130524T000000Z&X-Amz-Expires=60&X-Amz-SignedHeaders=host'' ''X-Amz-Expires'') = Some secs \<and>
    v_now demo_verifier \<le> t + expires_dur secs"
proof -
  have "presigned_checks demo_verifier ''X-Amz-Date=20130524T000000Z&X-Amz-Expires=60&X-Amz-SignedHeaders=host'' demo_auth
      = Inr ([''host''], ''20130524T000000Z'')"
    by code_simp
  from presigned_lifetime [OF this] show ?thesis by blast
qed

theorem presigned_cap_overflow_witness:
  "presigned_checks demo_verifier demo_presigned demo_auth = Inr ([''host''], ''20130524T000000Z'')"
proof -
  have "presigned_checks demo_verifier demo_presigned demo_auth =
      Inr (split_on CHR '';'' (query_get demo_presigned ''X-Amz-SignedHeaders''), query_get demo_presigned ''X-Amz-Date'')"
    by (rule presigned_cap_overflow [where t = "1369353600 * second" and secs = 1])
      (simp_all add: demo_presigned_values demo_date demo_lookup, simp_all add: demo_auth_def demo_verifier_def
        demo_date max_clock_skew_def minute_def second_def)
  then show ?thesis by (simp add: demo_presigned_values)
qed

section \<open>The canonical request and AWS's\<close>

text \<open>The canonical request of the AWS documentation: the header lines, each ending in a
  newline, are followed by one newline and the signed header names.\<close>

definition aws_canonical_request :: "request \<Rightarrow> string list \<Rightarrow> string \<Rightarrow> goerr + string" where
  "aws_canonical_request r shs payload_hash =
     (case canonical_headers r shs of
        Inl e \<Rightarrow> Inl e
      | Inr (hdrs, names) \<Rightarrow>
          Inr (join_with nl [rq_method r, canonical_uri (rq_path r), canonical_query_raw (rq_raw_query r),
                             hdrs, names, payload_hash]))"

text \<open>
  The canonical request the verifier hashes is not AWS's.  Both exist for the same
  requests, and then the verifier's has one newline more (an empty element is joined between
  the header lines, which already end in a newline, and the names), so the two never agree.
\<close>

theorem canonical_request_extra_newline:
  "(case (canonical_request r shs ph, aws_canonical_request r shs ph) of
      (Inr c, Inr c') \<Rightarrow> length c = length c' + 1
    | (Inl e, Inl e') \<Rightarrow> e = e'
    | _ \<Rightarrow> False)"
  by (simp add: canonical_request_def canonical_request_with_query_def aws_canonical_request_def nl_def
      split: sum.split prod.split)

end
