(* ===== verification/SigBody.thy ===== *)
theory SigBody
  imports SigVerify
begin

text \<open>
  The body decoders of \<^verbatim>\<open>internal/sigv4/sigv4.go\<close>: the reader that checks the payload hash
  and the two readers that strip \<^verbatim>\<open>aws-chunked\<close> framing, with and without chunk signatures.
  The \<^verbatim>\<open>bufio.Reader\<close> in front of a body is the body's \<open>reader\<close>; a chunk is allocated whole,
  so a size beyond what \<^verbatim>\<open>make\<close> accepts is a run-time panic.
\<close>

section \<open>Reading lines and chunks\<close>

text \<open>\<^verbatim>\<open>ReadString('\n')\<close>; the text before a failure is dropped by every caller.\<close>

definition read_line :: "(reader, string) step" where
  "read_line r = (case r of (d, t) \<Rightarrow>
     if 10 \<in> set d
     then (Inr (string_of (takeWhile (\<lambda>b. b \<noteq> 10) d) @ [CHR 0x0A]), (tl (dropWhile (\<lambda>b. b \<noteq> 10) d), t))
     else (Inl (end_err t), ([], t)))"

definition read_exact :: "nat \<Rightarrow> (reader, bytes) step" where
  "read_exact n r = (case read_full n r of
       (d, None, r') \<Rightarrow> (Inr d, r') | (d, Some e, r') \<Rightarrow> (Inl e, r'))"

text \<open>\<^verbatim>\<open>Discard(n)\<close>.\<close>

definition discard :: "nat \<Rightarrow> (reader, unit) step" where
  "discard n r = (case r of (d, t) \<Rightarrow>
     if n \<le> length d then (Inr (), (drop n d, t)) else (Inl (end_err t), ([], t)))"

text \<open>\<^verbatim>\<open>strings.TrimRight(line, "\r\n")\<close>.\<close>

definition trim_eol :: "string \<Rightarrow> string" where
  "trim_eol s = rev (dropWhile (\<lambda>c. c = CHR 0x0D \<or> c = CHR 0x0A) (rev s))"

text \<open>\<^verbatim>\<open>strconv.ParseUint(s, 16, 63)\<close>.\<close>

definition hex_num :: "string \<Rightarrow> nat" where
  "hex_num s = foldl (\<lambda>a c. a * 16 + the (hex_val c)) 0 s"

definition parse_hex_uint :: "string \<Rightarrow> nat option" where
  "parse_hex_uint s =
     (if s = [] \<or> (\<exists>c\<in>set s. hex_val c = None) \<or> 2 ^ 63 \<le> hex_num s then None else Some (hex_num s))"

text \<open>The largest slice of bytes the Go runtime allocates on 64-bit Linux.\<close>

definition max_alloc :: nat where "max_alloc = 2 ^ 48"

text \<open>The data of a chunk and the two bytes after it.\<close>

definition chunk_data :: "nat \<Rightarrow> (reader, bytes) step" where
  "chunk_data sz =
     (if max_alloc < sz then efail (Panic ''makeslice: len out of range'')
      else ebind (read_exact sz) (\<lambda>data. ebind (discard 2) (\<lambda>_. eret data)))"

definition chunk_size :: "string \<Rightarrow> (reader, nat) step" where
  "chunk_size size_hex = (case parse_hex_uint size_hex of
       None \<Rightarrow> efail (Wrap ''sigv4: bad chunk size'' [New ''strconv.ParseUint'']) | Some n \<Rightarrow> eret n)"

section \<open>The Read method of the chunk decoders\<close>

record chunked =
  c_src :: reader
  c_left :: bytes
  c_eof :: bool
  c_err :: "goerr option"

text \<open>Both decoders have this \<^verbatim>\<open>Read\<close>, with their own \<^verbatim>\<open>nextChunk\<close>.\<close>

definition chunked_read ::
    "('a chunked_scheme \<Rightarrow> goerr option \<times> 'a chunked_scheme) \<Rightarrow> nat \<Rightarrow> 'a chunked_scheme
      \<Rightarrow> bytes \<times> goerr option \<times> 'a chunked_scheme" where
  "chunked_read next_chunk n s = (case c_err s of
       Some e \<Rightarrow> ([], Some e, s)
     | None \<Rightarrow>
         if c_left s = [] then
           (if c_eof s then ([], Some IoEOF, s)
            else case next_chunk s of
              (Some e, s') \<Rightarrow> ([], Some e, s'\<lparr>c_err := Some e\<rparr>)
            | (None, s') \<Rightarrow>
                if c_eof s' \<and> c_left s' = [] then ([], Some IoEOF, s')
                else (take n (c_left s'), None, s'\<lparr>c_left := drop n (c_left s')\<rparr>))
         else (take n (c_left s), None, s\<lparr>c_left := drop n (c_left s)\<rparr>))"

text \<open>An error with which a reader ends: EOF is the clean one.\<close>

definition ending_of :: "goerr \<Rightarrow> ending" where
  "ending_of e = (if e = IoEOF then Eof else Fail e)"

lemma end_err_of [simp]: "end_err (ending_of e) = e"
  by (simp add: ending_of_def)

text \<open>What \<^verbatim>\<open>nextChunk\<close> must do for \<^verbatim>\<open>Read\<close> to be a reader: \<open>rest\<close> is what the decoder still
  finds in its source.\<close>

definition chunked_pend :: "('a chunked_scheme \<Rightarrow> reader) \<Rightarrow> 'a chunked_scheme \<Rightarrow> reader" where
  "chunked_pend rest s = (case c_err s of Some e \<Rightarrow> ([], ending_of e)
     | None \<Rightarrow> if c_eof s then (c_left s, Eof) else (c_left s @ fst (rest s), snd (rest s)))"

locale chunk_decoder =
  fixes next_chunk :: "'a chunked_scheme \<Rightarrow> goerr option \<times> 'a chunked_scheme"
    and rest :: "'a chunked_scheme \<Rightarrow> reader"
  assumes next_fail: "next_chunk s = (Some e, s') \<Longrightarrow> rest s = ([], ending_of e)"
    and next_last: "next_chunk s = (None, s') \<Longrightarrow> c_left s = [] \<Longrightarrow> \<not> c_eof s \<Longrightarrow> c_eof s' \<Longrightarrow> c_left s' = [] \<and> rest s = ([], Eof)"
    and next_data: "next_chunk s = (None, s') \<Longrightarrow> \<not> c_eof s' \<Longrightarrow>
      c_left s' \<noteq> [] \<and> rest s = (c_left s' @ fst (rest s'), snd (rest s'))"
    and next_err: "next_chunk s = (None, s') \<Longrightarrow> c_err s' = c_err s"
    and rest_left: "rest (s\<lparr>c_left := l\<rparr>) = rest s"
begin

lemma read_cases:
  assumes "chunked_read next_chunk n s = (bs, e, s')" "0 < n"
  shows "case e of
      Some x \<Rightarrow> bs = [] \<and> fst (chunked_pend rest s) = [] \<and> x = end_err (snd (chunked_pend rest s))
    | None \<Rightarrow> length bs \<le> n \<and> bs \<noteq> [] \<and> fst (chunked_pend rest s) = bs @ fst (chunked_pend rest s') \<and> snd (chunked_pend rest s') = snd (chunked_pend rest s)"
proof (cases "c_err s")
  case (Some x)
  then have "e = Some x" "bs = []" using assms(1) by (simp_all add: chunked_read_def)
  then show ?thesis using Some by (simp add: chunked_pend_def)
next
  case ok: None
  show ?thesis
  proof (cases "c_left s = []")
    case False
    then show ?thesis using assms ok by (auto simp: chunked_read_def chunked_pend_def rest_left)
  next
    case left: True
    show ?thesis
    proof (cases "c_eof s")
      case True
      then show ?thesis using assms(1) ok left by (auto simp: chunked_read_def chunked_pend_def)
    next
      case False
      obtain y t where n: "next_chunk s = (y, t)" by (cases "next_chunk s")
      show ?thesis
      proof (cases y)
        case (Some x)
        then show ?thesis using assms(1) ok left False n next_fail [of s x t] by (auto simp: chunked_read_def chunked_pend_def)
      next
        case None
        note n' = n [unfolded None]
        show ?thesis
        proof (cases "c_eof t")
          case True
          then show ?thesis
            using assms(1) ok left False n' next_last [OF n' left False True] by (auto simp: chunked_read_def chunked_pend_def)
        next
          case data: False
          then show ?thesis
            using assms ok left False n' next_data [OF n' data] next_err [OF n']
            by (auto simp: chunked_read_def chunked_pend_def rest_left)
        qed
      qed
    qed
  qed
qed

end

sublocale chunk_decoder \<subseteq> rd: byte_reader "chunked_read next_chunk" "chunked_pend rest" "\<lambda>_. True"
proof (unfold_locales, goal_cases)
  case (2 s n bs e s')
  then show ?case using read_cases [of n s bs e s'] by (cases e) auto
next
  case (3 s n bs s')
  then show ?case using read_cases [of n s bs None s'] by simp
next
  case (4 s n bs s')
  then show ?case using read_cases [of n s bs None s'] by simp
next
  case (5 s n bs err s')
  then show ?case using read_cases [of n s bs "Some err" s'] by simp
qed simp

section \<open>The unsigned decoder\<close>

text \<open>The trailer lines after the last chunk, up to an empty one.\<close>

lemma read_line_length:
  "read_line r = (Inr l, r') \<Longrightarrow> length (fst r') < length (fst r)"
proof -
  assume a: "read_line r = (Inr l, r')"
  obtain d t where r: "r = (d, t)" by (cases r)
  have "10 \<in> set d" using a r by (auto simp: read_line_def split: if_splits)
  then have "0 < length d" by (cases d) auto
  moreover have "length (dropWhile (\<lambda>b. b \<noteq> 10) d) \<le> length d" by (rule length_dropWhile_le)
  ultimately have "length (tl (dropWhile (\<lambda>b. b \<noteq> 10) d)) < length d"
    unfolding length_tl by linarith
  then show ?thesis using a r by (auto simp: read_line_def split: if_splits)
qed

function skip_trailers :: "reader \<Rightarrow> goerr option \<times> reader" where
  "skip_trailers r = (case read_line r of
       (Inl e, r') \<Rightarrow> (if errors_is e IoEOF then None else Some e, r')
     | (Inr l, r') \<Rightarrow> if trim_eol l = [] then (None, r') else skip_trailers r')"
  by pat_completeness auto
termination
  by (relation "measure (\<lambda>r. length (fst r))") (auto dest: read_line_length [OF sym])

declare skip_trailers.simps [simp del]

definition unsigned_frame :: "(reader, nat \<times> bytes) step" where
  "unsigned_frame =
     ebind read_line (\<lambda>l. let line = trim_eol l in
       ebind (chunk_size (case cut_at CHR '';'' line of None \<Rightarrow> line | Some (a, b) \<Rightarrow> a)) (\<lambda>sz.
         ebind (chunk_data sz) (\<lambda>data. eret (sz, data))))"

definition unsigned_next :: "chunked \<Rightarrow> goerr option \<times> chunked" where
  "unsigned_next s = (case unsigned_frame (c_src s) of
       (Inl e, src) \<Rightarrow> (Some e, s\<lparr>c_src := src\<rparr>)
     | (Inr (sz, data), src) \<Rightarrow>
         if sz = 0 then (case skip_trailers src of (e, src') \<Rightarrow> (e, s\<lparr>c_src := src', c_eof := True\<rparr>))
         else (None, s\<lparr>c_src := src, c_left := data\<rparr>))"

definition unsigned_read :: "nat \<Rightarrow> chunked \<Rightarrow> bytes \<times> goerr option \<times> chunked" where
  "unsigned_read = chunked_read unsigned_next"

definition new_unsigned_reader :: "reader \<Rightarrow> chunked" where
  "new_unsigned_reader body = \<lparr>c_src = body, c_left = [], c_eof = False, c_err = None\<rparr>"

section \<open>The signed decoder\<close>

record signed_chunked = chunked +
  c_key :: bytes
  c_datetime :: string
  c_scope :: string
  c_prev :: string

definition sig_prefix :: string where "sig_prefix = ''chunk-signature=''"

text \<open>The header line: size and signature.\<close>

definition signed_header :: "string \<Rightarrow> goerr + (string \<times> string)" where
  "signed_header l = (case cut_at CHR '';'' (trim_eol l) of
       None \<Rightarrow> Inl (New ''sigv4: chunk header missing extension'')
     | Some (size_hex, ext) \<Rightarrow> (case index_of ext sig_prefix of
           None \<Rightarrow> Inl (New ''sigv4: chunk header missing chunk-signature'')
         | Some i \<Rightarrow> Inr (size_hex, trim_space (drop (i + length sig_prefix) ext))))"

definition signed_frame :: "(reader, nat \<times> string \<times> bytes) step" where
  "signed_frame =
     ebind read_line (\<lambda>l. case signed_header l of
         Inl e \<Rightarrow> efail e
       | Inr (size_hex, chunk_sig) \<Rightarrow>
           ebind (chunk_size size_hex) (\<lambda>sz.
             ebind (chunk_data sz) (\<lambda>data. eret (sz, chunk_sig, data))))"

definition chunk_signature :: "digests \<Rightarrow> bytes \<Rightarrow> string \<Rightarrow> string \<Rightarrow> string \<Rightarrow> bytes \<Rightarrow> string" where
  "chunk_signature d key datetime scope prev data =
     hex_encode (hmac d key (bytes_of (join_with nl
       [''AWS4-HMAC-SHA256-PAYLOAD'', datetime, scope, prev, hash_hex d [], hash_hex d data])))"

definition signed_next :: "digests \<Rightarrow> signed_chunked \<Rightarrow> goerr option \<times> signed_chunked" where
  "signed_next d s = (case signed_frame (c_src s) of
       (Inl e, src) \<Rightarrow> (Some e, s\<lparr>c_src := src\<rparr>)
     | (Inr (sz, chunk_sig, data), src) \<Rightarrow>
         if chunk_signature d (c_key s) (c_datetime s) (c_scope s) (c_prev s) data \<noteq> chunk_sig
         then (Some ErrSignatureMismatch, s\<lparr>c_src := src\<rparr>)
         else if sz = 0 then (None, s\<lparr>c_src := src, c_prev := chunk_sig, c_eof := True\<rparr>)
         else (None, s\<lparr>c_src := src, c_prev := chunk_sig, c_left := data\<rparr>))"

definition signed_read :: "digests \<Rightarrow> nat \<Rightarrow> signed_chunked \<Rightarrow> bytes \<times> goerr option \<times> signed_chunked" where
  "signed_read d = chunked_read (signed_next d)"

definition new_signed_reader :: "reader \<Rightarrow> bytes \<Rightarrow> string \<Rightarrow> string \<Rightarrow> string \<Rightarrow> signed_chunked" where
  "new_signed_reader body key datetime scope seed =
     \<lparr>c_src = body, c_left = [], c_eof = False, c_err = None,
      c_key = key, c_datetime = datetime, c_scope = scope, c_prev = seed\<rparr>"

section \<open>The hash-checking reader\<close>

text \<open>\<open>h_src\<close> is the body with its own \<^verbatim>\<open>Read\<close>, \<open>h_sum\<close> the bytes written to the hash.\<close>

record 's hash_reader =
  h_src :: 's
  h_sum :: bytes
  h_expected :: string
  h_bad :: bool

definition new_hash_reader :: "'s \<Rightarrow> string \<Rightarrow> 's hash_reader" where
  "new_hash_reader src expected = \<lparr>h_src = src, h_sum = [], h_expected = to_lower expected, h_bad = False\<rparr>"

definition hash_read :: "digests \<Rightarrow> (nat \<Rightarrow> 's \<Rightarrow> bytes \<times> goerr option \<times> 's) \<Rightarrow> nat \<Rightarrow> 's hash_reader
    \<Rightarrow> bytes \<times> goerr option \<times> 's hash_reader" where
  "hash_read d rd n h = (case rd n (h_src h) of (bs, err, src) \<Rightarrow>
     let h' = h\<lparr>h_src := src, h_sum := h_sum h @ bs\<rparr> in
     case err of
       Some e \<Rightarrow>
         if errors_is e IoEOF \<and> hash_hex d (h_sum h') \<noteq> h_expected h'
         then (bs, Some ErrBadPayloadHash, h'\<lparr>h_bad := True\<rparr>)
         else (bs, Some e, h')
     | None \<Rightarrow> (bs, None, h'))"

text \<open>\<^verbatim>\<open>Close\<close>, given what closing the body returns.\<close>

definition hash_close :: "goerr option \<Rightarrow> 's hash_reader \<Rightarrow> goerr option" where
  "hash_close src_close h = (if h_bad h then Some ErrBadPayloadHash else src_close)"

text \<open>What the reader still holds: the body's bytes, and a mismatch in place of its EOF.\<close>

definition hash_pend :: "digests \<Rightarrow> ('s \<Rightarrow> reader) \<Rightarrow> 's hash_reader \<Rightarrow> reader" where
  "hash_pend d pend h = (case pend (h_src h) of (bs, t) \<Rightarrow>
     (bs, if errors_is (end_err t) IoEOF \<and> hash_hex d (h_sum h @ bs) \<noteq> h_expected h
          then Fail ErrBadPayloadHash else t))"

locale hashed_body = src: byte_reader rd pend ok
  for rd :: "nat \<Rightarrow> 's \<Rightarrow> bytes \<times> goerr option \<times> 's" and pend ok

sublocale hashed_body \<subseteq> hashed: byte_reader "hash_read d rd" "hash_pend d pend" "\<lambda>h. ok (h_src h)" for d
proof (unfold_locales, goal_cases)
  case (1 h n bs h')
  then show ?case
    using src.rd_ok [of "h_src h" n] by (auto simp: hash_read_def Let_def split: prod.splits option.splits if_splits)
next
  case (2 h n bs e h')
  then show ?case
    using src.rd_len [of "h_src h" n] by (auto simp: hash_read_def Let_def split: prod.splits option.splits if_splits)
next
  case (3 h n bs h')
  then obtain src where r: "rd n (h_src h) = (bs, None, src)" "h' = h\<lparr>h_src := src, h_sum := h_sum h @ bs\<rparr>"
    by (auto simp: hash_read_def Let_def split: prod.splits option.splits if_splits)
  then show ?case
    using src.rd_pend [OF 3(1,2) r(1)] by (auto simp: hash_pend_def split: prod.splits)
next
  case (4 h n bs h')
  then show ?case
    using src.rd_progress [of "h_src h" n] by (auto simp: hash_read_def Let_def split: prod.splits option.splits if_splits)
next
  case (5 h n bs err h')
  then obtain e src where r: "rd n (h_src h) = (bs, Some e, src)"
    "err = (if errors_is e IoEOF \<and> hash_hex d (h_sum h @ bs) \<noteq> h_expected h then ErrBadPayloadHash else e)"
    by (auto simp: hash_read_def Let_def split: prod.splits option.splits if_splits)
  then show ?case
    using src.rd_end [OF 5(1,2) r(1)] by (auto simp: hash_pend_def split: prod.splits)
qed

section \<open>What the decoders find in their source\<close>

lemma read_exact_Inr:
  "read_exact n r = (Inr data, r') \<Longrightarrow> length data = n \<and> fst r = data @ fst r' \<and> snd r' = snd r"
  by (cases r) (auto simp: read_exact_def read_full_def split: if_splits)

lemma discard_Inr:
  "discard n r = (Inr u, r') \<Longrightarrow> \<exists>x. length x = n \<and> fst r = x @ fst r' \<and> snd r' = snd r"
  by (cases r) (auto simp: discard_def intro: exI [of _ "take n (fst r)"] split: if_splits)

lemma read_line_Inr:
  "read_line r = (Inr l, r') \<Longrightarrow> \<exists>h. fst r = h @ 10 # fst r' \<and> 10 \<notin> set h \<and> l = string_of h @ [CHR 0x0A] \<and> snd r' = snd r"
proof -
  assume a: "read_line r = (Inr l, r')"
  obtain d t where r: "r = (d, t)" by (cases r)
  let ?h = "takeWhile (\<lambda>b. b \<noteq> 10) d"
  have x: "10 \<in> set d" "l = string_of ?h @ [CHR 0x0A]" "r' = (tl (dropWhile (\<lambda>b. b \<noteq> 10) d), t)"
    using a r by (auto simp: read_line_def split: if_splits)
  have "dropWhile (\<lambda>b. b \<noteq> 10) d = 10 # tl (dropWhile (\<lambda>b. b \<noteq> 10) d)"
    using x(1) by (induction d) auto
  then have "d = ?h @ 10 # fst r'" using x(3) takeWhile_dropWhile_id [of "\<lambda>b. b \<noteq> 10" d] by simp
  moreover have "10 \<notin> set ?h" by (auto dest: set_takeWhileD)
  ultimately show ?thesis using r x by auto
qed

lemma chunk_size_Inr: "chunk_size t r = (Inr n, r') \<longleftrightarrow> parse_hex_uint t = Some n \<and> r' = r"
  by (auto simp: chunk_size_def efail_def eret_def split: option.splits)

lemma chunk_data_Inr:
  assumes "chunk_data n r = (Inr data, r')"
  shows "\<exists>x. length data = n \<and> n \<le> max_alloc \<and> length x = 2 \<and> fst r = data @ x @ fst r' \<and> snd r' = snd r"
proof -
  obtain r1 where 1: "n \<le> max_alloc" "read_exact n r = (Inr data, r1)" "discard 2 r1 = (Inr (), r')"
    using assms by (auto simp: chunk_data_def ebind_Inr efail_def eret_def split: if_splits)
  from read_exact_Inr [OF 1(2)] discard_Inr [OF 1(3)] 1(1) show ?thesis by auto
qed

lemma unsigned_frame_Inr:
  assumes "unsigned_frame r = (Inr (n, data), r')"
  shows "\<exists>l r1. read_line r = (Inr l, r1) \<and>
    parse_hex_uint (case cut_at CHR '';'' (trim_eol l) of None \<Rightarrow> trim_eol l | Some (a, b) \<Rightarrow> a) = Some n \<and>
    chunk_data n r1 = (Inr data, r')"
  using assms by (auto simp: unsigned_frame_def Let_def ebind_Inr chunk_size_Inr eret_def)

lemma signed_frame_Inr:
  assumes "signed_frame r = (Inr (n, sg, data), r')"
  shows "\<exists>l r1 sh. read_line r = (Inr l, r1) \<and> signed_header l = Inr (sh, sg) \<and>
    parse_hex_uint sh = Some n \<and> chunk_data n r1 = (Inr data, r')"
proof -
  obtain l r1 where l: "read_line r = (Inr l, r1)"
    "(case signed_header l of Inl e \<Rightarrow> efail e
      | Inr (sh, sg) \<Rightarrow> ebind (chunk_size sh) (\<lambda>n. ebind (chunk_data n) (\<lambda>data. eret (n, sg, data)))) r1
      = (Inr (n, sg, data), r')"
    using assms unfolding signed_frame_def ebind_Inr by blast
  then show ?thesis by (auto simp: ebind_Inr chunk_size_Inr efail_def eret_def split: sum.splits)
qed

lemma frame_length:
  "read_line r = (Inr l, r1) \<Longrightarrow> chunk_data n r1 = (Inr data, r') \<Longrightarrow> length (fst r') < length (fst r)"
  using read_line_length [of r l r1] chunk_data_Inr [of n r1 data r'] by auto

lemma unsigned_next_length:
  "unsigned_next s = (None, s') \<Longrightarrow> \<not> c_eof s' \<Longrightarrow> length (fst (c_src s')) < length (fst (c_src s))"
  by (auto simp: unsigned_next_def split: prod.splits sum.splits if_splits
      dest!: unsigned_frame_Inr dest: frame_length)

lemma signed_next_length:
  "signed_next d s = (None, s') \<Longrightarrow> \<not> c_eof s' \<Longrightarrow> length (fst (c_src s')) < length (fst (c_src s))"
  by (auto simp: signed_next_def split: prod.splits sum.splits if_splits
      dest!: signed_frame_Inr dest: frame_length)

function unsigned_rest :: "chunked \<Rightarrow> reader" where
  "unsigned_rest s = (case unsigned_next s of
       (Some e, s') \<Rightarrow> ([], ending_of e)
     | (None, s') \<Rightarrow> if c_eof s' then ([], Eof)
         else (case unsigned_rest s' of (bs, t) \<Rightarrow> (c_left s' @ bs, t)))"
  by pat_completeness auto
termination
  by (relation "measure (\<lambda>s. length (fst (c_src s)))") (auto dest: unsigned_next_length [OF sym])

function signed_rest :: "digests \<Rightarrow> signed_chunked \<Rightarrow> reader" where
  "signed_rest d s = (case signed_next d s of
       (Some e, s') \<Rightarrow> ([], ending_of e)
     | (None, s') \<Rightarrow> if c_eof s' then ([], Eof)
         else (case signed_rest d s' of (bs, t) \<Rightarrow> (c_left s' @ bs, t)))"
  by pat_completeness auto
termination
  by (relation "measure (\<lambda>(d, s). length (fst (c_src s)))") (auto dest: signed_next_length [OF sym])

declare unsigned_rest.simps [simp del] signed_rest.simps [simp del]

text \<open>\<open>nextChunk\<close> looks at neither the bytes left nor the sticky error.\<close>

lemma unsigned_rest_left: "unsigned_rest (s\<lparr>c_left := l\<rparr>) = unsigned_rest s"
proof -
  obtain v src where f: "unsigned_frame (c_src s) = (v, src)" by (cases "unsigned_frame (c_src s)")
  obtain e src' where k: "skip_trailers src = (e, src')" by (cases "skip_trailers src")
  have "unsigned_next (s\<lparr>c_left := l\<rparr>) = (case v of
      Inl e \<Rightarrow> (Some e, s\<lparr>c_src := src, c_left := l\<rparr>)
    | Inr (sz, data) \<Rightarrow> if sz = 0 then (e, s\<lparr>c_src := src', c_left := l, c_eof := True\<rparr>)
        else (None, s\<lparr>c_src := src, c_left := data\<rparr>))" for l
    using f k by (cases v) (simp_all add: unsigned_next_def split: prod.split)
  from this [of l] this [of "c_left s"] show ?thesis
    unfolding unsigned_rest.simps [of s] unsigned_rest.simps [of "s\<lparr>c_left := l\<rparr>"]
    by (cases v; cases e) (auto split: prod.splits)
qed

lemma signed_rest_left: "signed_rest d (s\<lparr>c_left := l\<rparr>) = signed_rest d s"
proof -
  obtain v src where f: "signed_frame (c_src s) = (v, src)" by (cases "signed_frame (c_src s)")
  have "signed_next d (s\<lparr>c_left := l\<rparr>) = (case v of
      Inl e \<Rightarrow> (Some e, s\<lparr>c_src := src, c_left := l\<rparr>)
    | Inr (sz, sg, data) \<Rightarrow>
        if chunk_signature d (c_key s) (c_datetime s) (c_scope s) (c_prev s) data \<noteq> sg
        then (Some ErrSignatureMismatch, s\<lparr>c_src := src, c_left := l\<rparr>)
        else if sz = 0 then (None, s\<lparr>c_src := src, c_left := l, c_prev := sg, c_eof := True\<rparr>)
        else (None, s\<lparr>c_src := src, c_prev := sg, c_left := data\<rparr>))" for l
    using f by (cases v) (simp_all add: signed_next_def split: prod.split)
  from this [of l] this [of "c_left s"] show ?thesis
    unfolding signed_rest.simps [of d s] signed_rest.simps [of d "s\<lparr>c_left := l\<rparr>"]
    by (cases v) (auto split: prod.splits)
qed

interpretation unsigned: chunk_decoder unsigned_next unsigned_rest
proof (unfold_locales, goal_cases)
  case (1 s e s')
  then show ?case by (simp add: unsigned_rest.simps)
next
  case (2 s s')
  then show ?case
    by (auto simp: unsigned_rest.simps unsigned_next_def split: prod.splits sum.splits if_splits)
next
  case (3 s s')
  then have "c_left s' \<noteq> []"
    by (auto simp: unsigned_next_def split: prod.splits sum.splits if_splits
        dest!: unsigned_frame_Inr chunk_data_Inr)
  with 3 show ?case by (simp add: unsigned_rest.simps [of s] split: prod.split)
next
  case (4 s s')
  then show ?case by (auto simp: unsigned_next_def split: prod.splits sum.splits if_splits)
qed (rule unsigned_rest_left)

interpretation signed: chunk_decoder "signed_next d" "signed_rest d" for d
proof (unfold_locales, goal_cases)
  case (1 s e s')
  then show ?case by (simp add: signed_rest.simps)
next
  case (2 s s')
  then show ?case
    by (auto simp: signed_rest.simps signed_next_def split: prod.splits sum.splits if_splits)
next
  case (3 s s')
  then have "c_left s' \<noteq> []"
    by (auto simp: signed_next_def split: prod.splits sum.splits if_splits
        dest!: signed_frame_Inr chunk_data_Inr)
  with 3 show ?case by (simp add: signed_rest.simps [of d s] split: prod.split)
next
  case (4 s s')
  then show ?case by (auto simp: signed_next_def split: prod.splits sum.splits if_splits)
qed (rule signed_rest_left)

text \<open>The hash-checking reader over the body of a request with a known length, whose \<^verbatim>\<open>Read\<close>
  reports EOF together with the last byte.\<close>

definition body_read :: "nat \<Rightarrow> reader \<Rightarrow> bytes \<times> goerr option \<times> reader" where
  "body_read n r = (case r of (d, t) \<Rightarrow>
     (take n d, if length d \<le> n then Some (end_err t) else None, (drop n d, t)))"

interpretation body: hashed_body body_read "\<lambda>r. r" "\<lambda>_. True"
  by unfold_locales (auto simp: body_read_def split: prod.splits if_splits)

end
