(* ===== verification/SigBodyClaims.thy ===== *)
theory SigBodyClaims
  imports SigBody SigProperties
begin

text \<open>
  Properties of the body decoders: round trip with a client's chunked encoding, the chain of
  chunk signatures, what a truncation does, agreement of the two decoders, and the hash check.
\<close>

section \<open>A client's encoding\<close>

fun hex_of_nat :: "nat \<Rightarrow> string" where
  "hex_of_nat n = (if n < 16 then [hex_digit n] else hex_of_nat (n div 16) @ [hex_digit (n mod 16)])"

declare hex_of_nat.simps [simp del]


definition put_chunk :: "string \<Rightarrow> bytes \<Rightarrow> bytes" where
  "put_chunk sg data =
     bytes_of (hex_of_nat (length data) @ '';'' @ sig_prefix @ sg @ crlf) @ data @ bytes_of crlf"

fun sign_chunks :: "digests \<Rightarrow> bytes \<Rightarrow> string \<Rightarrow> string \<Rightarrow> string \<Rightarrow> bytes list \<Rightarrow> bytes" where
  "sign_chunks d key dt sc prev [] = []"
| "sign_chunks d key dt sc prev (data # ds) =
     (let sg = chunk_signature d key dt sc prev data in put_chunk sg data @ sign_chunks d key dt sc sg ds)"

lemma hex_num_snoc: "hex_num (s @ [c]) = hex_num s * 16 + the (hex_val c)"
  by (simp add: hex_num_def)

lemma hex_of_nat_num: "hex_num (hex_of_nat n) = n \<and> hex_of_nat n \<noteq> [] \<and> (\<forall>c\<in>set (hex_of_nat n). hex_val c \<noteq> None)"
proof (induction n rule: hex_of_nat.induct)
  case (1 n)
  show ?case
  proof (cases "n < 16")
    case True
    then show ?thesis by (simp add: hex_of_nat.simps [of n] hex_num_def hex_val_digit)
  next
    case False
    with 1 have "hex_num (hex_of_nat (n div 16)) = n div 16" "\<forall>c\<in>set (hex_of_nat (n div 16)). hex_val c \<noteq> None"
      by auto
    with False show ?thesis
      by (simp add: hex_of_nat.simps [of n] hex_num_snoc hex_val_digit)
  qed
qed

lemma parse_hex_of_nat: "n < 2 ^ 63 \<Longrightarrow> parse_hex_uint (hex_of_nat n) = Some n"
  using hex_of_nat_num [of n] by (auto simp: parse_hex_uint_def)

lemma hex_val_plain: "hex_val c \<noteq> None \<Longrightarrow> \<not> is_space c \<and> c \<noteq> CHR 0x0A \<and> c \<noteq> CHR 0x0D \<and> c \<noteq> CHR '';''"
  by (auto simp: hex_val_def Let_def is_space_def)

definition hex_text :: "string \<Rightarrow> bool" where
  "hex_text s \<longleftrightarrow> (\<forall>c\<in>set s. hex_val c \<noteq> None)"

lemma hex_text_of_nat: "hex_text (hex_of_nat n)"
  using hex_of_nat_num [of n] by (simp add: hex_text_def)

lemma hex_text_encode: "hex_text (hex_encode b)"
proof -
  have "hex_val (hex_digit (unat x div 16)) \<noteq> None \<and> hex_val (hex_digit (unat x mod 16)) \<noteq> None" for x :: byte
    using unat_byte_less [of x] by (simp add: hex_val_digit less_mult_imp_div_less)
  then show ?thesis by (auto simp: hex_text_def hex_encode_def)
qed

lemma hex_text_plain:
  "hex_text s \<Longrightarrow> c \<in> set s \<Longrightarrow> \<not> is_space c \<and> c \<noteq> CHR 0x0A \<and> c \<noteq> CHR 0x0D \<and> c \<noteq> CHR '';''"
  using hex_val_plain by (auto simp: hex_text_def)

lemma hex_text_chunk_signature: "hex_text (chunk_signature d key dt sc prev data)"
  by (simp add: chunk_signature_def hex_text_encode)

lemma bytes_of_append: "bytes_of (a @ b) = bytes_of a @ bytes_of b"
  by (simp add: bytes_of_def)

lemma newline_bytes: "(10 :: byte) \<in> set (bytes_of h) \<longleftrightarrow> CHR 0x0A \<in> set h"
proof -
  have "(of_char c :: byte) = 10 \<longleftrightarrow> c = CHR 0x0A" for c
  proof
    assume "(of_char c :: byte) = 10"
    then have "unat (of_char c :: byte) = unat (10 :: byte)" by simp
    then have "(of_char c :: nat) = of_char CHR 0x0A" by (simp only: unat_of_char) simp
    then show "c = CHR 0x0A" by (simp only: of_char_eq_iff)
  qed simp
  then show ?thesis by (auto simp: bytes_of_def image_iff)
qed

lemma read_line_bytes:
  assumes "CHR 0x0A \<notin> set h"
  shows "read_line (bytes_of (h @ [CHR 0x0A]) @ rest, t) = (Inr (h @ [CHR 0x0A]), (rest, t))"
proof -
  have n: "\<forall>b\<in>set (bytes_of h). b \<noteq> 10" using assms newline_bytes [of h] by auto
  have b: "bytes_of (h @ [CHR 0x0A]) @ rest = bytes_of h @ 10 # rest" by (simp add: bytes_of_def)
  have "takeWhile (\<lambda>b. b \<noteq> 10) (bytes_of h @ 10 # rest) = bytes_of h"
    "dropWhile (\<lambda>b. b \<noteq> 10) (bytes_of h @ 10 # rest) = 10 # rest"
    using n by (simp_all add: takeWhile_append2 dropWhile_append2)
  then show ?thesis unfolding read_line_def b by simp
qed

lemma trim_eol_crlf:
  assumes "h \<noteq> [] \<Longrightarrow> last h \<noteq> CHR 0x0D \<and> last h \<noteq> CHR 0x0A"
  shows "trim_eol (h @ crlf) = h"
  using assms by (cases h rule: rev_cases) (simp_all add: trim_eol_def crlf_def)

lemma trim_space_hex: "hex_text s \<Longrightarrow> trim_space s = s"
proof -
  assume h: "hex_text s"
  have "dropWhile is_space t = t" if "\<forall>c\<in>set t. \<not> is_space c" for t
    using that by (cases t) auto
  from this [of s] this [of "rev s"] show ?thesis
    using hex_text_plain [OF h] by (simp add: trim_space_def)
qed

lemma header_text:
  assumes "hex_text a" "hex_text sg"
  defines "h \<equiv> a @ '';'' @ sig_prefix @ sg"
  shows "trim_eol (h @ crlf) = h" "cut_at CHR '';'' h = Some (a, sig_prefix @ sg)"
    "CHR 0x0A \<notin> set (h @ [CHR 0x0D])"
proof -
  have "last h \<noteq> CHR 0x0D \<and> last h \<noteq> CHR 0x0A"
  proof (cases "sg = []")
    case False
    then show ?thesis using hex_text_plain [OF assms(2), of "last sg"] by (simp add: h_def)
  qed (simp add: h_def sig_prefix_def)
  then show "trim_eol (h @ crlf) = h" by (intro trim_eol_crlf) simp
  have "CHR '';'' \<notin> set a" using hex_text_plain [OF assms(1)] by blast
  then show "cut_at CHR '';'' h = Some (a, sig_prefix @ sg)" by (simp add: h_def cut_at_append)
  show "CHR 0x0A \<notin> set (h @ [CHR 0x0D])"
    using hex_text_plain [OF assms(1)] hex_text_plain [OF assms(2)]
    by (auto simp: h_def sig_prefix_def)
qed

lemma signed_header_text:
  assumes "hex_text a" "hex_text sg"
  shows "signed_header ((a @ '';'' @ sig_prefix @ sg) @ crlf) = Inr (a, sg)"
proof -
  have "index_of (sig_prefix @ sg) sig_prefix = Some 0"
    by (subst index_of.simps) (simp only: has_prefix_append if_True)
  then show ?thesis
    unfolding signed_header_def header_text [OF assms]
    by (simp add: trim_space_hex [OF assms(2)])
qed

lemma put_chunk_line:
  assumes "hex_text sg"
  shows "read_line (put_chunk sg data @ rest, t) =
    (Inr ((hex_of_nat (length data) @ '';'' @ sig_prefix @ sg) @ crlf), (data @ bytes_of crlf @ rest, t))"
proof -
  let ?h = "hex_of_nat (length data) @ '';'' @ sig_prefix @ sg"
  have "put_chunk sg data @ rest = bytes_of ((?h @ [CHR 0x0D]) @ [CHR 0x0A]) @ data @ bytes_of crlf @ rest"
    by (simp add: put_chunk_def crlf_def)
  then show ?thesis
    using read_line_bytes [OF header_text(3) [OF hex_text_of_nat assms], of "length data" "data @ bytes_of crlf @ rest" t]
    by (simp add: crlf_def)
qed

lemma chunk_data_enough:
  assumes "length data \<le> max_alloc"
  shows "chunk_data (length data) (data @ bytes_of crlf @ rest, t) = (Inr data, (rest, t))"
  using assms
  by (simp add: chunk_data_def ebind_def read_exact_def read_full_def discard_def eret_def bytes_of_def crlf_def)

lemma max_alloc_63: "n \<le> max_alloc \<Longrightarrow> n < 2 ^ 63"
  by (simp add: max_alloc_def)

lemma signed_frame_put:
  assumes "hex_text sg" "length data \<le> max_alloc"
  shows "signed_frame (put_chunk sg data @ rest, t) = (Inr (length data, sg, data), (rest, t))"
  using chunk_data_enough [OF assms(2), of rest t] parse_hex_of_nat [OF max_alloc_63 [OF assms(2)]]
  by (simp add: signed_frame_def ebind_def put_chunk_line [OF assms(1)] signed_header_text [OF hex_text_of_nat assms(1), simplified]
      chunk_size_def eret_def)

lemma unsigned_frame_put:
  assumes "hex_text sg" "length data \<le> max_alloc"
  shows "unsigned_frame (put_chunk sg data @ rest, t) = (Inr (length data, data), (rest, t))"
  using chunk_data_enough [OF assms(2), of rest t] parse_hex_of_nat [OF max_alloc_63 [OF assms(2)]]
  by (simp add: unsigned_frame_def ebind_def put_chunk_line [OF assms(1)] header_text(1,2) [OF hex_text_of_nat assms(1), simplified]
      Let_def chunk_size_def eret_def)

section \<open>Decoding what a client sent\<close>

lemma signed_rest_chunks:
  assumes "\<forall>x\<in>set ds. x \<noteq> [] \<and> length x \<le> max_alloc"
    and "c_src s = (sign_chunks d (c_key s) (c_datetime s) (c_scope s) (c_prev s) ds @ more_bytes, t)" "\<not> c_eof s"
  shows "\<exists>s'. c_src s' = (more_bytes, t) \<and> \<not> c_eof s' \<and> c_key s' = c_key s \<and> c_datetime s' = c_datetime s \<and>
      c_scope s' = c_scope s \<and>
      signed_rest d s = (concat ds @ fst (signed_rest d s'), snd (signed_rest d s')) \<and>
      c_prev s' = foldl (chunk_signature d (c_key s) (c_datetime s) (c_scope s)) (c_prev s) ds"
  using assms
proof (induction ds arbitrary: s)
  case Nil
  then show ?case by auto
next
  case (Cons x ds)
  define sg where "sg = chunk_signature d (c_key s) (c_datetime s) (c_scope s) (c_prev s) x"
  define u where "u = sign_chunks d (c_key s) (c_datetime s) (c_scope s) sg ds @ more_bytes"
  have src: "c_src s = (put_chunk sg x @ u, t)"
    using Cons.prems(2) by (simp add: sg_def u_def Let_def)
  have x: "x \<noteq> []" "length x \<le> max_alloc" using Cons.prems(1) by auto
  let ?s = "s\<lparr>c_src := (u, t), c_prev := sg, c_left := x\<rparr>"
  have "hex_text sg" by (simp add: sg_def hex_text_chunk_signature)
  then have "signed_frame (c_src s) = (Inr (length x, sg, x), (u, t))"
    unfolding src using x(2) by (rule signed_frame_put)
  then have "signed_next d s = (None, ?s)"
    using x(1) by (simp add: signed_next_def flip: sg_def)
  then have step: "signed_rest d s = (x @ fst (signed_rest d ?s), snd (signed_rest d ?s))"
    using Cons.prems(3) by (simp add: signed_rest.simps [of d s] split: prod.split)
  obtain s' where s': "c_src s' = (more_bytes, t)" "\<not> c_eof s'" "c_key s' = c_key ?s" "c_datetime s' = c_datetime ?s"
      "c_scope s' = c_scope ?s"
      "signed_rest d ?s = (concat ds @ fst (signed_rest d s'), snd (signed_rest d s'))"
      "c_prev s' = foldl (chunk_signature d (c_key ?s) (c_datetime ?s) (c_scope ?s)) (c_prev ?s) ds"
    using Cons.IH [of ?s] Cons.prems(1,3) by (auto simp: u_def)
  then show ?case using step by (intro exI [of _ s']) (simp add: sg_def)
qed

lemma signed_rest_last:
  assumes "c_src s = (put_chunk (chunk_signature d (c_key s) (c_datetime s) (c_scope s) (c_prev s) []) [] @ junk, t)"
  shows "signed_rest d s = ([], Eof)"
  unfolding signed_rest.simps [of d s] signed_next_def assms
  by (simp add: signed_frame_put [OF hex_text_chunk_signature, of "[]", simplified] max_alloc_def)

lemma sign_chunks_append:
  "sign_chunks d key dt sc prev (xs @ ys) = sign_chunks d key dt sc prev xs @
     sign_chunks d key dt sc (foldl (chunk_signature d key dt sc) prev xs) ys"
  by (induction xs arbitrary: prev) (simp_all add: Let_def)

lemma signed_rest_complete:
  assumes "\<forall>x\<in>set ds. x \<noteq> [] \<and> length x \<le> max_alloc"
  shows "signed_rest d (new_signed_reader (sign_chunks d key dt sc seed (ds @ [[]]) @ junk, t) key dt sc seed)
    = (concat ds, Eof)"
proof -
  let ?s = "new_signed_reader (sign_chunks d key dt sc seed (ds @ [[]]) @ junk, t) key dt sc seed"
  let ?last = "put_chunk (chunk_signature d key dt sc (foldl (chunk_signature d key dt sc) seed ds) []) []"
  have src: "c_src ?s = (sign_chunks d (c_key ?s) (c_datetime ?s) (c_scope ?s) (c_prev ?s) ds @ ?last @ junk, t)"
    by (simp add: new_signed_reader_def sign_chunks_append Let_def)
  have "\<not> c_eof ?s" by (simp add: new_signed_reader_def)
  from signed_rest_chunks [OF assms src this] obtain s' where
    s': "c_src s' = (?last @ junk, t)" "c_key s' = key" "c_datetime s' = dt" "c_scope s' = sc"
      "c_prev s' = foldl (chunk_signature d key dt sc) seed ds"
      "signed_rest d ?s = (concat ds @ fst (signed_rest d s'), snd (signed_rest d s'))"
    by (auto simp: new_signed_reader_def)
  then have "signed_rest d s' = ([], Eof)" by (intro signed_rest_last) simp
  then show ?thesis using s'(6) by simp
qed

lemma read_line_nil: "read_line ([], t) = (Inl (end_err t), ([], t))"
  by (simp add: read_line_def)

lemma signed_rest_truncated:
  assumes "\<forall>x\<in>set ds. x \<noteq> [] \<and> length x \<le> max_alloc"
  shows "signed_rest d (new_signed_reader (sign_chunks d key dt sc seed ds, t) key dt sc seed)
    = (concat ds, ending_of (end_err t))"
proof -
  let ?s = "new_signed_reader (sign_chunks d key dt sc seed ds, t) key dt sc seed"
  have src: "c_src ?s = (sign_chunks d (c_key ?s) (c_datetime ?s) (c_scope ?s) (c_prev ?s) ds @ [], t)"
    by (simp add: new_signed_reader_def)
  have "\<not> c_eof ?s" by (simp add: new_signed_reader_def)
  from signed_rest_chunks [OF assms src this] obtain s' where
    s': "c_src s' = ([], t)"
      "signed_rest d ?s = (concat ds @ fst (signed_rest d s'), snd (signed_rest d s'))"
    by blast
  have "signed_frame ([], t) = (Inl (end_err t), ([], t))"
    by (simp add: signed_frame_def ebind_def read_line_nil)
  then have "signed_rest d s' = ([], ending_of (end_err t))"
    by (simp add: signed_rest.simps [of d s'] signed_next_def s'(1))
  then show ?thesis using s'(2) by simp
qed

lemma signed_pend_new:
  "chunked_pend (signed_rest d) (new_signed_reader r key dt sc seed) = signed_rest d (new_signed_reader r key dt sc seed)"
  by (simp add: chunked_pend_def new_signed_reader_def)

section \<open>The chain of chunk signatures\<close>

text \<open>A parsed chunk: header line, signature, data and the two bytes after it.\<close>

type_synonym frame = "bytes \<times> string \<times> bytes \<times> bytes"

fun frame_bytes :: "frame \<Rightarrow> bytes" where
  "frame_bytes (h, sg, data, x) = h @ 10 # data @ x"

fun frame_data :: "frame \<Rightarrow> bytes" where
  "frame_data (h, sg, data, x) = data"

fun frame_ok :: "frame \<Rightarrow> bool" where
  "frame_ok (h, sg, data, x) \<longleftrightarrow> length x = 2 \<and>
     (\<exists>sh. signed_header (string_of h @ [CHR 0x0A]) = Inr (sh, sg) \<and> parse_hex_uint sh = Some (length data))"

text \<open>Every chunk carries the signature of its data chained to the signature before it.\<close>

fun chain_ok :: "digests \<Rightarrow> bytes \<Rightarrow> string \<Rightarrow> string \<Rightarrow> string \<Rightarrow> frame list \<Rightarrow> bool" where
  "chain_ok d key dt sc prev [] \<longleftrightarrow> True"
| "chain_ok d key dt sc prev ((h, sg, data, x) # fs) \<longleftrightarrow>
     sg = chunk_signature d key dt sc prev data \<and> chain_ok d key dt sc sg fs"

lemma signed_next_frame:
  assumes "signed_next d s = (None, s')"
  shows "\<exists>h sg data x src. fst (c_src s) = frame_bytes (h, sg, data, x) @ fst src \<and> frame_ok (h, sg, data, x) \<and>
    sg = chunk_signature d (c_key s) (c_datetime s) (c_scope s) (c_prev s) data \<and>
    s' = (if data = [] then s\<lparr>c_src := src, c_prev := sg, c_eof := True\<rparr>
          else s\<lparr>c_src := src, c_prev := sg, c_left := data\<rparr>)"
proof -
  obtain n sg data src where f: "signed_frame (c_src s) = (Inr (n, sg, data), src)"
    "sg = chunk_signature d (c_key s) (c_datetime s) (c_scope s) (c_prev s) data"
    "s' = (if n = 0 then s\<lparr>c_src := src, c_prev := sg, c_eof := True\<rparr>
           else s\<lparr>c_src := src, c_prev := sg, c_left := data\<rparr>)"
    using assms by (auto simp: signed_next_def split: prod.splits sum.splits if_splits)
  obtain l r1 sh where l: "read_line (c_src s) = (Inr l, r1)" "signed_header l = Inr (sh, sg)"
    "parse_hex_uint sh = Some n" "chunk_data n r1 = (Inr data, src)"
    using signed_frame_Inr [OF f(1)] by blast
  obtain h where h: "fst (c_src s) = h @ 10 # fst r1" "l = string_of h @ [CHR 0x0A]"
    using read_line_Inr [OF l(1)] by blast
  obtain x where x: "length data = n" "length x = 2" "fst r1 = data @ x @ fst src"
    using chunk_data_Inr [OF l(4)] by blast
  show ?thesis
    using f h l x by (intro exI [of _ h] exI [of _ sg] exI [of _ data] exI [of _ x] exI [of _ src]) auto
qed

lemma signed_rest_frames:
  "\<exists>fs rest. fst (c_src s) = concat (map frame_bytes fs) @ rest \<and> fst (signed_rest d s) = concat (map frame_data fs) \<and>
     chain_ok d (c_key s) (c_datetime s) (c_scope s) (c_prev s) fs \<and> (\<forall>f\<in>set fs. frame_ok f)"
proof (induction d s rule: signed_rest.induct)
  case (1 d s)
  obtain e s' where n: "signed_next d s = (e, s')" by (cases "signed_next d s")
  show ?case
  proof (cases "e = None \<and> \<not> c_eof s'")
    case False
    then have "fst (signed_rest d s) = []" using n by (cases e) (auto simp: signed_rest.simps [of d s])
    then show ?thesis by (intro exI [of _ "[]"] exI [of _ "fst (c_src s)"]) simp
  next
    case True
    note n' = n [unfolded conjunct1 [OF True]]
    obtain h sg data x src where f: "fst (c_src s) = frame_bytes (h, sg, data, x) @ fst src"
      "frame_ok (h, sg, data, x)" "sg = chunk_signature d (c_key s) (c_datetime s) (c_scope s) (c_prev s) data"
      "s' = s\<lparr>c_src := src, c_prev := sg, c_left := data\<rparr>"
      using signed_next_frame [OF n'] True by (auto split: if_splits)
    have keep: "c_key s' = c_key s" "c_datetime s' = c_datetime s" "c_scope s' = c_scope s"
      "c_prev s' = sg" "c_left s' = data" "c_src s' = src"
      by (simp_all add: f(4))
    obtain fs rest where IH: "fst (c_src s') = concat (map frame_bytes fs) @ rest"
      "fst (signed_rest d s') = concat (map frame_data fs)"
      "chain_ok d (c_key s') (c_datetime s') (c_scope s') (c_prev s') fs" "\<forall>f\<in>set fs. frame_ok f"
      using 1 [OF n [symmetric] _ _] True by blast
    have "fst (signed_rest d s) = data @ fst (signed_rest d s')"
      using n' True keep by (simp add: signed_rest.simps [of d s] split: prod.split)
    then show ?thesis
      using f(1-3) IH keep by (intro exI [of _ "(h, sg, data, x) # fs"] exI [of _ rest]) simp
  qed
qed

section \<open>Agreement of the decoders\<close>

lemma signed_unsigned_frame:
  assumes "signed_frame r = (Inr (n, sg, data), r')"
  shows "unsigned_frame r = (Inr (n, data), r')"
proof -
  obtain l r1 sh where l: "read_line r = (Inr l, r1)" "signed_header l = Inr (sh, sg)"
    "parse_hex_uint sh = Some n" "chunk_data n r1 = (Inr data, r')"
    using signed_frame_Inr [OF assms] by blast
  then obtain ext where "cut_at CHR '';'' (trim_eol l) = Some (sh, ext)"
    by (auto simp: signed_header_def split: option.splits)
  then show ?thesis using l by (simp add: unsigned_frame_def ebind_def chunk_size_def eret_def Let_def)
qed

lemma signed_unsigned_eof:
  assumes "signed_frame r = (Inl IoEOF, r')"
  shows "\<exists>r''. unsigned_frame r = (Inl IoEOF, r'')"
proof -
  obtain v r1 where Pair: "read_line r = (v, r1)" by (cases "read_line r")
  show ?thesis
  proof (cases v)
    case (Inl e)
    then show ?thesis using assms Pair by (auto simp: signed_frame_def unsigned_frame_def ebind_def)
  next
    case (Inr l)
    obtain sh sg n where h: "signed_header l = Inr (sh, sg)" "parse_hex_uint sh = Some n"
      "chunk_data n r1 = (Inl IoEOF, r')"
      using assms Pair Inr
      by (auto simp: signed_frame_def ebind_def signed_header_def chunk_size_def efail_def eret_def IoEOF_def
          split: option.splits sum.splits prod.splits)
    obtain ext where "cut_at CHR '';'' (trim_eol l) = Some (sh, ext)"
      using h(1) by (auto simp: signed_header_def split: option.splits)
    then show ?thesis
      using h Pair Inr by (simp add: unsigned_frame_def ebind_def chunk_size_def eret_def Let_def)
  qed
qed

lemma skip_trailers_eof: "snd r = Eof \<Longrightarrow> fst (skip_trailers r) = None"
proof (induction r rule: skip_trailers.induct)
  case (1 r)
  obtain v r1 where l: "read_line r = (v, r1)" by (cases "read_line r")
  have "snd r1 = Eof" "v = Inl e \<Longrightarrow> e = IoEOF" for e
    using l 1(2) by (cases r; auto simp: read_line_def split: if_splits)+
  then show ?case using 1(1) [OF l [symmetric]] l by (cases v) (auto simp: skip_trailers.simps [of r])
qed

lemma unsigned_frame_ending: "unsigned_frame r = (Inr (n, data), r') \<Longrightarrow> snd r' = snd r"
  using unsigned_frame_Inr read_line_Inr chunk_data_Inr by metis

lemma decoders_agree_rest:
  assumes "snd (signed_rest d s) = Eof" "snd (c_src s) = Eof" "c_src u = c_src s" "\<not> c_eof u" "\<not> c_eof s"
  shows "unsigned_rest u = signed_rest d s"
  using assms
proof (induction d s arbitrary: u rule: signed_rest.induct)
  case (1 d s)
  obtain v src where f: "signed_frame (c_src s) = (v, src)" by (cases "signed_frame (c_src s)")
  show ?case
  proof (cases v)
    case (Inl e)
    have "signed_rest d s = ([], ending_of e)"
      using f Inl by (simp add: signed_rest.simps [of d s] signed_next_def)
    with 1(2) have "e = IoEOF" "signed_rest d s = ([], Eof)" by (auto simp: ending_of_def split: if_splits)
    moreover obtain r'' where "unsigned_frame (c_src s) = (Inl IoEOF, r'')"
      using signed_unsigned_eof f Inl \<open>e = IoEOF\<close> by blast
    ultimately show ?thesis
      using 1(4) by (simp add: unsigned_rest.simps [of u] unsigned_next_def ending_of_def)
  next
    case (Inr w)
    obtain n sg data where w: "w = (n, sg, data)" by (cases w)
    note uf = signed_unsigned_frame [OF f [unfolded Inr w]]
    have ok: "chunk_signature d (c_key s) (c_datetime s) (c_scope s) (c_prev s) data = sg"
      using 1(2) f Inr w
      by (auto simp: signed_rest.simps [of d s] signed_next_def ending_of_def ErrSignatureMismatch_def IoEOF_def
          split: if_splits)
    show ?thesis
    proof (cases "n = 0")
      case True
      have "snd src = Eof" using unsigned_frame_ending [OF uf] 1(3) by simp
      then have "fst (skip_trailers src) = None" by (rule skip_trailers_eof)
      then obtain src' where "skip_trailers src = (None, src')" by (cases "skip_trailers src") auto
      then show ?thesis
        using f Inr w ok True uf 1(4)
        by (simp add: signed_rest.simps [of d s] unsigned_rest.simps [of u] signed_next_def unsigned_next_def)
    next
      case False
      let ?s = "s\<lparr>c_src := src, c_prev := sg, c_left := data\<rparr>"
      let ?u = "u\<lparr>c_src := src, c_left := data\<rparr>"
      have n: "signed_next d s = (None, ?s)" "unsigned_next u = (None, ?u)"
        using f Inr w ok False uf 1(4) by (simp_all add: signed_next_def unsigned_next_def)
      have r: "signed_rest d s = (data @ fst (signed_rest d ?s), snd (signed_rest d ?s))"
        "unsigned_rest u = (data @ fst (unsigned_rest ?u), snd (unsigned_rest ?u))"
        using n 1(5,6) by (simp_all add: signed_rest.simps [of d s] unsigned_rest.simps [of u] split: prod.split)
      have e: "snd (signed_rest d ?s) = Eof" "snd (c_src ?s) = Eof"
        using 1(2) r(1) unsigned_frame_ending [OF uf] 1(3) by simp_all
      have "unsigned_rest ?u = signed_rest d ?s"
        by (rule 1(1) [OF n(1) [symmetric] refl _ e]) (use 1(5,6) in simp_all)
      then show ?thesis using r by simp
    qed
  qed
qed

section \<open>Claims\<close>

definition demo_chunks :: "bytes list" where
  "demo_chunks = [[1, 2], [3]]"

lemma demo_chunks_ok: "\<forall>x\<in>set demo_chunks. x \<noteq> [] \<and> length x \<le> max_alloc"
  by (simp add: demo_chunks_def max_alloc_def)

text \<open>
  C16: round trip of \<^verbatim>\<open>STREAMING-AWS4-HMAC-SHA256-PAYLOAD\<close>.  A body that a client cut into
  non-empty chunks, signed along the chain from the seed signature and closed with an empty
  chunk is read back exactly, followed by EOF, whatever buffer sizes are used and whatever
  follows the last chunk.
\<close>

theorem signed_body_roundtrip:
  assumes "\<forall>x\<in>set ds. x \<noteq> [] \<and> length x \<le> max_alloc"
    and "\<forall>n\<in>set ns. 0 < n" "length (concat ds) < length ns"
  shows "read_sizes (signed_read d) ns
      (new_signed_reader (sign_chunks d key dt sc seed (ds @ [[]]) @ junk, t) key dt sc seed)
    = (concat ds, Some IoEOF)"
  unfolding signed_read_def
  by (subst signed.rd.read_sizes_all) (use assms in \<open>simp_all add: signed_pend_new signed_rest_complete\<close>)

theorem signed_body_roundtrip_witness:
  "read_sizes (signed_read demo_digests) [1, 1, 5, 1]
     (new_signed_reader (sign_chunks demo_digests [9] ''dt'' ''sc'' ''00'' (demo_chunks @ [[]]), Eof) [9] ''dt'' ''sc'' ''00'')
   = ([1, 2, 3], Some IoEOF)"
  using signed_body_roundtrip [OF demo_chunks_ok, of "[1, 1, 5, 1]" demo_digests "[9]" "''dt''" "''sc''" "''00''" "[]" Eof]
  by (simp add: demo_chunks_def)

text \<open>
  C17: every byte delivered by the signed decoder is authenticated.  Whatever the body and the
  buffer sizes, what has been delivered is an initial part of the data of chunks that stand
  at the start of the body, each with the signature of its own data, chained to the one
  before it and to the seed signature of the request.
\<close>

theorem signed_body_chain:
  assumes "read_sizes (signed_read d) ns (new_signed_reader (raw, t) key dt sc seed) = (bs, e)"
    and "\<forall>n\<in>set ns. 0 < n"
  shows "\<exists>fs rest unread. raw = concat (map frame_bytes fs) @ rest \<and> (\<forall>f\<in>set fs. frame_ok f) \<and>
    chain_ok d key dt sc seed fs \<and> concat (map frame_data fs) = bs @ unread \<and> (e \<noteq> None \<longrightarrow> unread = [])"
proof -
  let ?s = "new_signed_reader (raw, t) key dt sc seed"
  from signed.rd.read_sizes_pend [OF TrueI assms(2) assms(1) [unfolded signed_read_def]]
  obtain unread where "fst (signed_rest d ?s) = bs @ unread" "e \<noteq> None \<longrightarrow> unread = []"
    unfolding signed_pend_new by (cases e) auto
  moreover have "c_src ?s = (raw, t)" "c_key ?s = key" "c_datetime ?s = dt" "c_scope ?s = sc" "c_prev ?s = seed"
    by (simp_all add: new_signed_reader_def)
  moreover obtain fs rest where "fst (c_src ?s) = concat (map frame_bytes fs) @ rest"
    "fst (signed_rest d ?s) = concat (map frame_data fs)" "\<forall>f\<in>set fs. frame_ok f"
    "chain_ok d (c_key ?s) (c_datetime ?s) (c_scope ?s) (c_prev ?s) fs"
    using signed_rest_frames [of ?s d] by blast
  ultimately show ?thesis
    by (intro exI [of _ fs] exI [of _ rest] exI [of _ unread]) simp
qed

theorem signed_body_chain_witness:
  "\<exists>fs rest unread. [65, 10] = concat (map frame_bytes fs) @ rest \<and> chain_ok demo_digests [9] ''dt'' ''sc'' ''00'' fs \<and>
     concat (map frame_data fs) = [] @ unread"
proof -
  have "read_sizes (signed_read demo_digests) [4] (new_signed_reader ([65, 10], Eof) [9] ''dt'' ''sc'' ''00'')
      = ([], Some (New ''sigv4: chunk header missing extension''))"
    by code_simp
  from signed_body_chain [OF this] show ?thesis by auto
qed

text \<open>
  C18: a chunked body cut at a chunk boundary is accepted.  Without the closing empty chunk the
  signed decoder delivers the same bytes and the same clean EOF as for the complete body, so
  dropping the tail of an upload goes unnoticed.
\<close>

theorem truncated_chunked_body_accepted:
  assumes "\<forall>x\<in>set ds. x \<noteq> [] \<and> length x \<le> max_alloc"
    and "\<forall>n\<in>set ns. 0 < n" "length (concat ds) < length ns"
  shows "read_sizes (signed_read d) ns
      (new_signed_reader (sign_chunks d key dt sc seed ds, Eof) key dt sc seed) = (concat ds, Some IoEOF)"
  unfolding signed_read_def
  by (subst signed.rd.read_sizes_all) (use assms in \<open>simp_all add: signed_pend_new signed_rest_truncated\<close>)

theorem truncated_chunked_body_accepted_witness:
  "read_sizes (signed_read demo_digests) [1, 1, 5, 1]
     (new_signed_reader (sign_chunks demo_digests [9] ''dt'' ''sc'' ''00'' demo_chunks, Eof) [9] ''dt'' ''sc'' ''00'')
   = ([1, 2, 3], Some IoEOF)"
  using truncated_chunked_body_accepted [OF demo_chunks_ok, of "[1, 1, 5, 1]" demo_digests "[9]" "''dt''" "''sc''" "''00''"]
  by (simp add: demo_chunks_def)

text \<open>
  C19: the two decoders agree.  Whatever the body, when the signed decoder reads it to a clean
  EOF, the unsigned decoder reads the same bytes from it to a clean EOF.
\<close>

theorem decoders_agree:
  assumes "signed_rest d (new_signed_reader (raw, Eof) key dt sc seed) = (bs, Eof)"
    and "\<forall>n\<in>set ns. 0 < n" "length bs < length ns"
  shows "read_sizes unsigned_read ns (new_unsigned_reader (raw, Eof)) = (bs, Some IoEOF)"
proof -
  let ?s = "new_signed_reader (raw, Eof) key dt sc seed"
  have "unsigned_rest (new_unsigned_reader (raw, Eof)) = signed_rest d ?s"
    by (rule decoders_agree_rest) (simp add: assms(1), simp_all add: new_signed_reader_def new_unsigned_reader_def)
  then have "chunked_pend unsigned_rest (new_unsigned_reader (raw, Eof)) = (bs, Eof)"
    by (simp add: assms(1) chunked_pend_def new_unsigned_reader_def)
  then show ?thesis
    unfolding unsigned_read_def by (subst unsigned.rd.read_sizes_all) (use assms in simp_all)
qed

theorem decoders_agree_witness:
  "read_sizes unsigned_read [2, 2, 2, 2]
     (new_unsigned_reader (sign_chunks demo_digests [9] ''dt'' ''sc'' ''00'' (demo_chunks @ [[]]), Eof))
   = ([1, 2, 3], Some IoEOF)"
proof -
  have "signed_rest demo_digests (new_signed_reader
      (sign_chunks demo_digests [9] ''dt'' ''sc'' ''00'' (demo_chunks @ [[]]), Eof) [9] ''dt'' ''sc'' ''00'')
      = ([1, 2, 3], Eof)"
    using signed_rest_complete [OF demo_chunks_ok, of demo_digests "[9]" "''dt''" "''sc''" "''00''" "[]" Eof]
    by (simp add: demo_chunks_def)
  from decoders_agree [OF this, of "[2, 2, 2, 2]"] show ?thesis by simp
qed

text \<open>
  C20: the payload hash.  Read to its end, a body is delivered whole and ends in EOF exactly when
  its SHA-256 is the declared one, otherwise in \<^verbatim>\<open>ErrBadPayloadHash\<close>; but filling a buffer of
  exactly the body's length, as \<^verbatim>\<open>io.ReadFull\<close> does, reports success whatever the hash.
\<close>

theorem payload_hash_checked:
  assumes "\<forall>n\<in>set ns. 0 < n" "length bs < length ns"
  shows "read_sizes (hash_read d body_read) ns (new_hash_reader (bs, Eof) expected) =
      (bs, Some (if hash_hex d bs = to_lower expected then IoEOF else ErrBadPayloadHash)) \<and>
    (\<exists>h. read_loop (hash_read d body_read) (length bs) (length bs) (new_hash_reader (bs, Eof) expected)
      = Some (bs, None, h))"
proof
  let ?h = "new_hash_reader (bs, Eof) expected"
  have p: "hash_pend d (\<lambda>r. r) ?h = (bs, if hash_hex d bs \<noteq> to_lower expected then Fail ErrBadPayloadHash else Eof)"
    by (simp add: hash_pend_def new_hash_reader_def)
  show "read_sizes (hash_read d body_read) ns ?h =
      (bs, Some (if hash_hex d bs = to_lower expected then IoEOF else ErrBadPayloadHash))"
    by (subst body.hashed.read_sizes_all) (use assms in \<open>simp_all add: p\<close>)
  show "\<exists>h. read_loop (hash_read d body_read) (length bs) (length bs) ?h = Some (bs, None, h)"
    using body.hashed.read_loop_pend [OF TrueI le_refl p, of "length bs"] by auto
qed

theorem payload_hash_checked_witness:
  "read_sizes (hash_read demo_digests body_read) [1, 1, 1] (new_hash_reader ([5, 6], Eof) ''ff'') =
     ([5, 6], Some ErrBadPayloadHash)"
proof -
  have "length (hash_hex demo_digests [5, 6]) = 64" by (simp add: hash_hex_def demo_digests_def)
  then have "hash_hex demo_digests [5, 6] \<noteq> to_lower ''ff''" by (auto simp: to_lower_def)
  then show ?thesis using payload_hash_checked [of "[1, 1, 1]" "[5, 6]" demo_digests "''ff''"] by simp
qed

end
