(* ===== verification/Keys.thy ===== *)
theory Keys
  imports Table Codecs
begin

text \<open>
  The key store of \<^verbatim>\<open>internal/keys/keys.go\<close>: the map from buckets to 32-byte keys, the file
  \<^verbatim>\<open>keys.toml\<close> behind it and the atomic replacement of that file.  The file system is a map
  from names to contents and modes with a schedule of failures: every system call takes the
  head of \<open>d_faults\<close>; a failing write leaves the given number of bytes behind.  A crash is a
  schedule in which everything from some call on fails.
\<close>

section \<open>Files\<close>

record disk =
  d_files :: "string \<Rightarrow> (string \<times> int) option"
  d_faults :: "(goerr \<times> nat) option list"
  d_tmp :: "nat \<Rightarrow> string"   \<comment> \<open>the names \<^verbatim>\<open>os.CreateTemp\<close> picks, in turn\<close>
  d_next :: nat

text \<open>A system call with its effect, and what it leaves when it fails after \<open>k\<close> bytes.\<close>

definition os_call :: "(disk \<Rightarrow> disk) \<Rightarrow> (nat \<Rightarrow> disk \<Rightarrow> disk) \<Rightarrow> (disk, unit) step" where
  "os_call f g d = (case d_faults d of
       [] \<Rightarrow> (Inr (), f d)
     | None # fs \<Rightarrow> (Inr (), f (d\<lparr>d_faults := fs\<rparr>))
     | Some (e, k) # fs \<Rightarrow> (Inl e, g k (d\<lparr>d_faults := fs\<rparr>)))"

abbreviation "os_try f \<equiv> os_call f (\<lambda>k d. d)"

definition set_file :: "string \<Rightarrow> (string \<times> int) option \<Rightarrow> disk \<Rightarrow> disk" where
  "set_file n f d = d\<lparr>d_files := (d_files d)(n := f)\<rparr>"

definition fs_write :: "string \<Rightarrow> string \<Rightarrow> disk \<Rightarrow> disk" where
  "fs_write n data d = (case d_files d n of
       Some (c, m) \<Rightarrow> set_file n (Some (c @ data, m)) d | None \<Rightarrow> d)"

definition fs_chmod :: "string \<Rightarrow> int \<Rightarrow> disk \<Rightarrow> disk" where
  "fs_chmod n mode d = (case d_files d n of
       Some (c, m) \<Rightarrow> set_file n (Some (c, mode)) d | None \<Rightarrow> d)"

definition fs_rename :: "string \<Rightarrow> string \<Rightarrow> disk \<Rightarrow> disk" where
  "fs_rename a b d = (case d_files d a of
       Some f \<Rightarrow> set_file a None (set_file b (Some f) d) | None \<Rightarrow> d)"

text \<open>\<^verbatim>\<open>writeFileAtomic\<close>.  Closing and syncing change nothing a reader sees.\<close>

definition cleanup :: "string \<Rightarrow> goerr \<Rightarrow> (disk, 'a) step" where
  "cleanup tmp e d = (Inl e, snd (os_try (set_file tmp None) d))"

definition write_file_atomic :: "string \<Rightarrow> string \<Rightarrow> int \<Rightarrow> (disk, unit) step" where
  "write_file_atomic path data mode d =
     (let tmp = d_tmp d (d_next d) in
      ebind (os_try (set_file tmp (Some ([], 0x180))))
        (\<lambda>_. ecatch
          (ebind (os_call (fs_write tmp data) (\<lambda>k. fs_write tmp (take k data)))
            (\<lambda>_. ebind (os_try (fs_chmod tmp mode))
            (\<lambda>_. ebind (os_try id) (\<lambda>_. os_try id))))
          (cleanup tmp)
          (\<lambda>_. ecatch (os_try (fs_rename tmp path)) (cleanup tmp) eret)) (d\<lparr>d_next := Suc (d_next d)\<rparr>))"

section \<open>The store\<close>

definition ErrKeyNotFound :: goerr where "ErrKeyNotFound = New ''keys: no key for bucket''"
definition ErrKeyExists :: goerr where "ErrKeyExists = New ''keys: key already exists for bucket''"
definition key_len :: nat where "key_len = 32"

record keyring =
  ks_path :: string
  ks_keys :: "(string \<times> bytes) list"
  ks_disk :: disk

definition find_key :: "string \<Rightarrow> keyring \<Rightarrow> (string \<times> bytes) option" where
  "find_key b s = t_find fst b (ks_keys s)"
definition put_key :: "string \<times> bytes \<Rightarrow> keyring \<Rightarrow> keyring" where
  "put_key r s = s\<lparr>ks_keys := t_upsert fst r (ks_keys s)\<rparr>"
definition del_key :: "string \<Rightarrow> keyring \<Rightarrow> keyring" where
  "del_key b s = s\<lparr>ks_keys := t_delete fst b (ks_keys s)\<rparr>"
definition ks_inv :: "keyring \<Rightarrow> bool" where
  "ks_inv s \<longleftrightarrow> t_inv fst (ks_keys s)"

interpretation kst: keyed_table fst find_key put_key del_key ks_keys ks_inv
  by unfold_locales
    (simp_all add: find_key_def put_key_def del_key_def ks_inv_def t_inv_upsert t_inv_delete
      t_find_upsert t_find_delete t_find_Some t_inv_def [symmetric])

text \<open>\<^verbatim>\<open>%q\<close>: \<^verbatim>\<open>strconv.Quote\<close>; bytes beyond ASCII belong to printable characters and are kept.\<close>

definition quote_char :: "char \<Rightarrow> string" where
  "quote_char c = (let n = of_char c :: nat in
     if c = CHR 0x22 \<or> c = CHR 0x5C then [CHR 0x5C, c]
     else if n = 7 then [CHR 0x5C, CHR ''a''] else if n = 8 then [CHR 0x5C, CHR ''b'']
     else if n = 9 then [CHR 0x5C, CHR ''t''] else if n = 10 then [CHR 0x5C, CHR ''n'']
     else if n = 11 then [CHR 0x5C, CHR ''v''] else if n = 12 then [CHR 0x5C, CHR ''f'']
     else if n = 13 then [CHR 0x5C, CHR ''r'']
     else if n < 32 \<or> n = 127 then [CHR 0x5C, CHR ''x'', hex_digit (n div 16), hex_digit (n mod 16)]
     else [c])"

definition go_quote :: "string \<Rightarrow> string" where
  "go_quote s = [CHR 0x22] @ concat (map quote_char s) @ [CHR 0x22]"

definition key_line :: "string \<times> bytes \<Rightarrow> string" where
  "key_line r = go_quote (fst r) @ '' = '' @ go_quote (std_encode (snd r)) @ [CHR 0x0A]"

definition keys_header :: string where
  "keys_header = ''# Telang per-bucket encryption keys. Back this up out of band.'' @ [CHR 0x0A] @
     ''# Losing this file = losing the data.'' @ [CHR 0x0A]"

definition keys_text :: "(string \<times> bytes) list \<Rightarrow> string" where
  "keys_text ks = keys_header @ concat (map key_line (sort_key fst ks))"

definition flush_locked :: "(keyring, unit) step" where
  "flush_locked s = (case write_file_atomic (ks_path s) (keys_text (ks_keys s)) 0x180 (ks_disk s) of
       (r, d) \<Rightarrow> (r, s\<lparr>ks_disk := d\<rparr>))"

definition keys_get :: "string \<Rightarrow> keyring \<Rightarrow> goerr + bytes" where
  "keys_get b s = (case find_key b s of None \<Rightarrow> Inl ErrKeyNotFound | Some (n, k) \<Rightarrow> Inr k)"

text \<open>\<open>rnd\<close> is what \<^verbatim>\<open>rand.Read\<close> delivers.\<close>

definition keys_create :: "goerr + bytes \<Rightarrow> string \<Rightarrow> (keyring, bytes) step" where
  "keys_create rnd b s =
     (if find_key b s \<noteq> None then (Inl ErrKeyExists, s)
      else case rnd of
        Inl e \<Rightarrow> (Inl e, s)
      | Inr r \<Rightarrow> let k = take key_len r @ replicate (key_len - length r) 0 in
         (case flush_locked (put_key (b, k) s) of
            (Inl e, s') \<Rightarrow> (Inl e, del_key b s')
          | (Inr _, s') \<Rightarrow> (Inr k, s')))"

definition keys_remove :: "string \<Rightarrow> (keyring, unit) step" where
  "keys_remove b s = (case find_key b s of
       None \<Rightarrow> (Inl ErrKeyNotFound, s)
     | Some saved \<Rightarrow> (case flush_locked (del_key b s) of
           (Inl e, s') \<Rightarrow> (Inl e, put_key saved s')
         | (Inr _, s') \<Rightarrow> (Inr (), s')))"

text \<open>\<^verbatim>\<open>Load\<close>.  \<open>toml\<close> is \<^verbatim>\<open>toml.DecodeFile\<close> on a file's text; \<open>stat\<close> is what \<^verbatim>\<open>os.Stat\<close> fails
  with besides a missing file.\<close>

fun decode_keys :: "(string \<times> string) list \<Rightarrow> goerr + (string \<times> bytes) list" where
  "decode_keys [] = Inr []"
| "decode_keys ((b, t) # rs) = (case std_decode t of
       None \<Rightarrow> Inl (Wrap ''keys: bucket'' [New ''illegal base64 data''])
     | Some k \<Rightarrow>
         if length k \<noteq> key_len then Inl (Wrap ''keys: bucket'' [])
         else (case decode_keys rs of Inl e \<Rightarrow> Inl e | Inr ks \<Rightarrow> Inr ((b, k) # ks)))"

definition keys_load ::
    "(string \<Rightarrow> goerr + (string \<times> string) list) \<Rightarrow> goerr option \<Rightarrow> string \<Rightarrow> disk \<Rightarrow> (goerr + keyring) \<times> disk" where
  "keys_load toml stat path d = (case (stat, d_files d path) of
       (Some e, _) \<Rightarrow> (Inl (Wrap ''keys: stat'' [e]), d)
     | (None, None) \<Rightarrow>
         (case os_try id d of
            (Inl e, d') \<Rightarrow> (Inl (Wrap ''keys: mkdir'' [e]), d')
          | (Inr _, d') \<Rightarrow> (case write_file_atomic path [] 0x180 d' of
                (Inl e, d'') \<Rightarrow> (Inl (Wrap ''keys: create'' [e]), d'')
              | (Inr _, d'') \<Rightarrow> (Inr \<lparr>ks_path = path, ks_keys = [], ks_disk = d''\<rparr>, d'')))
     | (None, Some (text, mode)) \<Rightarrow>
         if mode mod 64 \<noteq> 0 then (Inl (Wrap ''keys: must be chmod 600'' []), d)
         else (case toml text of
             Inl e \<Rightarrow> (Inl (Wrap ''keys: decode'' [e]), d)
           | Inr raw \<Rightarrow> (case decode_keys raw of
                 Inl e \<Rightarrow> (Inl e, d)
               | Inr ks \<Rightarrow> (Inr \<lparr>ks_path = path, ks_keys = ks, ks_disk = d\<rparr>, d))))"

section \<open>Atomic replacement\<close>

text \<open>The temporary names still to come are unused.\<close>

definition disk_ok :: "string \<Rightarrow> disk \<Rightarrow> bool" where
  "disk_ok path d \<longleftrightarrow> inj (d_tmp d) \<and> path \<notin> range (d_tmp d) \<and>
     (\<forall>i\<ge>d_next d. d_files d (d_tmp d i) = None)"

lemma os_call_cases:
  obtains (ok) fs where "os_call f g d = (Inr (), f (d\<lparr>d_faults := fs\<rparr>))"
  | (fail) e k fs where "os_call f g d = (Inl e, g k (d\<lparr>d_faults := fs\<rparr>))"
proof (cases "d_faults d")
  case Nil
  then have "d\<lparr>d_faults := []\<rparr> = d" by simp
  with Nil ok [of "[]"] show ?thesis by (simp add: os_call_def)
next
  case (Cons x fs)
  then show ?thesis using ok fail by (cases x) (auto simp: os_call_def)
qed

text \<open>Effects on the temporary file leave every other file alone.\<close>

definition same_but :: "string \<Rightarrow> disk \<Rightarrow> disk \<Rightarrow> bool" where
  "same_but n d d' \<longleftrightarrow> d_tmp d' = d_tmp d \<and> d_next d' = d_next d \<and> (\<forall>m. m \<noteq> n \<longrightarrow> d_files d' m = d_files d m)"

lemma same_but_simps [simp]:
  "same_but n d (d\<lparr>d_faults := fs\<rparr>)"
  "same_but n d (set_file n f (d\<lparr>d_faults := fs\<rparr>))"
  "same_but n d (fs_write n c (d\<lparr>d_faults := fs\<rparr>))"
  "same_but n d (fs_chmod n m (d\<lparr>d_faults := fs\<rparr>))"
  by (simp_all add: same_but_def set_file_def fs_write_def fs_chmod_def split: option.split)

lemma same_but_trans: "same_but n a b \<Longrightarrow> same_but n b c \<Longrightarrow> same_but n a c"
  by (simp add: same_but_def)

lemma cleanup_same: "cleanup n e d = (r, d') \<Longrightarrow> same_but n d d' \<and> r = Inl e"
  by (rule os_call_cases [of "set_file n None" "\<lambda>k d. d" d]) (auto simp: cleanup_def)

lemma write_file_atomic_cases:
  assumes "write_file_atomic path data mode d = (r, d')" "disk_ok path d"
  shows "case r of
      Inl e \<Rightarrow> same_but (d_tmp d (d_next d)) (d\<lparr>d_next := Suc (d_next d)\<rparr>) d'
    | Inr _ \<Rightarrow> d_files d' = (d_files d)(path := Some (data, mode)) \<and> d_tmp d' = d_tmp d \<and>
        d_next d' = Suc (d_next d)"
proof -
  let ?t = "d_tmp d (d_next d)"
  define dn where "dn = d\<lparr>d_next := Suc (d_next d)\<rparr>"
  have t: "d_files dn ?t = None" "?t \<noteq> path" "d_tmp dn = d_tmp d" "d_next dn = Suc (d_next d)" "d_files dn = d_files d"
    using assms(2) by (auto simp: disk_ok_def dn_def)
  let ?body = "ebind (os_call (fs_write ?t data) (\<lambda>k. fs_write ?t (take k data)))
            (\<lambda>_. ebind (os_try (fs_chmod ?t mode)) (\<lambda>_. ebind (os_try id) (\<lambda>_. os_try id)))"
  have body: "case r of Inl e \<Rightarrow> same_but ?t d1 d2
      | Inr _ \<Rightarrow> same_but ?t d1 d2 \<and> (\<forall>c m. d_files d1 ?t = Some (c, m) \<longrightarrow> d_files d2 ?t = Some (c @ data, mode))"
    if "?body d1 = (r, d2)" for d1 r d2
  proof (rule os_call_cases [of "fs_write ?t data" "\<lambda>k. fs_write ?t (take k data)" d1])
    fix fs assume 1: "os_call (fs_write ?t data) (\<lambda>k. fs_write ?t (take k data)) d1
        = (Inr (), fs_write ?t data (d1\<lparr>d_faults := fs\<rparr>))"
    let ?d = "fs_write ?t data (d1\<lparr>d_faults := fs\<rparr>)"
    have w: "same_but ?t d1 ?d" "\<forall>c m. d_files d1 ?t = Some (c, m) \<longrightarrow> d_files ?d ?t = Some (c @ data, m)"
      by (simp, simp add: fs_write_def set_file_def)
    show ?thesis
    proof (rule os_call_cases [of "fs_chmod ?t mode" "\<lambda>k d. d" ?d])
      fix fs' assume 2: "os_try (fs_chmod ?t mode) ?d = (Inr (), fs_chmod ?t mode (?d\<lparr>d_faults := fs'\<rparr>))"
      let ?e = "fs_chmod ?t mode (?d\<lparr>d_faults := fs'\<rparr>)"
      have c: "same_but ?t d1 ?e" "\<forall>c m. d_files d1 ?t = Some (c, m) \<longrightarrow> d_files ?e ?t = Some (c @ data, mode)"
        by (rule same_but_trans [OF w(1)], simp) (use w(2) in \<open>auto simp: fs_chmod_def set_file_def\<close>)
      show ?thesis
        by (rule os_call_cases [of id "\<lambda>k d. d" ?e])
          (use that 1 2 c in \<open>auto simp: ebind_def same_but_def os_call_def split: sum.splits list.splits option.splits\<close>)
    next
      fix e k fs' assume "os_try (fs_chmod ?t mode) ?d = (Inl e, ?d\<lparr>d_faults := fs'\<rparr>)"
      then show ?thesis using that 1 w by (auto simp: ebind_def same_but_def)
    qed
  next
    fix e k fs assume "os_call (fs_write ?t data) (\<lambda>k. fs_write ?t (take k data)) d1
        = (Inl e, fs_write ?t (take k data) (d1\<lparr>d_faults := fs\<rparr>))"
    then show ?thesis using that by (auto simp: ebind_def)
  qed
  show ?thesis
  proof (rule os_call_cases [of "set_file ?t (Some ([], 0x180))" "\<lambda>k d. d" dn])
    fix e k fs assume "os_try (set_file ?t (Some ([], 0x180))) dn = (Inl e, dn\<lparr>d_faults := fs\<rparr>)"
    then show ?thesis using assms(1) by (auto simp: write_file_atomic_def Let_def ebind_def same_but_def simp flip: dn_def)
  next
    fix fs assume 0: "os_try (set_file ?t (Some ([], 0x180))) dn = (Inr (), set_file ?t (Some ([], 0x180)) (dn\<lparr>d_faults := fs\<rparr>))"
    let ?d = "set_file ?t (Some ([], 0x180)) (dn\<lparr>d_faults := fs\<rparr>)"
    have d: "same_but ?t dn ?d" "d_files ?d ?t = Some ([], 0x180)" by (simp, simp add: set_file_def)
    obtain v d2 where b: "?body ?d = (v, d2)" by (cases "?body ?d")
    show ?thesis
    proof (cases v)
      case (Inl e)
      then have "same_but ?t ?d d2" using body [OF b] by simp
      moreover have "cleanup ?t e d2 = (r, d')"
        using assms(1) 0 b Inl by (simp add: write_file_atomic_def Let_def ebind_def ecatch_def flip: dn_def)
      ultimately have "same_but ?t dn d'" "r = Inl e"
        using same_but_trans [OF d(1)] same_but_trans cleanup_same by blast+
      then show ?thesis by (simp add: dn_def)
    next
      case (Inr u)
      then have d2: "same_but ?t dn d2" "d_files d2 ?t = Some (data, mode)"
        using body [OF b] same_but_trans [OF d(1), of d2] d(2) by auto
      have rest: "ecatch (os_try (fs_rename ?t path)) (cleanup ?t) eret d2 = (r, d')"
        using assms(1) 0 b Inr by (simp add: write_file_atomic_def Let_def ebind_def ecatch_def flip: dn_def)
      show ?thesis
      proof (rule os_call_cases [of "fs_rename ?t path" "\<lambda>k d. d" d2])
        fix fs assume "os_try (fs_rename ?t path) d2 = (Inr (), fs_rename ?t path (d2\<lparr>d_faults := fs\<rparr>))"
        then have "r = Inr ()" "d' = fs_rename ?t path (d2\<lparr>d_faults := fs\<rparr>)"
          using rest by (auto simp: ecatch_def eret_def)
        then show ?thesis
          using d2 t by (auto simp: fs_rename_def set_file_def same_but_def fun_eq_iff)
      next
        fix e k fs assume "os_try (fs_rename ?t path) d2 = (Inl e, d2\<lparr>d_faults := fs\<rparr>)"
        then have "cleanup ?t e (d2\<lparr>d_faults := fs\<rparr>) = (r, d')" using rest by (simp add: ecatch_def)
        from cleanup_same [OF this] show ?thesis
          using d2(1) by (auto simp: same_but_def dn_def)
      qed
    qed
  qed
qed

end
