(* ===== verification/KeysProperties.thy ===== *)
theory KeysProperties
  imports Keys
begin

text \<open>
  Properties of the key store: the file is replaced all or nothing, and what the store holds
  survives a restart, whatever failures occur on the way.
\<close>

section \<open>A history of key operations\<close>

datatype key_op = KeyCreate "goerr + bytes" string | KeyRemove string

fun run_key_op :: "key_op \<Rightarrow> keyring \<Rightarrow> keyring" where
  "run_key_op (KeyCreate rnd b) s = snd (keys_create rnd b s)"
| "run_key_op (KeyRemove b) s = snd (keys_remove b s)"

fun op_name :: "key_op \<Rightarrow> string" where
  "op_name (KeyCreate rnd b) = b"
| "op_name (KeyRemove b) = b"

text \<open>Names that \<^verbatim>\<open>%q\<close> quotes without escapes, as every valid bucket name is.\<close>

definition key_name :: "string \<Rightarrow> bool" where
  "key_name n \<longleftrightarrow> (\<forall>c\<in>set n. 32 \<le> (of_char c :: nat) \<and> (of_char c :: nat) < 127 \<and> c \<noteq> CHR 0x22 \<and> c \<noteq> CHR 0x5C)"

text \<open>What \<^verbatim>\<open>toml.DecodeFile\<close> does with the files the store writes: basic strings without
  escapes stand for themselves.\<close>

definition toml_reads_back :: "(string \<Rightarrow> goerr + (string \<times> string) list) \<Rightarrow> bool" where
  "toml_reads_back toml \<longleftrightarrow> toml [] = Inr [] \<and>
     (\<forall>ks. distinct (map fst ks) \<and> (\<forall>r\<in>set ks. key_name (fst r)) \<longrightarrow>
        toml (keys_text ks) = Inr (map (\<lambda>(n, k). (n, std_encode k)) (sort_key fst ks)))"

section \<open>The file mirrors the store\<close>

text \<open>The rows a file's text stands for.\<close>

definition file_rows :: "string \<Rightarrow> (string \<times> bytes) list \<Rightarrow> bool" where
  "file_rows content ks \<longleftrightarrow> distinct (map fst ks) \<and> (content = keys_text ks \<or> content = [] \<and> ks = [])"

definition keys_synced :: "keyring \<Rightarrow> bool" where
  "keys_synced s \<longleftrightarrow> ks_inv s \<and> (\<forall>r\<in>set (ks_keys s). key_name (fst r) \<and> length (snd r) = key_len) \<and>
     disk_ok (ks_path s) (ks_disk s) \<and>
     (\<exists>content ks. d_files (ks_disk s) (ks_path s) = Some (content, 0x180) \<and> file_rows content ks \<and> set ks = set (ks_keys s))"

lemma disk_ok_next:
  assumes "disk_ok path d" "d_tmp d' = d_tmp d" "d_next d' = Suc (d_next d)"
    and "\<forall>n. n \<noteq> d_tmp d (d_next d) \<and> n \<noteq> path \<longrightarrow> d_files d' n = d_files d n"
  shows "disk_ok path d'"
proof -
  have "d_files d' (d_tmp d i) = None" if "Suc (d_next d) \<le> i" for i
  proof -
    have "d_tmp d i \<noteq> d_tmp d (d_next d)" using assms(1) that injD [of "d_tmp d" i "d_next d"] by (auto simp: disk_ok_def)
    moreover have "d_tmp d i \<noteq> path" using assms(1) by (auto simp: disk_ok_def)
    ultimately show ?thesis using assms(1,4) that by (auto simp: disk_ok_def)
  qed
  then show ?thesis using assms(1-3) by (simp add: disk_ok_def)
qed

lemma flush_locked_cases:
  assumes "flush_locked s = (r, s')" "disk_ok (ks_path s) (ks_disk s)"
  shows "\<exists>d'. s' = s\<lparr>ks_disk := d'\<rparr> \<and> disk_ok (ks_path s) d' \<and>
    d_files d' (ks_path s) = (case r of Inl e \<Rightarrow> d_files (ks_disk s) (ks_path s)
      | Inr _ \<Rightarrow> Some (keys_text (ks_keys s), 0x180))"
proof -
  obtain d' where w: "write_file_atomic (ks_path s) (keys_text (ks_keys s)) 0x180 (ks_disk s) = (r, d')"
    "s' = s\<lparr>ks_disk := d'\<rparr>"
    using assms(1) by (auto simp: flush_locked_def split: prod.splits)
  note c = write_file_atomic_cases [OF w(1) assms(2)]
  have "d_tmp d' = d_tmp (ks_disk s) \<and> d_next d' = Suc (d_next (ks_disk s)) \<and>
      (\<forall>n. n \<noteq> d_tmp (ks_disk s) (d_next (ks_disk s)) \<and> n \<noteq> ks_path s \<longrightarrow> d_files d' n = d_files (ks_disk s) n)"
    using c by (cases r) (auto simp: same_but_def)
  then have "disk_ok (ks_path s) d'" using disk_ok_next [OF assms(2)] by blast
  moreover have "ks_path s \<noteq> d_tmp (ks_disk s) (d_next (ks_disk s))" using assms(2) by (auto simp: disk_ok_def)
  ultimately show ?thesis
    using c w(2) by (intro exI [of _ d']) (cases r; auto simp: same_but_def)
qed

lemma put_key_fields [simp]:
  "ks_disk (put_key r s) = ks_disk s" "ks_path (put_key r s) = ks_path s"
  "ks_disk (del_key b s) = ks_disk s" "ks_path (del_key b s) = ks_path s"
  "put_key r (s\<lparr>ks_disk := d\<rparr>) = (put_key r s)\<lparr>ks_disk := d\<rparr>"
  "del_key b (s\<lparr>ks_disk := d\<rparr>) = (del_key b s)\<lparr>ks_disk := d\<rparr>"
  "ks_inv (s\<lparr>ks_disk := d\<rparr>) = ks_inv s"
  by (simp_all add: put_key_def del_key_def ks_inv_def)

lemma synced_new_rows:
  assumes "keys_synced s" "s' = t\<lparr>ks_disk := d'\<rparr>" "ks_path t = ks_path s" "ks_inv t" "disk_ok (ks_path s) d'"
    and "\<forall>r\<in>set (ks_keys t). key_name (fst r) \<and> length (snd r) = key_len"
    and "d_files d' (ks_path s) = Some (keys_text (ks_keys t), 0x180)"
  shows "keys_synced s'"
  unfolding keys_synced_def
  using assms by (auto simp: file_rows_def ks_inv_def t_inv_def)

lemma synced_same_rows:
  assumes "keys_synced s" "s' = t\<lparr>ks_disk := d'\<rparr>" "ks_path t = ks_path s" "ks_inv t" "disk_ok (ks_path s) d'"
    and "set (ks_keys t) = set (ks_keys s)" "d_files d' (ks_path s) = d_files (ks_disk s) (ks_path s)"
  shows "keys_synced s'"
  unfolding keys_synced_def using assms by (auto simp: keys_synced_def)

lemma keys_create_synced:
  assumes "keys_synced s" "key_name b" "keys_create rnd b s = (res, s')"
  shows "keys_synced s'"
proof (cases "find_key b s = None \<and> (\<exists>r. rnd = Inr r)")
  case False
  then show ?thesis using assms by (cases rnd) (auto simp: keys_create_def split: if_splits)
next
  case True
  then obtain r where r: "rnd = Inr r" "find_key b s = None" by blast
  define k where "k = take key_len r @ replicate (key_len - length r) 0"
  have k: "length k = key_len" by (simp add: k_def)
  obtain v s1 where f: "flush_locked (put_key (b, k) s) = (v, s1)" by (cases "flush_locked (put_key (b, k) s)")
  have inv: "ks_inv s" and ok: "disk_ok (ks_path s) (ks_disk s)" using assms(1) by (auto simp: keys_synced_def)
  obtain d' where d: "s1 = (put_key (b, k) s)\<lparr>ks_disk := d'\<rparr>" "disk_ok (ks_path s) d'"
    "d_files d' (ks_path s) = (case v of Inl e \<Rightarrow> d_files (ks_disk s) (ks_path s)
      | Inr _ \<Rightarrow> Some (keys_text (ks_keys (put_key (b, k) s)), 0x180))"
    using flush_locked_cases [OF f] ok unfolding put_key_fields by blast
  have rows: "set (ks_keys (put_key (b, k) s)) = insert (b, k) (set (ks_keys s))"
    using kst.rows_put [OF inv, of "(b, k)"] kst.lookup_rows [OF inv, of b] r(2) by auto
  show ?thesis
  proof (cases v)
    case (Inl e)
    have A: "s' = del_key b (put_key (b, k) s)\<lparr>ks_disk := d'\<rparr>"
      using assms(3) r f Inl d(1) by (simp add: keys_create_def Let_def k_def)
    have B: "set (ks_keys (del_key b (put_key (b, k) s))) = set (ks_keys s)"
      using kst.rows_del [OF kst.inv_put [OF inv], of b "(b, k)"] rows kst.lookup_rows [OF inv, of b] r(2) by auto
    show ?thesis
      by (rule synced_same_rows [OF assms(1) A _ _ _ B]) (use d inv Inl in \<open>simp_all add: kst.inv_put kst.inv_del\<close>)
  next
    case (Inr u)
    have "s' = (put_key (b, k) s)\<lparr>ks_disk := d'\<rparr>"
      using assms(3) r f Inr d(1) by (simp add: keys_create_def Let_def k_def)
    then show ?thesis
      by (rule synced_new_rows [OF assms(1)])
        (use d inv Inr rows assms(1,2) k in \<open>auto simp: kst.inv_put keys_synced_def\<close>)
  qed
qed

lemma keys_remove_synced:
  assumes "keys_synced s" "keys_remove b s = (res, s')"
  shows "keys_synced s'"
proof (cases "find_key b s")
  case None
  then show ?thesis using assms by (simp add: keys_remove_def)
next
  case (Some saved)
  obtain v s1 where f: "flush_locked (del_key b s) = (v, s1)" by (cases "flush_locked (del_key b s)")
  have inv: "ks_inv s" and ok: "disk_ok (ks_path s) (ks_disk s)" using assms(1) by (auto simp: keys_synced_def)
  obtain d' where d: "s1 = (del_key b s)\<lparr>ks_disk := d'\<rparr>" "disk_ok (ks_path s) d'"
    "d_files d' (ks_path s) = (case v of Inl e \<Rightarrow> d_files (ks_disk s) (ks_path s)
      | Inr _ \<Rightarrow> Some (keys_text (ks_keys (del_key b s)), 0x180))"
    using flush_locked_cases [OF f] ok unfolding put_key_fields by blast
  have saved: "saved \<in> set (ks_keys s)" "fst saved = b" using kst.lookup_rows [OF inv, of b saved] Some by auto
  have uniq: "x = saved" if "x \<in> set (ks_keys s)" "fst x = b" for x
    using kst.lookup_rows [OF inv, of b x] that Some by simp
  have rows: "set (ks_keys (del_key b s)) = {x \<in> set (ks_keys s). fst x \<noteq> b}" by (rule kst.rows_del [OF inv])
  show ?thesis
  proof (cases v)
    case (Inl e)
    have A: "s' = (put_key saved (del_key b s))\<lparr>ks_disk := d'\<rparr>"
      using assms(2) Some f Inl d(1) by (simp add: keys_remove_def)
    have B: "set (ks_keys (put_key saved (del_key b s))) = set (ks_keys s)"
      unfolding kst.rows_put [OF kst.inv_del [OF inv]] rows using saved uniq by blast
    show ?thesis
      by (rule synced_same_rows [OF assms(1) A _ _ _ B]) (use d inv Inl in \<open>simp_all add: kst.inv_put kst.inv_del\<close>)
  next
    case (Inr u)
    have "s' = (del_key b s)\<lparr>ks_disk := d'\<rparr>"
      using assms(2) Some f Inr d(1) by (simp add: keys_remove_def)
    then show ?thesis
      by (rule synced_new_rows [OF assms(1)])
        (use d inv Inr rows assms(1) in \<open>auto simp: kst.inv_del keys_synced_def\<close>)
  qed
qed

lemma run_key_op_synced: "keys_synced s \<Longrightarrow> key_name (op_name w) \<Longrightarrow> keys_synced (run_key_op w s)"
  by (cases w) (auto intro: keys_create_synced keys_remove_synced surjective_pairing)

lemma run_key_ops_synced:
  "keys_synced s \<Longrightarrow> \<forall>w\<in>set ws. key_name (op_name w) \<Longrightarrow> keys_synced (fold run_key_op ws s)"
  by (induction ws arbitrary: s) (auto intro: run_key_op_synced)

section \<open>Loading\<close>

lemma decode_encoded:
  "\<forall>r\<in>set ks. length (snd r) = key_len \<Longrightarrow> decode_keys (map (\<lambda>(n, k). (n, std_encode k)) ks) = Inr ks"
  by (induction ks) (auto simp: std_decode_encode)

lemma keys_get_rows:
  assumes "ks_inv s" "ks_inv s'" "set (ks_keys s) = set (ks_keys s')"
  shows "keys_get b s = keys_get b s'"
proof -
  have "find_key b s = find_key b s'"
    using kst.lookup_rows [OF assms(1), of b] kst.lookup_rows [OF assms(2), of b] assms(3)
    by (metis option.exhaust)
  then show ?thesis by (simp add: keys_get_def)
qed

lemma synced_load:
  assumes "keys_synced s" "toml_reads_back toml"
  shows "\<exists>s'. keys_load toml None (ks_path s) (ks_disk s) = (Inr s', ks_disk s) \<and>
    (\<forall>b. keys_get b s' = keys_get b s) \<and> ks_inv s'"
proof -
  obtain content ks where f: "d_files (ks_disk s) (ks_path s) = Some (content, 0x180)" "file_rows content ks"
    "set ks = set (ks_keys s)" using assms(1) by (auto simp: keys_synced_def)
  have names: "\<forall>r\<in>set ks. key_name (fst r)" "\<forall>r\<in>set ks. length (snd r) = key_len"
    using assms(1) f(3) by (auto simp: keys_synced_def)
  have ks: "toml content = Inr (map (\<lambda>(n, k). (n, std_encode k)) (sort_key fst ks))" "distinct (map fst ks)"
    using f(2) names(1) assms(2) by (auto simp: toml_reads_back_def file_rows_def)
  have dec: "decode_keys (map (\<lambda>(n, k). (n, std_encode k)) (sort_key fst ks)) = Inr (sort_key fst ks)"
    by (rule decode_encoded) (simp add: names)
  let ?s = "\<lparr>ks_path = ks_path s, ks_keys = sort_key fst ks, ks_disk = ks_disk s\<rparr>"
  have load: "keys_load toml None (ks_path s) (ks_disk s) = (Inr ?s, ks_disk s)"
    using f(1) ks(1) dec by (simp add: keys_load_def)
  have "distinct (map fst (sort_key fst ks))" using ks(2) by (simp add: distinct_map)
  then have inv: "ks_inv ?s" by (simp add: ks_inv_def t_inv_def)
  have "ks_inv s" using assms(1) by (simp add: keys_synced_def)
  then have "keys_get b ?s = keys_get b s" for b using keys_get_rows [OF inv] f(3) by simp
  then show ?thesis using load inv by blast
qed

lemma fresh_load_synced:
  assumes "d_files d path = None" "disk_ok path d" "keys_load toml None path d = (Inr s, d')"
  shows "keys_synced s \<and> ks_path s = path"
proof -
  obtain fs where m: "os_try id d = (Inr (), d\<lparr>d_faults := fs\<rparr>)"
    using assms(1,3) by (rule_tac os_call_cases [of id "\<lambda>k d. d" d]) (auto simp: keys_load_def)
  obtain d2 where w: "write_file_atomic path [] 0x180 (d\<lparr>d_faults := fs\<rparr>) = (Inr (), d2)"
    "s = \<lparr>ks_path = path, ks_keys = [], ks_disk = d2\<rparr>"
    using assms(1,3) m by (auto simp: keys_load_def split: prod.splits sum.splits)
  have ok: "disk_ok path (d\<lparr>d_faults := fs\<rparr>)" using assms(2) by (simp add: disk_ok_def)
  from write_file_atomic_cases [OF w(1) ok]
  have d2: "d_files d2 = (d_files d)(path := Some ([], 0x180))" "d_tmp d2 = d_tmp d" "d_next d2 = Suc (d_next d)"
    by simp_all
  then have "disk_ok path d2" using disk_ok_next [OF assms(2), of d2] by simp
  then show ?thesis using w(2) d2 by (auto simp: keys_synced_def ks_inv_def t_inv_def file_rows_def)
qed

section \<open>A reader for the files of the witnesses\<close>

text \<open>Lines \<^verbatim>\<open>"name" = "value"\<close>; comments and empty lines are skipped.\<close>

definition demo_toml :: "string \<Rightarrow> goerr + (string \<times> string) list" where
  "demo_toml content = Inr (List.map_filter (\<lambda>line. case split_on CHR 0x22 line of
       [a, n, b, v, c] \<Rightarrow> Some (n, v) | _ \<Rightarrow> None) (split_on CHR 0x0A content))"

lemma quote_char_plain:
  "32 \<le> (of_char c :: nat) \<Longrightarrow> (of_char c :: nat) < 127 \<Longrightarrow> c \<noteq> CHR 0x22 \<Longrightarrow> c \<noteq> CHR 0x5C \<Longrightarrow> quote_char c = [c]"
  by (simp add: quote_char_def Let_def)

lemma quote_plain: "key_name n \<Longrightarrow> go_quote n = [CHR 0x22] @ n @ [CHR 0x22]"
proof -
  assume "key_name n"
  then have "\<forall>c\<in>set n. quote_char c = [c]" unfolding key_name_def using quote_char_plain by blast
  then have "concat (map quote_char n) = n" by (induction n) auto
  then show ?thesis by (simp add: go_quote_def)
qed

lemma key_name_no_newline: "key_name n \<Longrightarrow> CHR 0x0A \<notin> set (go_quote n)"
proof -
  assume k: "key_name n"
  have "CHR 0x0A \<notin> set n"
  proof
    assume "CHR 0x0A \<in> set n"
    with k have "32 \<le> (of_char CHR 0x0A :: nat)" unfolding key_name_def by blast
    then show False by simp
  qed
  then show ?thesis by (simp add: quote_plain [OF k])
qed

lemma b64_char_name: "n < 64 \<Longrightarrow> key_name [b64_char False n]"
proof -
  assume "n < 64"
  then have "b64_val False (b64_char False n) = Some n" by (rule b64_val_char)
  moreover have "key_name [c]" if "b64_val False c = Some m" for c m
    using that by (auto simp: key_name_def b64_val_def Let_def split: if_splits)
  ultimately show ?thesis by blast
qed

lemma std_encode_name: "key_name (std_encode bs)"
proof -
  have "c \<in> set (b64_body False bs) \<Longrightarrow> key_name [c]" for c
    using b64_digits_less [of "map unat bs"] unat_byte_less b64_char_name
    by (auto simp: b64_body_def)
  moreover have "key_name (b64_pad n)" for n by (simp add: b64_pad_def key_name_def)
  ultimately show ?thesis by (auto simp: std_encode_def Let_def key_name_def)
qed

lemma demo_line:
  assumes "key_name n"
  shows "split_on CHR 0x22 (go_quote n @ '' = '' @ go_quote (std_encode k)) = [[], n, '' = '', std_encode k, []]"
proof -
  have "go_quote n @ '' = '' @ go_quote (std_encode k) = join_with [CHR 0x22] [[], n, '' = '', std_encode k, []]"
    by (simp add: quote_plain [OF assms] quote_plain [OF std_encode_name])
  moreover have "split_on CHR 0x22 (join_with [CHR 0x22] [[], n, '' = '', std_encode k, []]) = [[], n, '' = '', std_encode k, []]"
    by (rule split_join) (use assms std_encode_name [of k] in \<open>auto simp: key_name_def\<close>)
  ultimately show ?thesis by simp
qed

lemma map_filter_append: "List.map_filter f (xs @ ys) = List.map_filter f xs @ List.map_filter f ys"
  by (simp add: List.map_filter_def)

lemma keys_text_lines:
  "\<forall>r\<in>set ks. key_name (fst r) \<Longrightarrow> split_on CHR 0x0A (concat (map key_line ks)) =
     map (\<lambda>r. go_quote (fst r) @ '' = '' @ go_quote (std_encode (snd r))) ks @ [[]]"
proof (induction ks)
  case (Cons r ks)
  have "CHR 0x0A \<notin> set (go_quote (fst r) @ '' = '' @ go_quote (std_encode (snd r)))"
    using Cons.prems key_name_no_newline [OF std_encode_name, of "snd r"] key_name_no_newline [of "fst r"] by simp
  then have "split_on CHR 0x0A ((go_quote (fst r) @ '' = '' @ go_quote (std_encode (snd r))) @ CHR 0x0A # t) =
      (go_quote (fst r) @ '' = '' @ go_quote (std_encode (snd r))) # split_on CHR 0x0A t" for t
    by (rule split_on_append)
  moreover have "concat (map key_line (r # ks)) = (go_quote (fst r) @ '' = '' @ go_quote (std_encode (snd r))) @
      CHR 0x0A # concat (map key_line ks)"
    by (simp add: key_line_def [of r])
  ultimately show ?case using Cons by (simp only: list.map append_Cons) simp
qed simp

lemma demo_toml_reads_back: "toml_reads_back demo_toml"
proof -
  define h1 h2 where "h1 = ''# Telang per-bucket encryption keys. Back this up out of band.''"
    and "h2 = ''# Losing this file = losing the data.''"
  let ?f = "\<lambda>line. case split_on CHR 0x22 line of [a, n, b, v, c] \<Rightarrow> Some (n, v) | _ \<Rightarrow> None"
  have h: "CHR 0x0A \<notin> set h1" "CHR 0x0A \<notin> set h2" "CHR 0x22 \<notin> set h1" "CHR 0x22 \<notin> set h2"
    by (simp_all add: h1_def h2_def)
  have f: "?f h1 = None" "?f h2 = None" "?f [] = None" by (simp_all add: split_on_no_sep h)
  have "demo_toml (keys_text ks) = Inr (map (\<lambda>(n, k). (n, std_encode k)) (sort_key fst ks))"
    if names: "\<forall>r\<in>set ks. key_name (fst r)" for ks
  proof -
    let ?ks = "sort_key fst ks"
    have ks: "\<forall>r\<in>set ?ks. key_name (fst r)" using names by simp
    have "keys_text ks = h1 @ CHR 0x0A # h2 @ CHR 0x0A # concat (map key_line ?ks)"
      by (simp add: keys_text_def keys_header_def h1_def h2_def)
    then have "split_on CHR 0x0A (keys_text ks) =
        h1 # h2 # map (\<lambda>r. go_quote (fst r) @ '' = '' @ go_quote (std_encode (snd r))) ?ks @ [[]]"
      using h keys_text_lines [OF ks] by (simp add: split_on_append)
    moreover have "List.map_filter ?f (map (\<lambda>r. go_quote (fst r) @ '' = '' @ go_quote (std_encode (snd r))) rs)
        = map (\<lambda>(n, k). (n, std_encode k)) rs" if "\<forall>r\<in>set rs. key_name (fst r)" for rs
      using that by (induction rs) (auto simp: List.map_filter_simps demo_line [simplified])
    ultimately show ?thesis
      using f ks by (simp add: demo_toml_def List.map_filter_simps map_filter_append)
  qed
  moreover have "demo_toml [] = Inr []" using f(3) by (simp add: demo_toml_def List.map_filter_simps)
  ultimately show ?thesis by (simp add: toml_reads_back_def)
qed

section \<open>Claims\<close>

text \<open>
  C21: \<^verbatim>\<open>writeFileAtomic\<close> is all or nothing.  Whichever system calls fail, all later ones
  included (a crash), the file afterwards has either its old contents, and then an error was
  reported, or the new contents and mode in full; no other file but the temporary one changes.
\<close>

theorem key_file_replaced_atomically:
  assumes "disk_ok path d" "write_file_atomic path content mode d = (r, d')"
  shows "d_files d' path = (case r of Inl e \<Rightarrow> d_files d path | Inr _ \<Rightarrow> Some (content, mode)) \<and>
    (\<forall>n. n \<noteq> path \<and> n \<noteq> d_tmp d (d_next d) \<longrightarrow> d_files d' n = d_files d n)"
  using write_file_atomic_cases [OF assms(2,1)] assms(1)
  by (cases r) (auto simp: same_but_def disk_ok_def)

definition demo_disk :: disk where
  "demo_disk = \<lparr>d_files = (\<lambda>n. if n = ''keys'' then Some (''old'', 0x180) else None),
     d_faults = [None, Some (New ''no space left on device'', 2), Some (New ''crash'', 0)],
     d_tmp = (\<lambda>i. replicate i CHR ''t''), d_next = 0\<rparr>"

lemma demo_disk_ok: "disk_ok ''keys'' demo_disk" "disk_ok ''keys'' (demo_disk\<lparr>d_files := Map.empty, d_faults := fs\<rparr>)"
proof -
  have n: "(''keys'' = replicate i CHR ''t'') = False" "(replicate i CHR ''t'' = ''keys'') = False" for i
    by (cases i; auto)+
  have "''keys'' \<notin> range (\<lambda>i. replicate i CHR ''t'')" unfolding image_iff n by blast
  moreover have "inj (\<lambda>i. replicate i CHR ''t'')" by (rule injI) (metis length_replicate)
  ultimately show "disk_ok ''keys'' demo_disk" "disk_ok ''keys'' (demo_disk\<lparr>d_files := Map.empty, d_faults := fs\<rparr>)"
    by (simp_all add: disk_ok_def demo_disk_def n)
qed

theorem key_file_replaced_atomically_witness:
  "\<exists>e d'. write_file_atomic ''keys'' ''new'' 0x180 demo_disk = (Inl e, d') \<and> d_files d' ''keys'' = Some (''old'', 0x180)"
proof -
  have "fst (write_file_atomic ''keys'' ''new'' 0x180 demo_disk) = Inl (New ''no space left on device'')"
    by code_simp
  then obtain d' where w: "write_file_atomic ''keys'' ''new'' 0x180 demo_disk = (Inl (New ''no space left on device''), d')"
    by (metis prod.collapse)
  from key_file_replaced_atomically [OF demo_disk_ok(1) w] w show ?thesis by (auto simp: demo_disk_def)
qed

text \<open>
  C22: the key store survives a restart.  Starting from a fresh installation, after any
  sequence of \<^verbatim>\<open>Create\<close> and \<^verbatim>\<open>Remove\<close> calls on bucket names, with any failures of the random
  source and of the file system on the way, \<^verbatim>\<open>Load\<close> of the file yields the same key for every
  bucket as the running store.
\<close>

theorem keys_survive_restart:
  assumes "toml_reads_back toml" "d_files d path = None" "disk_ok path d"
    and "keys_load toml None path d = (Inr s0, d0)" "\<forall>w\<in>set ws. key_name (op_name w)"
    and "s = fold run_key_op ws s0"
  shows "\<exists>s'. keys_load toml None (ks_path s) (ks_disk s) = (Inr s', ks_disk s) \<and>
    (\<forall>b. keys_get b s' = keys_get b s)"
  using synced_load run_key_ops_synced fresh_load_synced assms by blast

theorem keys_survive_restart_witness:
  "\<exists>s s'. keys_get ''b'' s = Inr (replicate 32 7) \<and> keys_load demo_toml None (ks_path s) (ks_disk s) = (Inr s', ks_disk s) \<and>
     keys_get ''b'' s' = Inr (replicate 32 7)"
proof -
  let ?d = "demo_disk\<lparr>d_files := Map.empty, d_faults := []\<rparr>"
  let ?ws = "[KeyCreate (Inr (replicate 32 7)) ''b'', KeyCreate (Inr (replicate 32 8)) ''c'', KeyRemove ''c'']"
  let ?s0 = "\<lparr>ks_path = ''keys'', ks_keys = [], ks_disk = snd (keys_load demo_toml None ''keys'' ?d)\<rparr>"
  define s where "s = fold run_key_op ?ws ?s0"
  have load: "keys_load demo_toml None ''keys'' ?d = (Inr ?s0, snd (keys_load demo_toml None ''keys'' ?d))"
    by (simp add: keys_load_def os_call_def write_file_atomic_def ebind_def ecatch_def Let_def eret_def demo_disk_def
        set_file_def fs_write_def fs_chmod_def fs_rename_def)
  have names: "\<forall>w\<in>set ?ws. key_name (op_name w)" by (simp add: key_name_def)
  have "keys_get ''b'' s = Inr (replicate 32 7)"
    by (simp add: s_def keys_load_def os_call_def write_file_atomic_def ebind_def ecatch_def Let_def eret_def demo_disk_def
        set_file_def fs_write_def fs_chmod_def fs_rename_def keys_create_def keys_remove_def find_key_def put_key_def
        del_key_def t_find_def t_upsert_def t_delete_def flush_locked_def keys_get_def key_len_def)
  moreover obtain s' where "keys_load demo_toml None (ks_path s) (ks_disk s) = (Inr s', ks_disk s)"
    "\<forall>b. keys_get b s' = keys_get b s"
    using keys_survive_restart [OF demo_toml_reads_back _ demo_disk_ok(2) load names s_def] by auto
  ultimately show ?thesis by metis
qed

end
