(* ===== verification/Storage.thy ===== *)
theory Storage
  imports FrameReaders S3Errors
begin

text \<open>
  The storage interface of \<^verbatim>\<open>internal/storage/storage.go\<close>.  A backend is the record of its
  operations over its own state \<open>'b\<close>.  \<^verbatim>\<open>Put\<close> receives the encrypter it reads from and returns
  it as it has left it, so that what was consumed of the plaintext is known.  \<open>backend_laws\<close>
  states the contract that the interface documents, in terms of the blobs \<open>held\<close> by a state.
\<close>

section \<open>Interface\<close>

text \<open>\<^verbatim>\<open>Ref\<close>: message id and file id.\<close>

type_synonym blobref = "int \<times> string"

definition ErrTooLarge :: goerr where
  "ErrTooLarge = New ''storage: object exceeds backend maximum size''"
definition ErrBlobNotFound :: goerr where "ErrBlobNotFound = New ''storage: object not found''"
definition ErrThrottled :: goerr where "ErrThrottled = New ''storage: backend throttled''"
definition ErrUnavailable :: goerr where "ErrUnavailable = New ''storage: backend unavailable''"

record 'b backend =
  be_max :: int
  be_put :: "string \<Rightarrow> int \<Rightarrow> encrypter \<Rightarrow> 'b \<Rightarrow> (goerr + blobref) \<times> encrypter \<times> 'b"
  be_get :: "blobref \<Rightarrow> 'b \<Rightarrow> (goerr + reader) \<times> 'b"
  be_delete :: "blobref \<Rightarrow> 'b \<Rightarrow> goerr option \<times> 'b"
  be_exists :: "blobref \<Rightarrow> 'b \<Rightarrow> (goerr + bool) \<times> 'b"

text \<open>\<^verbatim>\<open>mapBackendErr\<close> of \<^verbatim>\<open>s3api/service.go\<close> for an error that is not nil.\<close>

definition map_backend_err :: "string \<Rightarrow> goerr \<Rightarrow> goerr" where
  "map_backend_err op e =
     (if errors_is e ErrTooLarge then S3EntityTooLarge
      else if errors_is e ErrThrottled then S3SlowDown
      else if errors_is e ErrUnavailable then S3ServiceUnavailable
      else if errors_is e ErrBlobNotFound then S3NoSuchKey
      else Wrap (''backend '' @ op) [e])"

section \<open>The contract\<close>

text \<open>The encrypter after calls of \<^verbatim>\<open>Read\<close> with buffers of the sizes \<open>ns\<close>.\<close>

fun enc_after :: "nat list \<Rightarrow> encrypter \<Rightarrow> encrypter" where
  "enc_after [] e = e"
| "enc_after (n # ns) e = enc_after ns (snd (snd (enc_rd n e)))"

text \<open>No blob belongs to the message.\<close>

definition no_message :: "(blobref \<Rightarrow> bytes option) \<Rightarrow> int \<Rightarrow> bool" where
  "no_message h m \<longleftrightarrow> (\<forall>f. h (m, f) = None)"

lemma no_messageD: "no_message h m \<Longrightarrow> h ref \<noteq> None \<Longrightarrow> fst ref \<noteq> m" "no_message h (fst ref) \<Longrightarrow> h ref = None"
  by (cases ref; auto simp: no_message_def)+

text \<open>
  What \<^verbatim>\<open>Put\<close> promises: it reads the encrypter through \<^verbatim>\<open>Read\<close> only; when it succeeds it has
  read the declared number of bytes and holds exactly those under a message that was not in
  use; when it fails it holds at most one blob more.  What \<^verbatim>\<open>Get\<close> delivers to its end of a blob
  that is held are its contents, and \<^verbatim>\<open>Delete\<close> touches no other message.
\<close>

definition put_law :: "'b backend \<Rightarrow> ('b \<Rightarrow> blobref \<Rightarrow> bytes option) \<Rightarrow> bool" where
  "put_law be held \<longleftrightarrow> (\<forall>name sz e st r e' st'. enc_ok e \<longrightarrow> be_put be name sz e st = (r, e', st') \<longrightarrow>
     (\<exists>ns. (\<forall>n\<in>set ns. 0 < n) \<and> e' = enc_after ns e) \<and>
     (case r of
        Inl err \<Rightarrow> \<exists>ref d. held st' = held st \<or> held st ref = None \<and> held st' = (held st)(ref \<mapsto> d)
      | Inr ref \<Rightarrow> no_message (held st) (fst ref) \<and> sz \<le> int (length (fst (enc_pend e))) \<and>
          fst (enc_pend e') = drop (nat sz) (fst (enc_pend e)) \<and>
          held st' = (held st)(ref \<mapsto> take (nat sz) (fst (enc_pend e)))))"

definition get_law :: "'b backend \<Rightarrow> ('b \<Rightarrow> blobref \<Rightarrow> bytes option) \<Rightarrow> bool" where
  "get_law be held \<longleftrightarrow> (\<forall>ref st r st'. be_get be ref st = (r, st') \<longrightarrow>
     held st' = held st \<and> (\<forall>d d'. r = Inr (d, Eof) \<longrightarrow> held st ref = Some d' \<longrightarrow> d = d'))"

definition delete_law :: "'b backend \<Rightarrow> ('b \<Rightarrow> blobref \<Rightarrow> bytes option) \<Rightarrow> bool" where
  "delete_law be held \<longleftrightarrow> (\<forall>ref st r st'. be_delete be ref st = (r, st') \<longrightarrow>
     (\<forall>ref'. fst ref' \<noteq> fst ref \<longrightarrow> held st' ref' = held st ref'))"

definition backend_laws :: "'b backend \<Rightarrow> ('b \<Rightarrow> blobref \<Rightarrow> bytes option) \<Rightarrow> bool" where
  "backend_laws be held \<longleftrightarrow> put_law be held \<and> get_law be held \<and> delete_law be held"

end
