(* ===== verification/Service.thy ===== *)
theory Service
  imports Storage Metadata Keys
begin

text \<open>
  The business layer of \<^verbatim>\<open>internal/s3api/service.go\<close>: what sits between the handlers and the
  metadata store, the key store and the storage backend.  \<open>world\<close> is the state of the daemon;
  the random source is the sequence of its outcomes, the staging directory a map from paths to
  contents with a schedule of failing system calls.  MD5, AES-GCM, the backend and the cache
  (whose package is not part of the repository) are fields of \<open>service\<close>.
\<close>

section \<open>State\<close>

record 'b world =
  w_meta :: store
  w_keys :: keyring
  w_blobs :: 'b
  w_ciphers :: "string \<Rightarrow> cipher option"
  w_rand :: "nat \<Rightarrow> goerr + bytes"
  w_draws :: nat
  w_files :: "string \<Rightarrow> bytes option"
  w_os :: "goerr option list"
  w_temps :: nat

record 'b cache =
  ca_evict :: "int \<Rightarrow> 'b \<Rightarrow> 'b"
  ca_stream :: "blobref \<Rightarrow> 'b \<Rightarrow> (goerr + reader) \<times> 'b"
  ca_at :: "blobref \<Rightarrow> 'b \<Rightarrow> (goerr + bytes) \<times> 'b"

record 'b service =
  sv_backend :: "'b backend"
  sv_cache :: "'b cache option"
  sv_gcm :: "bytes \<Rightarrow> aead"
  sv_md5 :: "bytes \<Rightarrow> bytes"
  sv_staging :: string
  sv_frame_size :: int
  sv_now :: int
  sv_temp :: "nat \<Rightarrow> string"

definition on_meta :: "(store, 'a) step \<Rightarrow> ('b world, 'a) step" where
  "on_meta m w = (case m (w_meta w) of (r, s) \<Rightarrow> (r, w\<lparr>w_meta := s\<rparr>))"

definition on_keys :: "(keyring, 'a) step \<Rightarrow> ('b world, 'a) step" where
  "on_keys m w = (case m (w_keys w) of (r, s) \<Rightarrow> (r, w\<lparr>w_keys := s\<rparr>))"

definition on_blobs :: "('b, 'a) step \<Rightarrow> ('b world, 'a) step" where
  "on_blobs m w = (case m (w_blobs w) of (r, s) \<Rightarrow> (r, w\<lparr>w_blobs := s\<rparr>))"

text \<open>\<^verbatim>\<open>rand.Read\<close> of \<open>n\<close> bytes.\<close>

definition rand_read :: "nat \<Rightarrow> ('b world, bytes) step" where
  "rand_read n w = (let w' = w\<lparr>w_draws := Suc (w_draws w)\<rparr> in
     case w_rand w (w_draws w) of Inl e \<Rightarrow> (Inl e, w') | Inr b \<Rightarrow> (Inr (copy_field n b), w'))"

text \<open>A system call on the staging directory.\<close>

definition os_do :: "('b world \<Rightarrow> 'b world) \<Rightarrow> ('b world, unit) step" where
  "os_do f w = (case w_os w of
       [] \<Rightarrow> (Inr (), f w)
     | None # os \<Rightarrow> (Inr (), f (w\<lparr>w_os := os\<rparr>))
     | Some e # os \<Rightarrow> (Inl e, w\<lparr>w_os := os\<rparr>))"

definition put_file :: "string \<Rightarrow> bytes option \<Rightarrow> 'b world \<Rightarrow> 'b world" where
  "put_file n c w = w\<lparr>w_files := (w_files w)(n := c)\<rparr>"

text \<open>\<^verbatim>\<open>os.CreateTemp\<close> and a call whose error is ignored.\<close>

definition create_temp :: "'b service \<Rightarrow> ('b world, string) step" where
  "create_temp sv w = (let n = sv_temp sv (w_temps w) in
     ebind (os_do (put_file n (Some []))) (\<lambda>_. eret n) (w\<lparr>w_temps := Suc (w_temps w)\<rparr>))"

definition attempt :: "('s, 'a) step \<Rightarrow> ('s, unit) step" where
  "attempt m s = (Inr (), snd (m s))"

definition remove_file :: "string \<Rightarrow> ('b world, unit) step" where
  "remove_file n = attempt (os_do (put_file n None))"

definition ENOSPC :: goerr where "ENOSPC = New ''no space left on device''"

section \<open>Helpers\<close>

definition ref_of :: "object \<Rightarrow> blobref" where
  "ref_of ob = (o_msg ob, o_file ob)"

text \<open>The guard \<^verbatim>\<open>errors.Is(err, target)\<close> on an error that is passed on otherwise.\<close>

definition rename_err :: "goerr \<Rightarrow> goerr \<Rightarrow> ('s, 'a) step \<Rightarrow> ('s, 'a) step" where
  "rename_err target named m =
     ecatch m (\<lambda>e. if errors_is e target then efail named else efail e) eret"

definition cipher_for :: "'b service \<Rightarrow> string \<Rightarrow> ('b world, cipher) step" where
  "cipher_for sv b w = (case w_ciphers w b of
       Some c \<Rightarrow> (Inr c, w)
     | None \<Rightarrow> (case keys_get b (w_keys w) of
           Inl e \<Rightarrow> (Inl (if errors_is e ErrKeyNotFound then S3NoSuchBucket else e), w)
         | Inr key \<Rightarrow>
             let fs = (if sv_frame_size sv = 0 then default_frame_size else sv_frame_size sv) in
             (case new_cipher (sv_gcm sv) key fs of
                Inl e \<Rightarrow> (Inl e, w)
              | Inr c \<Rightarrow> (Inr c, w\<lparr>w_ciphers := (w_ciphers w)(b \<mapsto> c)\<rparr>))))"

definition delete_blob :: "'b service \<Rightarrow> blobref \<Rightarrow> ('b world, unit) step" where
  "delete_blob sv ref = on_blobs (\<lambda>st. case be_delete (sv_backend sv) ref st of (e, st') \<Rightarrow> (Inr (), st'))"

text \<open>\<^verbatim>\<open>Backend.Put\<close> from an encrypter over \<open>src\<close>: the reference, and the plaintext consumed,
  which is what the \<^verbatim>\<open>TeeReader\<close> has written to the MD5.\<close>

definition consumed :: "reader \<Rightarrow> reader \<Rightarrow> bytes" where
  "consumed src src' = take (length (fst src) - length (fst src')) (fst src)"

definition upload_blob :: "'b service \<Rightarrow> string \<Rightarrow> int \<Rightarrow> encrypter \<Rightarrow> ('b world, blobref \<times> bytes) step" where
  "upload_blob sv name sz e = on_blobs (\<lambda>st. case be_put (sv_backend sv) name sz e st of
       (Inl err, e', st') \<Rightarrow> (Inl err, st')
     | (Inr ref, e', st') \<Rightarrow> (Inr (ref, consumed (e_src e) (e_src e')), st'))"

section \<open>Objects\<close>

text \<open>Sealing \<open>sz\<close> bytes of \<open>r\<close> under the bucket's key and storing them: the ciphertext size, the
  base nonce, the reference and the plaintext consumed.\<close>

definition seal_put :: "(goerr \<Rightarrow> goerr) \<Rightarrow> string \<Rightarrow> 'b service \<Rightarrow> string \<Rightarrow> string \<Rightarrow> int \<Rightarrow> reader
    \<Rightarrow> ('b world, int \<times> bytes \<times> blobref \<times> bytes) step" where
  "seal_put nonce_err op sv b key sz r =
     ebind (cipher_for sv b) (\<lambda>c.
       let csize = ciphertext_size c sz in
       if csize > be_max (sv_backend sv) then efail S3EntityTooLarge
       else ecatch (rand_read nonce_len) (\<lambda>e. efail (nonce_err e)) (\<lambda>base.
         ecatch (upload_blob sv key csize (encrypter_init c r sz base)) (\<lambda>e. efail (map_backend_err op e)) (\<lambda>(ref, plain).
           eret (csize, base, ref, plain))))"

text \<open>\<^verbatim>\<open>PutObject\<close> up to the upload, and what follows it; other requests may come between.\<close>

definition svc_put_upload ::
    "'b service \<Rightarrow> string \<Rightarrow> string \<Rightarrow> string \<Rightarrow> int \<Rightarrow> reader \<Rightarrow> ('b world, object) step" where
  "svc_put_upload sv b key ctype sz r =
     ebind (rename_err ErrNotFound S3NoSuchBucket (on_meta (get_bucket b))) (\<lambda>_.
     ebind (seal_put (\<lambda>e. Wrap ''nonce'' [e]) ''put'' sv b key sz r) (\<lambda>(csize, base, ref, plain).
       eret \<lparr>o_bucket = b, o_key = key, o_size = sz, o_ctsize = csize,
             o_etag = hex_encode (sv_md5 sv plain), o_ctype = ctype, o_msg = fst ref, o_file = snd ref,
             o_nonce = base, o_created = zero_time\<rparr>))"

text \<open>The row is written last; when that fails the blob is deleted and the error is passed on
  through \<open>wrap\<close>.\<close>

definition svc_record :: "(goerr \<Rightarrow> goerr) \<Rightarrow> 'b service \<Rightarrow> object \<Rightarrow> ('b world, object) step" where
  "svc_record wrap sv ob =
     ecatch (on_meta (put_object (sv_now sv) ob))
       (\<lambda>e. ebind (delete_blob sv (ref_of ob)) (\<lambda>_. efail (wrap e)))
       (\<lambda>_. eret (ob\<lparr>o_created := sv_now sv\<rparr>))"

definition svc_put_record :: "'b service \<Rightarrow> object \<Rightarrow> ('b world, object) step" where
  "svc_put_record = svc_record (\<lambda>e. Wrap ''metadata'' [e])"

definition svc_put_object ::
    "'b service \<Rightarrow> string \<Rightarrow> string \<Rightarrow> string \<Rightarrow> int \<Rightarrow> reader \<Rightarrow> ('b world, object) step" where
  "svc_put_object sv b key ctype sz r = ebind (svc_put_upload sv b key ctype sz r) (svc_put_record sv)"

definition open_ciphertext :: "'b service \<Rightarrow> object \<Rightarrow> ('b world, reader) step" where
  "open_ciphertext sv ob = on_blobs (case sv_cache sv of
       Some ca \<Rightarrow> ca_stream ca (ref_of ob) | None \<Rightarrow> be_get (sv_backend sv) (ref_of ob))"

definition svc_head_object :: "string \<Rightarrow> string \<Rightarrow> ('b world, object) step" where
  "svc_head_object b key = rename_err ErrNotFound S3NoSuchKey (on_meta (get_object b key))"

text \<open>The plaintext stream is the decrypter's \<^verbatim>\<open>Read\<close>.\<close>

definition svc_get_object :: "'b service \<Rightarrow> string \<Rightarrow> string \<Rightarrow> ('b world, object \<times> decrypter) step" where
  "svc_get_object sv b key =
     ebind (svc_head_object b key) (\<lambda>ob.
     ebind (cipher_for sv b) (\<lambda>c.
       ecatch (open_ciphertext sv ob) (\<lambda>e. efail (map_backend_err ''get'' e)) (\<lambda>ct.
         case new_decrypter c ct of Inl e \<Rightarrow> efail e | Inr d \<Rightarrow> eret (ob, d))))"

text \<open>Without a cache the blob is copied to a temporary file, which is removed when the range
  has been decrypted (\<^verbatim>\<open>tempFileCloser\<close>).\<close>

definition download_temp :: "'b service \<Rightarrow> object \<Rightarrow> ('b world, string \<times> bytes) step" where
  "download_temp sv ob =
     ebind (os_do id) (\<lambda>_. ebind (create_temp sv) (\<lambda>f.
       ecatch (on_blobs (be_get (sv_backend sv) (ref_of ob)))
         (\<lambda>e. ebind (remove_file f) (\<lambda>_. efail e))
         (\<lambda>ct. ecatch (os_do (put_file f (Some (fst ct))))
            (\<lambda>e. ebind (remove_file f) (\<lambda>_. efail e))
            (\<lambda>_. case read_all ct of
                (d, None) \<Rightarrow> eret (f, d)
              | (d, Some e) \<Rightarrow> ebind (remove_file f) (\<lambda>_. efail e)))))"

definition open_ciphertext_at :: "'b service \<Rightarrow> object \<Rightarrow> ('b world, string option \<times> bytes) step" where
  "open_ciphertext_at sv ob = (case sv_cache sv of
       Some ca \<Rightarrow> ebind (on_blobs (ca_at ca (ref_of ob))) (\<lambda>d. eret (None, d))
     | None \<Rightarrow> ebind (download_temp sv ob) (\<lambda>(f, d). eret (Some f, d)))"

text \<open>The pipe delivers what \<^verbatim>\<open>DecryptRange\<close> writes, and its error at the end.\<close>

definition svc_get_object_range ::
    "'b service \<Rightarrow> string \<Rightarrow> string \<Rightarrow> int \<Rightarrow> int \<Rightarrow> ('b world, object \<times> bytes \<times> goerr option) step" where
  "svc_get_object_range sv b key start stop =
     ebind (svc_head_object b key) (\<lambda>ob.
       if start < 0 \<or> stop \<ge> o_size ob \<or> start > stop then efail S3InvalidRange
       else ebind (cipher_for sv b) (\<lambda>c.
         ecatch (open_ciphertext_at sv ob) (\<lambda>e. efail (map_backend_err ''get'' e)) (\<lambda>(f, ct).
           let res = decrypt_range c ct (o_ctsize ob) start stop in
           ebind (case f of Some n \<Rightarrow> remove_file n | None \<Rightarrow> eret ()) (\<lambda>_. eret (ob, res)))))"

definition svc_delete_object :: "'b service \<Rightarrow> string \<Rightarrow> string \<Rightarrow> ('b world, unit) step" where
  "svc_delete_object sv b key =
     ecatch (on_meta (delete_object b key))
       (\<lambda>e. if errors_is e ErrNotFound then eret () else efail e)
       (\<lambda>ob. ebind (case sv_cache sv of
              Some ca \<Rightarrow> on_blobs (\<lambda>st. (Inr (), ca_evict ca (o_msg ob) st)) | None \<Rightarrow> eret ())
            (\<lambda>_. delete_blob sv (ref_of ob)))"

section \<open>Buckets\<close>

text \<open>\<^verbatim>\<open>bucketRE\<close> and \<^verbatim>\<open>validBucketName\<close> of \<^verbatim>\<open>router.go\<close>.\<close>

definition lower_alnum :: "char \<Rightarrow> bool" where
  "lower_alnum c \<longleftrightarrow> (let n = of_char c :: nat in 97 \<le> n \<and> n \<le> 122 \<or> 48 \<le> n \<and> n \<le> 57)"

definition valid_bucket_name :: "string \<Rightarrow> bool" where
  "valid_bucket_name s \<longleftrightarrow> 3 \<le> length s \<and> length s \<le> 63 \<and> lower_alnum (hd s) \<and> lower_alnum (last s) \<and>
     list_all (\<lambda>c. lower_alnum c \<or> c = CHR ''.'' \<or> c = CHR ''-'') s \<and> \<not> contains_str s ''..''"

text \<open>The key store draws its own random bytes.\<close>

definition create_key :: "string \<Rightarrow> ('b world, bytes) step" where
  "create_key b w =
     (if find_key b (w_keys w) \<noteq> None then (Inl ErrKeyExists, w)
      else case keys_create (w_rand w (w_draws w)) b (w_keys w) of
        (r, ks) \<Rightarrow> (r, w\<lparr>w_keys := ks, w_draws := Suc (w_draws w)\<rparr>))"

definition svc_create_bucket :: "'b service \<Rightarrow> string \<Rightarrow> ('b world, unit) step" where
  "svc_create_bucket sv b =
     (if \<not> valid_bucket_name b then efail S3InvalidBucketName
      else ecatch (create_key b)
        (\<lambda>e. if errors_is e ErrKeyExists then efail S3BucketAlreadyOwnedByYou else efail (Wrap ''keys'' [e]))
        (\<lambda>_. ecatch (on_meta (create_bucket (sv_now sv) b b))
          (\<lambda>e. ebind (attempt (on_keys (keys_remove b))) (\<lambda>_.
             if errors_is e ErrBucketExists then efail S3BucketAlreadyOwnedByYou else efail e))
          eret))"

definition forget_cipher :: "string \<Rightarrow> ('b world, unit) step" where
  "forget_cipher b w = (Inr (), w\<lparr>w_ciphers := (w_ciphers w)(b := None)\<rparr>)"

definition svc_delete_bucket :: "string \<Rightarrow> ('b world, unit) step" where
  "svc_delete_bucket b =
     ecatch (on_meta (delete_bucket b))
       (\<lambda>e. if errors_is e ErrNotFound then efail S3NoSuchBucket
            else if errors_is e ErrBucketNotEmpty then efail S3BucketNotEmpty else efail e)
       (\<lambda>_. ebind (attempt (on_keys (keys_remove b))) (\<lambda>_. forget_cipher b))"

definition svc_list_buckets :: "('b world, bucket list) step" where
  "svc_list_buckets = on_meta list_buckets"

section \<open>Bodies of unknown length\<close>

definition enospc_or :: "goerr \<Rightarrow> goerr" where
  "enospc_or e = (if errors_is e ENOSPC then S3InsufficientStorage else e)"

definition stage_temp :: "'b service \<Rightarrow> reader \<Rightarrow> int \<Rightarrow> ('b world, string \<times> int) step" where
  "stage_temp sv r max_size =
     ebind (os_do id) (\<lambda>_.
     ecatch (create_temp sv) (\<lambda>e. efail (enospc_or e)) (\<lambda>f.
       let (d, err) = read_all (limit_reader (i64 (max_size + 1)) r) in
       ecatch (ebind (os_do (put_file f (Some d))) (\<lambda>_. case err of None \<Rightarrow> eret () | Some e \<Rightarrow> efail e))
         (\<lambda>e. ebind (remove_file f) (\<lambda>_. efail (enospc_or e)))
         (\<lambda>_. if int (length d) > max_size then ebind (remove_file f) (\<lambda>_. efail S3EntityTooLarge)
              else ecatch (os_do id) (\<lambda>e. ebind (remove_file f) (\<lambda>_. efail e))
                (\<lambda>_. eret (f, int (length d))))))"

end
