(* ===== verification/UploadReads.thy ===== *)
theory UploadReads
  imports Storage
begin

text \<open>
  What an upload consumes: the plaintext behind an encrypter that has been read to its end, and
  why a source that is too short cannot yield the declared number of ciphertext bytes.
\<close>

section \<open>The position in the source\<close>

text \<open>An encrypter over \<open>src\<close> of declared size \<open>n\<close> that has consumed all but \<open>e_remain\<close>.\<close>

definition src_at :: "reader \<Rightarrow> int \<Rightarrow> encrypter \<Rightarrow> bool" where
  "src_at src n e \<longleftrightarrow> e_remain e \<le> n \<and> e_src e = (drop (nat (n - e_remain e)) (fst src), snd src) \<and>
     (e_done e \<longrightarrow> e_remain e = 0)"

text \<open>A frame whose plaintext is there.\<close>

lemma next_frame_enough:
  assumes "enc_ok e" "\<not> (e_remain e = 0 \<and> e_emitted e)" "e_src e = (d, t)"
    and "k = nat (if frame_size (e_c e) > e_remain e then e_remain e else frame_size (e_c e))" "k \<le> length d"
  shows "enc_next_frame e = (None, e\<lparr>e_src := (drop k d, t), e_remain := e_remain e - int k,
    e_buf := seal (aead_of (e_c e)) (xor_nonce (e_base e) (e_idx e)) (take k d) (frame_aad (e_idx e)),
    e_out := 0, e_idx := e_idx e + 1, e_emitted := True, e_done := (e_done e \<or> e_remain e - int k = 0)\<rparr>)"
proof -
  define z where "z = (if frame_size (e_c e) > e_remain e then e_remain e else frame_size (e_c e))"
  have z: "0 \<le> z" "k = nat z" using assms(1,4) by (auto simp: z_def enc_ok_def)
  moreover have "length (e_base e) = nonce_len" using assms(1) by (simp add: enc_ok_def)
  ultimately show ?thesis
    using assms(2,3,5) by (auto simp: enc_next_frame_def read_full_enough frame_nonce_def Let_def simp flip: z_def)
qed

lemma frame_len:
  assumes "enc_ok e" "k = nat (if frame_size (e_c e) > e_remain e then e_remain e else frame_size (e_c e))"
  shows "int k \<le> e_remain e" "e_remain e \<noteq> 0 \<Longrightarrow> 0 < k"
  using assms by (auto simp: enc_ok_def)

lemma src_at_next:
  assumes "enc_ok e" "src_at src n e" "n \<le> int (length (fst src))" "enc_next_frame e = (r, e')"
  shows "enc_ok e' \<and> src_at src n e'"
proof (cases "e_remain e = 0 \<and> e_emitted e")
  case True
  then show ?thesis using assms by (auto simp: enc_next_frame_def src_at_def enc_ok_def)
next
  case False
  define k where "k = nat (if frame_size (e_c e) > e_remain e then e_remain e else frame_size (e_c e))"
  note k = frame_len [OF assms(1) k_def]
  let ?d = "drop (nat (n - e_remain e)) (fst src)"
  have src: "e_src e = (?d, snd src)" using assms(2) by (simp add: src_at_def)
  have n: "e_remain e \<le> n" "e_done e \<longrightarrow> e_remain e = 0" using assms(2) by (auto simp: src_at_def)
  have len: "k \<le> length ?d" using n k(1) assms(3) by simp
  have "k + nat (n - e_remain e) = nat (n - (e_remain e - int k))" using k(1) n by simp
  then have d: "drop k ?d = drop (nat (n - (e_remain e - int k))) (fst src)" by simp
  have e': "e' = e\<lparr>e_src := (drop k ?d, snd src), e_remain := e_remain e - int k,
    e_buf := seal (aead_of (e_c e)) (xor_nonce (e_base e) (e_idx e)) (take k ?d) (frame_aad (e_idx e)),
    e_out := 0, e_idx := e_idx e + 1, e_emitted := True, e_done := (e_done e \<or> e_remain e - int k = 0)\<rparr>"
    using next_frame_enough [OF assms(1) False src k_def len] assms(4) by simp
  have "enc_ok e'" using assms(1) k(1) by (simp add: e' enc_ok_def)
  moreover have "src_at src n e'" unfolding e' src_at_def d using n k(1) by auto
  ultimately show ?thesis by simp
qed

lemmas enc_loop_induct = enc_loop.raw_induct [rotated, consumes 1]

lemma src_at_loop:
  assumes "enc_loop m w e = Some (bs, err, e')" "enc_ok e" "src_at src n e" "n \<le> int (length (fst src))"
  shows "enc_ok e' \<and> src_at src n e'"
  using assms
proof (induction m w e "(bs, err, e')" arbitrary: bs err e' rule: enc_loop_induct)
  case (1 loop m w e)
  show ?case
  proof (cases "m = 0 \<or> e_out e < length (e_buf e) \<or> e_done e")
    case True
    have out: "src_at src n (e\<lparr>e_out := k\<rparr>) = src_at src n e" for k
      by (simp add: src_at_def)
    have ok: "enc_ok (e\<lparr>e_out := k\<rparr>)" if "k \<le> length (e_buf e)" for k
      using 1(3) that by (auto simp: enc_ok_def)
    show ?thesis
    proof (cases "m \<noteq> 0 \<and> e_out e < length (e_buf e)")
      case False
      then show ?thesis using True 1(2-4) by (auto split: if_splits)
    next
      case copy: True
      define k where "k = min m (length (e_buf e) - e_out e)"
      have "loop (m - k) (w @ take k (drop (e_out e) (e_buf e))) (e\<lparr>e_out := e_out e + k\<rparr>) = Some (bs, err, e')"
        using 1(2) copy by (simp add: Let_def k_def)
      moreover have "e_out e + k \<le> length (e_buf e)" using copy unfolding k_def by linarith
      ultimately show ?thesis using 1(1) ok 1(4,5) out by blast
    qed
  next
    case False
    obtain r e1 where nf: "enc_next_frame e = (r, e1)" by (cases "enc_next_frame e")
    note next1 = src_at_next [OF 1(3-5) nf]
    show ?thesis
    proof (cases r)
      case None
      then have "loop m w e1 = Some (bs, err, e')" using 1(2) False nf by simp
      then show ?thesis using 1(1) next1 1(5) by blast
    next
      case (Some x)
      then show ?thesis using 1(2) False nf next1 by (auto split: if_splits)
    qed
  qed
qed

lemma src_at_rd:
  assumes "enc_ok e" "src_at src n e" "n \<le> int (length (fst src))"
  shows "src_at src n (snd (snd (enc_rd m e)))"
proof (cases "enc_read m e")
  case None
  then show ?thesis using assms(2) by (simp add: enc_rd_def)
next
  case (Some r)
  obtain bs err e' where r: "r = (bs, err, e')" by (cases r) auto
  have hn: "enc_ok (e\<lparr>e_headerN := k\<rparr>)" "src_at src n (e\<lparr>e_headerN := k\<rparr>)" for k
    using assms(1,2) by (auto simp: enc_ok_def src_at_def)
  have "src_at src n e'"
    using Some r src_at_loop [OF _ hn assms(3)] src_at_loop [OF _ assms] hn(2)
    by (auto simp: enc_read_def Let_def split: if_splits)
  then show ?thesis by (simp add: enc_rd_def Some r)
qed

lemma enc_after_ok:
  "enc_ok e \<Longrightarrow> \<forall>n\<in>set ns. 0 < n \<Longrightarrow> enc_ok (enc_after ns e) \<and> snd (enc_pend (enc_after ns e)) = snd (enc_pend e)"
proof (induction ns arbitrary: e)
  case (Cons n ns)
  obtain bs err e' where r: "enc_rd n e = (bs, err, e')" by (cases "enc_rd n e") auto
  have "0 < n" using Cons.prems(2) by simp
  from enc_rd_cases [OF Cons.prems(1) this r] Cons.IH [of e'] Cons.prems(2) show ?case by (simp add: r)
qed simp

lemma src_at_after:
  assumes "enc_ok e" "src_at src n e" "n \<le> int (length (fst src))" "\<forall>m\<in>set ns. 0 < m"
  shows "src_at src n (enc_after ns e)"
  using assms
proof (induction ns arbitrary: e)
  case (Cons m ns)
  obtain bs err e' where r: "enc_rd m e = (bs, err, e')" by (cases "enc_rd m e") auto
  have "0 < m" using Cons.prems(4) by simp
  then have "enc_ok e'" using enc_rd_cases [OF Cons.prems(1) _ r] by simp
  moreover have "src_at src n e'" using src_at_rd [OF Cons.prems(1-3), of m] by (simp add: r)
  ultimately show ?case using Cons.IH [of e'] Cons.prems(3,4) by (simp add: r)
qed simp

section \<open>Read to the end\<close>

lemma seal_not_empty: "aead_laws a \<Longrightarrow> seal a n p d \<noteq> []"
proof
  assume "aead_laws a" "seal a n p d = []"
  then have "length p + tag_len = 0" unfolding aead_laws_def by (metis list.size(3))
  then show False by (simp add: tag_len_def)
qed

lemma pend_empty_remain:
  assumes "enc_ok e" "src_at src n e" "n \<le> int (length (fst src))" "aead_laws (aead_of (e_c e))"
    and "fst (enc_pend e) = []"
  shows "e_remain e = 0"
proof (rule ccontr)
  assume r: "e_remain e \<noteq> 0"
  have nd: "\<not> e_done e" using assms(2) r by (auto simp: src_at_def)
  have s: "e_src e = (drop (nat (n - e_remain e)) (fst src), snd src)" using assms(2) by (simp add: src_at_def)
  have l: "e_remain e \<le> int (length (drop (nat (n - e_remain e)) (fst src)))"
    using assms(1-3) by (auto simp: src_at_def enc_ok_def)
  define k where "k = nat (if frame_size (e_c e) > e_remain e then e_remain e else frame_size (e_c e))"
  have "k \<le> length (drop (nat (n - e_remain e)) (fst src))" using l frame_len(1) [OF assms(1) k_def] by linarith
  then obtain e' where e': "enc_next_frame e = (None, e')" "e_buf e' \<noteq> []"
    using next_frame_enough [OF assms(1) _ s k_def] r seal_not_empty [OF assms(4)] by simp
  have "fst (enc_frames (enc_fuel e) e) \<noteq> []"
    using e' nd by (simp add: enc_fuel_def split: prod.split)
  then show False using assms(5) by (auto simp: enc_pend_def enc_tail_def split: prod.splits)
qed

lemma e_c_after: "e_c (enc_after ns e) = e_c e"
proof (induction ns arbitrary: e)
  case (Cons n ns)
  have nf: "e_c (snd (enc_next_frame x)) = e_c x" for x
    by (auto simp: enc_next_frame_def Let_def split: prod.splits option.splits)
  have loop: "enc_loop m w x = Some (bs, err, x') \<Longrightarrow> e_c x' = e_c x" for m w x bs err x'
  proof (induction m w x "(bs, err, x')" arbitrary: bs err x' rule: enc_loop_induct)
    case (1 loop m w x)
    obtain r y where y: "enc_next_frame x = (r, y)" by (cases "enc_next_frame x")
    have "e_c y = e_c x" using nf [of x] y by simp
    then show ?case using 1 y by (auto simp: Let_def split: if_splits option.splits)
  qed
  have "e_c (snd (snd (enc_rd n e))) = e_c e"
    using loop by (auto simp: enc_rd_def enc_read_def Let_def split: option.splits if_splits)
  then show ?case using Cons by simp
qed simp

lemma consumed_all:
  assumes "cipher_ok c" "length base = nonce_len" "\<forall>m\<in>set ns. 0 < m"
    and "e = enc_after ns (encrypter_init c (p @ rest, t) (int (length p)) base)" "fst (enc_pend e) = []"
  shows "e_src e = (rest, t)"
proof -
  let ?e = "encrypter_init c (p @ rest, t) (int (length p)) base"
  have c: "aead_laws (aead_of c)" "0 < frame_size c" using assms(1) by (auto simp: cipher_ok_def)
  have ok: "enc_ok ?e" using enc_ok_init [OF c(2) assms(2)] by simp
  have at: "src_at (p @ rest, t) (int (length p)) ?e" by (simp add: src_at_def encrypter_init_def)
  have at': "src_at (p @ rest, t) (int (length p)) e"
    unfolding assms(4) by (rule src_at_after [OF ok at]) (simp_all add: assms(3))
  have ok': "enc_ok e" using enc_after_ok [OF ok assms(3)] assms(4) by simp
  have "e_c e = c" unfolding assms(4) e_c_after by (simp add: encrypter_init_def)
  then have "e_remain e = 0" using pend_empty_remain [OF ok' at'] c(1) assms(5) by simp
  then show ?thesis using at' by (simp add: src_at_def)
qed

section \<open>A source that is too short\<close>

lemma short_frames:
  assumes "enc_ok e" "aead_laws (aead_of (e_c e))" "e_src e = (d, t)" "\<not> e_done e"
    and "int (length d) < e_remain e" "e_remain e = int (length (d @ q))" "nat (e_remain e) < fuel"
  shows "length (fst (enc_frames fuel e)) < length (fst (enc_frames fuel (e\<lparr>e_src := (d @ q, t')\<rparr>)))"
  using assms
proof (induction fuel arbitrary: e d)
  case (Suc fuel)
  have r: "e_remain e \<noteq> 0" using Suc.prems(5) by auto
  define k where "k = nat (if frame_size (e_c e) > e_remain e then e_remain e else frame_size (e_c e))"
  let ?e = "e\<lparr>e_src := (d @ q, t')\<rparr>"
  have ok: "enc_ok ?e" using Suc.prems(1) by (simp add: enc_ok_def)
  note k = frame_len [OF Suc.prems(1) k_def]
  have full: "k \<le> length (d @ q)" using k(1) Suc.prems(6) by simp
  have nf: "enc_next_frame ?e = (None, ?e\<lparr>e_src := (drop k (d @ q), t'), e_remain := e_remain ?e - int k,
    e_buf := seal (aead_of (e_c ?e)) (xor_nonce (e_base ?e) (e_idx ?e)) (take k (d @ q)) (frame_aad (e_idx ?e)),
    e_out := 0, e_idx := e_idx ?e + 1, e_emitted := True, e_done := (e_done ?e \<or> e_remain ?e - int k = 0)\<rparr>)"
    by (rule next_frame_enough [OF ok _ _ _ full]) (use r in \<open>simp_all add: k_def\<close>)
  show ?case
  proof (cases "k \<le> length d")
    case False
    have "fst (enc_frames (Suc fuel) e) = []"
    proof -
      have "enc_next_frame e = (Some (case t of Eof \<Rightarrow> IoUnexpectedEOF | Fail x \<Rightarrow>
          if errors_is x IoEOF \<or> errors_is x IoUnexpectedEOF then IoUnexpectedEOF else x), e\<lparr>e_src := ([], t)\<rparr>)"
        using False r Suc.prems(1,3) unfolding k_def
        by (auto simp: enc_next_frame_def read_full_short enc_ok_def Let_def split: ending.splits if_splits)
      then show ?thesis using Suc.prems(4) by simp
    qed
    moreover have "fst (enc_frames (Suc fuel) ?e) \<noteq> []"
      using nf Suc.prems(4) seal_not_empty [OF Suc.prems(2)] by (simp split: prod.split)
    ultimately show ?thesis by simp
  next
    case True
    have "0 < k" using k(2) r by simp
    have less: "int k < e_remain e" using True Suc.prems(5) by linarith
    let ?g = "\<lambda>src buf. e\<lparr>e_src := src, e_remain := e_remain e - int k, e_buf := buf,
      e_out := 0, e_idx := e_idx e + 1, e_emitted := True, e_done := (e_done e \<or> e_remain e - int k = 0)\<rparr>"
    define buf where "buf = seal (aead_of (e_c e)) (xor_nonce (e_base e) (e_idx e)) (take k d) (frame_aad (e_idx e))"
    have n1: "enc_next_frame e = (None, ?g (drop k d, t) buf)"
      unfolding buf_def by (rule next_frame_enough [OF Suc.prems(1) _ Suc.prems(3) k_def True]) (use r in simp)
    have n2: "enc_next_frame ?e = (None, ?g (drop k d @ q, t') buf)"
      using nf True by (simp add: buf_def)
    let ?e1 = "?g (drop k d, t) buf"
    have pre: "enc_ok ?e1" "aead_laws (aead_of (e_c ?e1))" "e_src ?e1 = (drop k d, t)" "\<not> e_done ?e1"
      "int (length (drop k d)) < e_remain ?e1" "e_remain ?e1 = int (length (drop k d @ q))" "nat (e_remain ?e1) < fuel"
      using Suc.prems True \<open>0 < k\<close> k(1) less by (auto simp: enc_ok_def)
    have u: "?e1\<lparr>e_src := (drop k d @ q, t')\<rparr> = ?g (drop k d @ q, t') buf" by (cases e) simp
    from Suc.IH [OF pre]
    have "length (fst (enc_frames fuel ?e1)) < length (fst (enc_frames fuel (?g (drop k d @ q, t') buf)))"
      unfolding u .
    then show ?thesis using n1 n2 Suc.prems(4) by (simp add: case_prod_beta)
  qed
qed simp

lemma short_source:
  assumes "cipher_ok c" "length base = nonce_len" "int (length d) < n" "n \<le> 2 ^ 58"
  shows "int (length (fst (enc_pend (encrypter_init c (d, t) n base)))) < ciphertext_size c n"
proof -
  define q where "q = replicate (nat n - length d) (0 :: byte)"
  have n: "n = int (length (d @ q))" using assms(3) by (simp add: q_def)
  let ?e = "encrypter_init c (d, t) n base"
  have e: "?e\<lparr>e_src := (d @ q, t)\<rparr> = encrypter_init c (d @ q, t) n base" by (simp add: encrypter_init_def)
  have fs: "0 < frame_size c" "aead_laws (aead_of c)" using assms(1) by (auto simp: cipher_ok_def)
  have "enc_ok ?e" using enc_ok_init [OF fs(1) assms(2)] assms(3) by simp
  then have "length (fst (enc_frames (enc_fuel ?e) ?e)) <
      length (fst (enc_frames (enc_fuel ?e) (?e\<lparr>e_src := (d @ q, t)\<rparr>)))"
    by (rule short_frames) (use assms(3) fs n in \<open>simp_all add: encrypter_init_def enc_fuel_def\<close>)
  moreover have "fst (new_encrypter_with_nonce c src n base) = enc_header c base @
      fst (enc_frames (enc_fuel ?e) (encrypter_init c src n base))" for src
    by (simp add: new_encrypter_with_nonce_def enc_fuel_def Let_def encrypter_init_def split: prod.split
        del: enc_frames.simps)
  ultimately have "length (fst (new_encrypter_with_nonce c (d, t) n base)) <
      length (fst (new_encrypter_with_nonce c (d @ q, t) n base))"
    unfolding e by simp
  moreover have "new_encrypter_with_nonce c (d @ q, t) n base = (encrypted c base (d @ q), Eof)"
    using encrypter_correct [OF fs(1) assms(2), of "d @ q" "[]" t] n by simp
  moreover have "ciphertext_size c n = int (length (encrypted c base (d @ q)))"
    unfolding n by (rule ciphertext_size_encrypted [OF assms(1,2)]) (use assms(4) n in \<open>simp only: of_nat_le_iff [symmetric, where 'a = int], simp\<close>)
  ultimately show ?thesis by (simp add: enc_pend_init)
qed

end
