(* ===== verification/ServiceProperties.thy ===== *)
theory ServiceProperties
  imports UploadReads Service MetadataProperties KeysProperties
begin

text \<open>
  Properties of the business layer: an invariant that relates the object rows, the keys, the
  cached ciphers and the blobs, its preservation by every operation under every failure of the
  database, the key file, the backend and the random source, and what it gives a client.
\<close>

section \<open>The invariant\<close>

text \<open>The cipher of a bucket: that of its key.\<close>

definition bucket_cipher :: "'b service \<Rightarrow> keyring \<Rightarrow> string \<Rightarrow> cipher option" where
  "bucket_cipher sv ks b = (case keys_get b ks of
       Inl e \<Rightarrow> None
     | Inr key \<Rightarrow> (case new_cipher (sv_gcm sv) key
           (if sv_frame_size sv = 0 then default_frame_size else sv_frame_size sv) of
             Inl e \<Rightarrow> None | Inr c \<Rightarrow> Some c))"

text \<open>The row describes a blob that is held: the sealed plaintext \<open>p\<close>.\<close>

definition stored :: "'b service \<Rightarrow> (blobref \<Rightarrow> bytes option) \<Rightarrow> (string \<Rightarrow> cipher option) \<Rightarrow> object \<Rightarrow> bytes \<Rightarrow> bool" where
  "stored sv h kf ob p \<longleftrightarrow> (\<exists>c. kf (o_bucket ob) = Some c \<and> h (ref_of ob) = Some (encrypted c (o_nonce ob) p) \<and>
     length (o_nonce ob) = nonce_len \<and> length p \<le> 2 ^ 58 \<and> o_size ob = int (length p) \<and>
     o_ctsize ob = ciphertext_size c (int (length p)))"

definition rows_ok ::
    "'b service \<Rightarrow> (blobref \<Rightarrow> bytes option) \<Rightarrow> (string \<Rightarrow> cipher option) \<Rightarrow> object list \<Rightarrow> bool" where
  "rows_ok sv h kf obs \<longleftrightarrow> inj_on o_msg (set obs) \<and> (\<forall>ob\<in>set obs. \<exists>p. stored sv h kf ob p)"

text \<open>Every object's bucket exists.\<close>

definition homed :: "'b world \<Rightarrow> bool" where
  "homed w \<longleftrightarrow> (\<forall>ob\<in>set (objects (w_meta w)). o_bucket ob \<in> b_name ` set (buckets (w_meta w)))"

definition svc_inv :: "'b service \<Rightarrow> ('b \<Rightarrow> blobref \<Rightarrow> bytes option) \<Rightarrow> 'b world \<Rightarrow> bool" where
  "svc_inv sv held w \<longleftrightarrow> store_inv (w_meta w) \<and> ks_inv (w_keys w) \<and>
     (\<forall>b c. w_ciphers w b = Some c \<longrightarrow> bucket_cipher sv (w_keys w) b = Some c) \<and>
     rows_ok sv (held (w_blobs w)) (bucket_cipher sv (w_keys w)) (objects (w_meta w))"

text \<open>What is assumed of the parameters: AES-GCM, the backend, and the cache if there is one.\<close>

definition cache_law :: "'b cache \<Rightarrow> ('b \<Rightarrow> blobref \<Rightarrow> bytes option) \<Rightarrow> bool" where
  "cache_law ca held \<longleftrightarrow>
     (\<forall>ref st r st'. ca_stream ca ref st = (r, st') \<longrightarrow>
        held st' = held st \<and> (\<forall>d d'. r = Inr (d, Eof) \<longrightarrow> held st ref = Some d' \<longrightarrow> d = d')) \<and>
     (\<forall>ref st r st'. ca_at ca ref st = (r, st') \<longrightarrow>
        held st' = held st \<and> (\<forall>d d'. r = Inr d \<longrightarrow> held st ref = Some d' \<longrightarrow> d = d')) \<and>
     (\<forall>m st. held (ca_evict ca m st) = held st)"

definition service_laws :: "'b service \<Rightarrow> ('b \<Rightarrow> blobref \<Rightarrow> bytes option) \<Rightarrow> bool" where
  "service_laws sv held \<longleftrightarrow> backend_laws (sv_backend sv) held \<and> (\<forall>k. aead_laws (sv_gcm sv k)) \<and>
     (case sv_cache sv of None \<Rightarrow> True | Some ca \<Rightarrow> cache_law ca held)"

section \<open>Keys and ciphers\<close>

lemma flush_locked_rows: "flush_locked s = (r, s') \<Longrightarrow> ks_keys s' = ks_keys s"
  by (auto simp: flush_locked_def split: prod.splits)

lemma find_key_rows: "ks_keys s' = ks_keys s \<Longrightarrow> find_key b s' = find_key b s \<and> ks_inv s' = ks_inv s"
  by (simp add: find_key_def ks_inv_def)

lemma del_key_rows: "ks_keys s' = ks_keys s \<Longrightarrow> ks_keys (del_key b s') = ks_keys (del_key b s)"
  by (simp add: del_key_def)

lemma put_key_rows: "ks_keys s' = ks_keys s \<Longrightarrow> ks_keys (put_key r s') = ks_keys (put_key r s)"
  by (simp add: put_key_def)

lemma keys_create_find:
  assumes "keys_create rnd b s = (r, s')" "ks_inv s"
  shows "ks_inv s' \<and> find_key x s' = (case r of
      Inl e \<Rightarrow> find_key x s | Inr k \<Rightarrow> if x = b then Some (b, k) else find_key x s) \<and>
    (\<forall>k. r = Inr k \<longrightarrow> find_key b s = None \<and> length k = key_len)"
proof (cases "find_key b s = None \<and> (\<exists>d. rnd = Inr d)")
  case False
  then show ?thesis using assms by (cases rnd) (auto simp: keys_create_def split: if_splits)
next
  case True
  then obtain d where d: "rnd = Inr d" "find_key b s = None" by blast
  define k where "k = take key_len d @ replicate (key_len - length d) 0"
  have k: "length k = key_len" by (simp add: k_def)
  obtain v s1 where f: "flush_locked (put_key (b, k) s) = (v, s1)" by fastforce
  note rows = flush_locked_rows [OF f]
  have put: "find_key y s1 = (if y = b then Some (b, k) else find_key y s)" "ks_inv s1" for y
    using find_key_rows [OF rows] kst.lookup_put [of y "(b, k)" s] kst.inv_put [OF assms(2)] by auto
  show ?thesis
  proof (cases v)
    case (Inl e)
    then have "r = Inl e" "s' = del_key b s1" using assms(1) d f by (simp_all add: keys_create_def Let_def k_def)
    then show ?thesis using put kst.lookup_del [of x b s1] kst.inv_del d(2) by simp
  next
    case (Inr u)
    then have "r = Inr k" "s' = s1" using assms(1) d f by (simp_all add: keys_create_def Let_def k_def)
    then show ?thesis using put d(2) k by simp
  qed
qed

lemma keys_remove_find:
  assumes "keys_remove b s = (r, s')" "ks_inv s"
  shows "ks_inv s' \<and> find_key x s' = (case r of Inl e \<Rightarrow> find_key x s | Inr _ \<Rightarrow> if x = b then None else find_key x s)"
proof (cases "find_key b s")
  case None
  then show ?thesis using assms by (auto simp: keys_remove_def)
next
  case (Some saved)
  obtain v s1 where f: "flush_locked (del_key b s) = (v, s1)" by fastforce
  note rows = flush_locked_rows [OF f]
  have del: "find_key y s1 = (if y = b then None else find_key y s)" "ks_inv s1" for y
    using find_key_rows [OF rows] kst.lookup_del [of y b s] kst.inv_del [OF assms(2)] by auto
  have b: "fst saved = b" using kst.lookup_rows [OF assms(2), of b saved] Some by simp
  show ?thesis
  proof (cases v)
    case (Inl e)
    then have "r = Inl e" "s' = put_key saved s1" using assms(1) Some f by (simp_all add: keys_remove_def)
    then show ?thesis using del kst.lookup_put [of x saved s1] kst.inv_put b Some by simp
  next
    case (Inr u)
    then show ?thesis using assms(1) Some f del by (auto simp: keys_remove_def)
  qed
qed

lemma bucket_cipher_find:
  assumes "find_key b ks' = find_key b ks"
  shows "bucket_cipher sv ks' b = bucket_cipher sv ks b"
  using assms by (simp add: bucket_cipher_def keys_get_def)

lemma bucket_cipher_ok:
  assumes "service_laws sv held" "bucket_cipher sv ks b = Some c"
  shows "cipher_ok c"
  using assms
  by (auto simp: bucket_cipher_def new_cipher_def cipher_ok_def service_laws_def default_frame_size_def Let_def
      split: sum.splits if_splits)

lemma cipher_for_cases:
  assumes "cipher_for sv b w = (r, w')" "\<forall>c. w_ciphers w b = Some c \<longrightarrow> bucket_cipher sv (w_keys w) b = Some c"
  shows "w_meta w' = w_meta w \<and> w_keys w' = w_keys w \<and> w_blobs w' = w_blobs w \<and>
    (case r of Inl e \<Rightarrow> w' = w
     | Inr c \<Rightarrow> bucket_cipher sv (w_keys w) b = Some c \<and>
         (w_ciphers w' = w_ciphers w \<or> w_ciphers w' = (w_ciphers w)(b \<mapsto> c)))"
  using assms
  by (auto simp: cipher_for_def bucket_cipher_def Let_def split: option.splits sum.splits if_splits)

section \<open>Steps that keep everything\<close>

text \<open>Steps after which every row, key and blob is what it was; blobs may have been added.\<close>

definition ciphers_ok :: "'b service \<Rightarrow> 'b world \<Rightarrow> bool" where
  "ciphers_ok sv w \<longleftrightarrow> (\<forall>b c. w_ciphers w b = Some c \<longrightarrow> bucket_cipher sv (w_keys w) b = Some c)"

definition quiet :: "'b service \<Rightarrow> ('b \<Rightarrow> blobref \<Rightarrow> bytes option) \<Rightarrow> 'b world \<Rightarrow> 'b world \<Rightarrow> bool" where
  "quiet sv held w w' \<longleftrightarrow> tables (w_meta w') = tables (w_meta w) \<and> w_keys w' = w_keys w \<and> ciphers_ok sv w' \<and>
     (\<forall>ref d. held (w_blobs w) ref = Some d \<longrightarrow> held (w_blobs w') ref = Some d)"

definition quiet_step :: "'b service \<Rightarrow> ('b \<Rightarrow> blobref \<Rightarrow> bytes option) \<Rightarrow> ('b world, 'a) step \<Rightarrow> bool" where
  "quiet_step sv held m \<longleftrightarrow> (\<forall>w r w'. ciphers_ok sv w \<longrightarrow> m w = (r, w') \<longrightarrow> quiet sv held w w')"

named_theorems quiet_intros \<open>steps that keep every row, key and blob\<close>

lemma quiet_refl: "ciphers_ok sv w \<Longrightarrow> quiet sv held w w"
  by (simp add: quiet_def)

lemma quiet_trans: "quiet sv held w w1 \<Longrightarrow> quiet sv held w1 w2 \<Longrightarrow> quiet sv held w w2"
  by (simp add: quiet_def)

lemma quiet_ciphers: "quiet sv held w w' \<Longrightarrow> ciphers_ok sv w'"
  by (simp add: quiet_def)

lemma quiet_held: "quiet sv held w w' \<Longrightarrow> held (w_blobs w) ref = Some d \<Longrightarrow> held (w_blobs w') ref = Some d"
  unfolding quiet_def by blast

lemma quiet_no_message:
  assumes "quiet sv held w w'" "no_message (held (w_blobs w')) m"
  shows "no_message (held (w_blobs w)) m"
proof -
  have "held (w_blobs w) (m, f) = None" for f
    using quiet_held [OF assms(1), of "(m, f)"] assms(2) by (cases "held (w_blobs w) (m, f)") (auto simp: no_message_def)
  then show ?thesis by (simp add: no_message_def)
qed

lemma quiet_stepD: "quiet_step sv held m \<Longrightarrow> ciphers_ok sv w \<Longrightarrow> m w = (r, w') \<Longrightarrow> quiet sv held w w'"
  by (simp add: quiet_step_def)

lemma quiet_ebind [quiet_intros]:
  "quiet_step sv held m \<Longrightarrow> (\<And>x. quiet_step sv held (f x)) \<Longrightarrow> quiet_step sv held (ebind m f)"
  unfolding quiet_step_def ebind_def
  by (auto split: prod.splits sum.splits dest: quiet_ciphers) (meson quiet_ciphers quiet_trans)

lemma quiet_ecatch [quiet_intros]:
  "quiet_step sv held m \<Longrightarrow> (\<And>e. quiet_step sv held (h e)) \<Longrightarrow> (\<And>x. quiet_step sv held (f x)) \<Longrightarrow>
   quiet_step sv held (ecatch m h f)"
  unfolding quiet_step_def ecatch_def
  by (auto split: prod.splits sum.splits dest: quiet_ciphers) (meson quiet_ciphers quiet_trans)+

lemma quiet_eret [quiet_intros]: "quiet_step sv held (eret x)" "quiet_step sv held (efail e)"
  by (auto simp: quiet_step_def quiet_refl)

lemma quiet_on_meta [quiet_intros]:
  assumes "\<And>s r s'. m s = (r, s') \<Longrightarrow> tables s' = tables s"
  shows "quiet_step sv held (on_meta m)"
  using assms by (auto simp: quiet_step_def on_meta_def quiet_def ciphers_ok_def split: prod.splits)

lemma quiet_on_blobs [quiet_intros]:
  assumes "\<And>st r st'. m st = (r, st') \<Longrightarrow> held st' = held st"
  shows "quiet_step sv held (on_blobs m)"
  using assms by (auto simp: quiet_step_def on_blobs_def quiet_def ciphers_ok_def split: prod.splits)

lemma quiet_cipher_for [quiet_intros]: "quiet_step sv held (cipher_for sv b)"
  unfolding quiet_step_def
proof (intro allI impI)
  fix w r w'
  assume "ciphers_ok sv w" "cipher_for sv b w = (r, w')"
  then show "quiet sv held w w'"
    using cipher_for_cases [of sv b w r w']
    by (auto simp: quiet_def ciphers_ok_def split: sum.splits if_splits)
qed

lemma quiet_rand_read [quiet_intros]: "quiet_step sv held (rand_read n)"
  by (auto simp: quiet_step_def rand_read_def Let_def quiet_def ciphers_ok_def split: sum.splits)

lemma quiet_os_do: "quiet_step sv held (os_do id)" "quiet_step sv held (os_do (put_file n c))"
  by (auto simp: quiet_step_def os_do_def quiet_def ciphers_ok_def put_file_def split: list.splits option.splits)

lemma quiet_temp_files [quiet_intros]:
  "quiet_step sv held (os_do id)" "quiet_step sv held (os_do (put_file n c))"
  "quiet_step sv held (remove_file n)" "quiet_step sv held (create_temp sv)"
proof -
  show "quiet_step sv held (os_do id)" "quiet_step sv held (os_do (put_file n c))" by (rule quiet_os_do)+
  have "quiet_step sv held (attempt m)" if "quiet_step sv held m" for m :: "('a world, unit) step"
    using that unfolding quiet_step_def attempt_def by (metis Pair_inject surjective_pairing)
  then show "quiet_step sv held (remove_file n)" unfolding remove_file_def by (simp only: quiet_os_do)
  have "quiet_step sv held (ebind (os_do (put_file (sv_temp sv k) (Some []))) (\<lambda>_. eret (sv_temp sv k)))" for k
    by (intro quiet_intros quiet_os_do)
  note q = this
  show "quiet_step sv held (create_temp sv)"
    unfolding quiet_step_def
  proof (intro allI impI)
    fix w r w'
    assume w: "ciphers_ok sv w" "create_temp sv w = (r, w')"
    then have "ciphers_ok sv (w\<lparr>w_temps := Suc (w_temps w)\<rparr>)" by (simp add: ciphers_ok_def)
    from quiet_stepD [OF q this] w(2) have "quiet sv held (w\<lparr>w_temps := Suc (w_temps w)\<rparr>) w'"
      by (simp add: create_temp_def Let_def)
    then show "quiet sv held w w'" by (simp add: quiet_def)
  qed
qed

lemma get_tables:
  "get_bucket n s = (r, s') \<Longrightarrow> tables s' = tables s"
  "get_object b k s = (r2, s') \<Longrightarrow> tables s' = tables s"
  by (cases r; auto dest: get_Inl get_bucket_Inr) (cases r2; auto dest: get_Inl get_object_Inr)

lemma be_get_law:
  assumes "service_laws sv held" "be_get (sv_backend sv) ref st = (r, st')"
  shows "held st' = held st \<and> (\<forall>d d'. r = Inr (d, Eof) \<longrightarrow> held st ref = Some d' \<longrightarrow> d = d')"
  using assms unfolding service_laws_def backend_laws_def get_law_def by blast

lemma cache_laws:
  assumes "service_laws sv held" "sv_cache sv = Some ca"
  shows "ca_stream ca ref st = (r, st') \<Longrightarrow> held st' = held st \<and> (\<forall>d d'. r = Inr (d, Eof) \<longrightarrow> held st ref = Some d' \<longrightarrow> d = d')"
    "ca_at ca ref st = (r2, st') \<Longrightarrow> held st' = held st \<and> (\<forall>d d'. r2 = Inr d \<longrightarrow> held st ref = Some d' \<longrightarrow> d = d')"
    "held (ca_evict ca m st) = held st"
proof -
  have "cache_law ca held" using assms by (simp add: service_laws_def)
  then show "ca_stream ca ref st = (r, st') \<Longrightarrow> held st' = held st \<and> (\<forall>d d'. r = Inr (d, Eof) \<longrightarrow> held st ref = Some d' \<longrightarrow> d = d')"
    "ca_at ca ref st = (r2, st') \<Longrightarrow> held st' = held st \<and> (\<forall>d d'. r2 = Inr d \<longrightarrow> held st ref = Some d' \<longrightarrow> d = d')"
    "held (ca_evict ca m st) = held st"
    unfolding cache_law_def by blast+
qed

lemma get_quiet:
  assumes "service_laws sv held"
  shows "be_get (sv_backend sv) ref st = (r, st') \<Longrightarrow> held st' = held st"
    "sv_cache sv = Some ca \<Longrightarrow> ca_stream ca ref st = (r, st') \<Longrightarrow> held st' = held st"
    "sv_cache sv = Some ca \<Longrightarrow> ca_at ca ref st = (r3, st') \<Longrightarrow> held st' = held st"
  using be_get_law [OF assms] cache_laws [OF assms] by blast+

lemma quiet_rename [quiet_intros]: "quiet_step sv held m \<Longrightarrow> quiet_step sv held (rename_err t n m)"
  unfolding rename_err_def by (intro quiet_intros) (auto intro: quiet_intros)

lemma quiet_head: "quiet_step sv held (svc_head_object b k)"
  unfolding svc_head_object_def by (intro quiet_intros) (rule get_tables(2))

lemma quiet_open:
  assumes "service_laws sv held"
  shows "quiet_step sv held (open_ciphertext sv ob)" "quiet_step sv held (open_ciphertext_at sv ob)"
proof -
  show "quiet_step sv held (open_ciphertext sv ob)"
    unfolding open_ciphertext_def
    by (intro quiet_intros) (use get_quiet [OF assms] in \<open>auto split: option.splits\<close>)
  have "quiet_step sv held (download_temp sv ob)"
    unfolding download_temp_def
    by (intro quiet_intros) (use get_quiet [OF assms] in \<open>auto split: prod.split option.split intro: quiet_intros\<close>)
  then show "quiet_step sv held (open_ciphertext_at sv ob)"
    unfolding open_ciphertext_at_def
    by (auto split: option.split prod.split intro!: quiet_intros dest: get_quiet(3) [OF assms])
qed

lemma quiet_get:
  assumes "service_laws sv held"
  shows "quiet_step sv held (svc_get_object sv b k)" "quiet_step sv held (svc_get_object_range sv b k s e)"
  unfolding svc_get_object_def svc_get_object_range_def Let_def
  by (auto intro!: quiet_intros quiet_head quiet_open [OF assms] split: sum.split if_split prod.split option.split)

section \<open>Uploading\<close>

lemma upload_law:
  assumes "service_laws sv held" "cipher_ok c" "length base = nonce_len" "0 \<le> sz" "sz \<le> 2 ^ 58"
    and "upload_blob sv name (ciphertext_size c sz) (encrypter_init c r sz base) w = (res, w')"
  shows "w_meta w' = w_meta w \<and> w_keys w' = w_keys w \<and> w_ciphers w' = w_ciphers w \<and>
    (\<forall>ref d. held (w_blobs w) ref = Some d \<longrightarrow> held (w_blobs w') ref = Some d) \<and>
    (\<forall>ref plain. res = Inr (ref, plain) \<longrightarrow> nat sz \<le> length (fst r) \<and> plain = take (nat sz) (fst r) \<and>
       no_message (held (w_blobs w)) (fst ref) \<and> held (w_blobs w') ref = Some (encrypted c base plain))"
proof -
  let ?e = "encrypter_init c r sz base"
  have c: "0 < frame_size c" using assms(2) by (simp add: cipher_ok_def)
  have ok: "enc_ok ?e" by (rule enc_ok_init [OF c assms(3,4)])
  obtain v e' st' where p: "be_put (sv_backend sv) name (ciphertext_size c sz) ?e (w_blobs w) = (v, e', st')"
    by (cases "be_put (sv_backend sv) name (ciphertext_size c sz) ?e (w_blobs w)")
  have "put_law (sv_backend sv) held" using assms(1) by (simp add: service_laws_def backend_laws_def)
  from this [unfolded put_law_def, rule_format, OF ok p] obtain ns where
    ns: "\<forall>n\<in>set ns. 0 < n" "e' = enc_after ns ?e" and
    v: "case v of Inl err \<Rightarrow> \<exists>ref d. held st' = held (w_blobs w) \<or>
           held (w_blobs w) ref = None \<and> held st' = (held (w_blobs w))(ref \<mapsto> d)
      | Inr ref \<Rightarrow> no_message (held (w_blobs w)) (fst ref) \<and> ciphertext_size c sz \<le> int (length (fst (enc_pend ?e))) \<and>
          fst (enc_pend e') = drop (nat (ciphertext_size c sz)) (fst (enc_pend ?e)) \<and>
          held st' = (held (w_blobs w))(ref \<mapsto> take (nat (ciphertext_size c sz)) (fst (enc_pend ?e)))"
    by blast
  show ?thesis
  proof (cases v)
    case (Inl err)
    then show ?thesis using v p assms(6)
      by (auto simp: upload_blob_def on_blobs_def)
  next
    case (Inr ref)
    have w': "w' = w\<lparr>w_blobs := st'\<rparr>" "res = Inr (ref, consumed r (e_src e'))"
      using p Inr assms(6) by (auto simp: upload_blob_def on_blobs_def encrypter_init_def)
    obtain d t where r: "r = (d, t)" by fastforce
    have len: "nat sz \<le> length d"
    proof (rule ccontr)
      assume "\<not> nat sz \<le> length d"
      then have "int (length d) < sz" by linarith
      from short_source [OF assms(2,3) this assms(5), of t] show False using v Inr r by simp
    qed
    define q where "q = take (nat sz) d"
    have q: "d = q @ drop (nat sz) d" "int (length q) = sz" "length q \<le> 2 ^ 58"
      using len assms(4,5) by (simp_all add: q_def nat_le_iff)
    have e: "?e = encrypter_init c (q @ drop (nat sz) d, t) (int (length q)) base" using q r by simp
    have pend: "fst (enc_pend ?e) = encrypted c base q"
      unfolding e enc_pend_init using encrypter_correct [OF c assms(3), of q "drop (nat sz) d" t] by simp
    have size: "ciphertext_size c sz = int (length (encrypted c base q))"
      using ciphertext_size_encrypted [OF assms(2,3) q(3)] q(2) by simp
    have "fst (enc_pend e') = []" using v Inr pend size by simp
    from consumed_all [OF assms(2,3) ns(1) ns(2) [unfolded e] this] have "e_src e' = (drop (nat sz) d, t)" .
    then have "consumed r (e_src e') = q" using len by (simp add: consumed_def r q_def)
    have free: "held (w_blobs w) ref = None" using v Inr no_messageD(2) by auto
    then show ?thesis using v Inr w' pend size len r q_def \<open>consumed r (e_src e') = q\<close> by auto
  qed
qed

lemma seal_put_spec:
  assumes "service_laws sv held" "ciphers_ok sv w" "0 \<le> sz" "sz \<le> 2 ^ 58"
    and "seal_put nerr op sv b key sz r w = (res, w')"
  shows "quiet sv held w w' \<and> (\<forall>csize base ref plain. res = Inr (csize, base, ref, plain) \<longrightarrow>
    nat sz \<le> length (fst r) \<and> plain = take (nat sz) (fst r) \<and> length base = nonce_len \<and>
    no_message (held (w_blobs w)) (fst ref) \<and> (\<exists>c. bucket_cipher sv (w_keys w) b = Some c \<and>
      csize = ciphertext_size c sz \<and> held (w_blobs w') ref = Some (encrypted c base plain)))"
proof -
  obtain k wk where k: "cipher_for sv b w = (k, wk)" by fastforce
  have qk: "quiet sv held w wk" by (rule quiet_stepD [OF quiet_cipher_for assms(2) k])
  show ?thesis
  proof (cases k)
    case (Inl e)
    then show ?thesis using assms(5) k qk by (auto simp: seal_put_def ebind_def)
  next
    case c: (Inr c)
    have bc: "bucket_cipher sv (w_keys w) b = Some c"
      using cipher_for_cases [OF k] assms(2) c by (simp add: ciphers_ok_def)
    obtain n wn where n: "rand_read nonce_len wk = (n, wn)" by fastforce
    have qn: "quiet sv held w wn"
      using quiet_stepD [OF quiet_rand_read quiet_ciphers [OF qk] n] qk quiet_trans by blast
    show ?thesis
    proof (cases "ciphertext_size c sz > be_max (sv_backend sv) \<or> (\<exists>e. n = Inl e)")
      case True
      then show ?thesis using assms(5) k c qk n qn
        by (auto simp: seal_put_def ebind_def ecatch_def Let_def split: if_splits)
    next
      case False
      then obtain base where base: "n = Inr base" by (cases n) auto
      have lb: "length base = nonce_len"
        using n base by (auto simp: rand_read_def Let_def copy_field_def split: sum.splits)
      obtain u wu where u: "upload_blob sv key (ciphertext_size c sz) (encrypter_init c r sz base) wn = (u, wu)"
        by fastforce
      note ul = upload_law [OF assms(1) bucket_cipher_ok [OF assms(1) bc] lb assms(3,4) u]
      have qu: "quiet sv held w wu" using qn ul by (auto simp: quiet_def ciphers_ok_def)
      have run: "seal_put nerr op sv b key sz r w = (case u of
          Inl e \<Rightarrow> (Inl (map_backend_err op e), wu)
        | Inr (ref, plain) \<Rightarrow> (Inr (ciphertext_size c sz, base, ref, plain), wu))"
        using k c n base u False
        by (simp add: seal_put_def ebind_def ecatch_def Let_def split: sum.split prod.split)
      show ?thesis
      proof (cases u)
        case (Inl e)
        then show ?thesis using run assms(5) qu by auto
      next
        case (Inr rp)
        obtain ref plain where rp: "rp = (ref, plain)" by fastforce
        have "no_message (held (w_blobs wn)) (fst ref)" using ul Inr rp by blast
        from quiet_no_message [OF qn this] have fresh: "no_message (held (w_blobs w)) (fst ref)" .
        have res: "res = Inr (ciphertext_size c sz, base, ref, plain)" "w' = wu" using run assms(5) Inr rp by simp_all
        have "nat sz \<le> length (fst r)" "plain = take (nat sz) (fst r)" "held (w_blobs wu) ref = Some (encrypted c base plain)"
          using ul Inr rp by blast+
        then show ?thesis using res qu fresh bc lb by (cases ref) simp
      qed
    qed
  qed
qed

text \<open>The row of a sealed object.\<close>

lemma sealed_row:
  assumes "bucket_cipher sv ks (o_bucket ob) = Some c" "h (ref_of ob) = Some (encrypted c (o_nonce ob) (take (nat sz) d))"
    and "length (o_nonce ob) = nonce_len" "o_size ob = sz" "o_ctsize ob = ciphertext_size c sz"
    and "0 \<le> sz" "sz \<le> 2 ^ 58" "nat sz \<le> length d"
  shows "stored sv h (bucket_cipher sv ks) ob (take (nat sz) d)"
proof -
  have "length (take (nat sz) d) \<le> 2 ^ 58" "int (length (take (nat sz) d)) = sz" using assms(6-8) by (simp_all add: nat_le_iff)
  then show ?thesis using assms(1-5) unfolding stored_def by metis
qed

lemma put_upload_spec:
  assumes "service_laws sv held" "ciphers_ok sv w" "0 \<le> sz" "sz \<le> 2 ^ 58"
    and "svc_put_upload sv b key ct sz r w = (res, w')"
  shows "quiet sv held w w' \<and> (\<forall>ob. res = Inr ob \<longrightarrow> find_bucket b (w_meta w) \<noteq> None \<and>
    nat sz \<le> length (fst r) \<and> o_bucket ob = b \<and> o_key ob = key \<and> o_created ob = zero_time \<and> o_ctype ob = ct \<and>
    o_etag ob = hex_encode (sv_md5 sv (take (nat sz) (fst r))) \<and> no_message (held (w_blobs w)) (o_msg ob) \<and>
    stored sv (held (w_blobs w')) (bucket_cipher sv (w_keys w)) ob (take (nat sz) (fst r)))"
proof -
  let ?A = "rename_err ErrNotFound S3NoSuchBucket (on_meta (get_bucket b)) :: ('a world, bucket) step"
  let ?S = "seal_put (\<lambda>e. Wrap ''nonce'' [e]) ''put'' sv b key sz r"
  obtain a wa where a: "?A w = (a, wa)" by fastforce
  have "quiet_step sv held ?A" by (intro quiet_intros) (rule get_tables)
  from quiet_stepD [OF this assms(2) a] have qa: "quiet sv held w wa" .
  obtain s ws where s: "?S wa = (s, ws)" by fastforce
  note sp = seal_put_spec [OF assms(1) quiet_ciphers [OF qa] assms(3,4) s]
  then have qs: "quiet sv held w ws" using quiet_trans [OF qa] by blast
  show ?thesis
  proof (cases "(\<exists>e. a = Inl e) \<or> (\<exists>e. s = Inl e)")
    case True
    then show ?thesis using assms(5) a s qa qs by (cases a) (auto simp: svc_put_upload_def ebind_def)
  next
    case False
    then obtain br csize base ref plain where v: "a = Inr br" "s = Inr (csize, base, ref, plain)"
      by (cases a; cases s) auto
    have bucket: "find_bucket b (w_meta w) \<noteq> None"
      using a v(1) by (auto simp: rename_err_def ecatch_Inr on_meta_def split: prod.splits if_splits dest: get_bucket_Inr)
    define ob where "ob = \<lparr>o_bucket = b, o_key = key, o_size = sz, o_ctsize = csize,
        o_etag = hex_encode (sv_md5 sv plain), o_ctype = ct, o_msg = fst ref, o_file = snd ref,
        o_nonce = base, o_created = zero_time\<rparr>"
    have res: "res = Inr ob" "w' = ws" using assms(5) a s v by (simp_all add: svc_put_upload_def ebind_def ob_def)
    have ref: "ref_of ob = ref" by (simp add: ob_def ref_of_def)
    have keys: "w_keys wa = w_keys w" using qa by (simp add: quiet_def)
    note sp = sp [THEN conjunct2, rule_format, OF v(2), unfolded keys]
    obtain c where c: "bucket_cipher sv (w_keys w) b = Some c" "csize = ciphertext_size c sz"
      "held (w_blobs ws) ref = Some (encrypted c base plain)" "nat sz \<le> length (fst r)" "plain = take (nat sz) (fst r)"
      "length base = nonce_len" "no_message (held (w_blobs wa)) (fst ref)" using sp by blast
    have "stored sv (held (w_blobs ws)) (bucket_cipher sv (w_keys w)) ob (take (nat sz) (fst r))"
      by (rule sealed_row [of sv "w_keys w" ob c]) (use c ref assms(3,4) in \<open>simp_all add: ob_def\<close>)
    moreover have "no_message (held (w_blobs w)) (fst ref)" by (rule quiet_no_message [OF qa c(7)])
    ultimately show ?thesis using res qs bucket c ref by (simp add: ob_def)
  qed
qed

section \<open>Preservation\<close>

lemma stored_mono:
  "stored sv h kf ob p \<Longrightarrow> (\<And>d. h (ref_of ob) = Some d \<Longrightarrow> h' (ref_of ob) = Some d) \<Longrightarrow> kf' (o_bucket ob) = kf (o_bucket ob) \<Longrightarrow>
   stored sv h' kf' ob p"
  by (auto simp: stored_def)

lemma stored_keep: "stored sv h kf ob p \<Longrightarrow> h' (ref_of ob) = h (ref_of ob) \<Longrightarrow> stored sv h' kf ob p"
  by (simp add: stored_def)

lemma stored_created [simp]: "stored sv h kf (ob\<lparr>o_created := t\<rparr>) p = stored sv h kf ob p"
  by (simp add: stored_def ref_of_def)

lemma tables_eq: "tables s' = tables s \<longleftrightarrow>
    buckets s' = buckets s \<and> objects s' = objects s \<and> uploads s' = uploads s \<and> parts s' = parts s"
  by (simp add: tables_def)

lemma svc_inv_ciphers: "svc_inv sv held w \<Longrightarrow> ciphers_ok sv w"
  by (simp add: svc_inv_def ciphers_ok_def)

lemma quiet_inv:
  assumes "svc_inv sv held w" "quiet sv held w w'"
  shows "svc_inv sv held w'"
proof -
  have t: "tables (w_meta w') = tables (w_meta w)" "w_keys w' = w_keys w" using assms(2) by (simp_all add: quiet_def)
  have "stored sv (held (w_blobs w')) kf ob p" if "stored sv (held (w_blobs w)) kf ob p" for kf ob p
    using quiet_held [OF assms(2)] by (blast intro: stored_mono [OF that])
  then have "rows_ok sv (held (w_blobs w')) kf obs" if "rows_ok sv (held (w_blobs w)) kf obs" for kf obs
    using that unfolding rows_ok_def by blast
  then show ?thesis using assms t tables_find(5) [OF t(1)] by (auto simp: svc_inv_def quiet_def ciphers_ok_def tables_eq)
qed

lemma delete_blob_law:
  assumes "service_laws sv held" "delete_blob sv ref w = (r, w')"
  shows "w_meta w' = w_meta w \<and> w_keys w' = w_keys w \<and> w_ciphers w' = w_ciphers w \<and> r = Inr () \<and>
    (\<forall>ref'. fst ref' \<noteq> fst ref \<longrightarrow> held (w_blobs w') ref' = held (w_blobs w) ref')"
proof -
  obtain e st where e: "be_delete (sv_backend sv) ref (w_blobs w) = (e, st)" by fastforce
  have "delete_law (sv_backend sv) held" using assms(1) by (simp add: service_laws_def backend_laws_def)
  then have "\<forall>ref'. fst ref' \<noteq> fst ref \<longrightarrow> held st ref' = held (w_blobs w) ref'" using e unfolding delete_law_def by blast
  then show ?thesis using assms(2) e by (auto simp: delete_blob_def on_blobs_def)
qed

lemma put_record_cases:
  assumes "service_laws sv held" "svc_record wrap sv ob w = (res, w')" "o_created ob = zero_time"
  shows "w_keys w' = w_keys w \<and> w_ciphers w' = w_ciphers w \<and>
    (case res of
       Inr row \<Rightarrow> row = ob\<lparr>o_created := sv_now sv\<rparr> \<and> w_blobs w' = w_blobs w \<and>
         tables (w_meta w') = tables (put_object_row row (w_meta w))
     | Inl e \<Rightarrow> tables (w_meta w') = tables (w_meta w) \<and>
         (\<forall>ref. fst ref \<noteq> o_msg ob \<longrightarrow> held (w_blobs w') ref = held (w_blobs w) ref))"
proof -
  obtain v s where v: "put_object (sv_now sv) ob (w_meta w) = (v, s)" by fastforce
  show ?thesis
  proof (cases v)
    case (Inl e)
    let ?w = "w\<lparr>w_meta := s\<rparr>"
    obtain r w2 where d: "delete_blob sv (ref_of ob) ?w = (r, w2)" by fastforce
    have "res = Inl (wrap e)" "w' = w2"
      using assms(2) v Inl d delete_blob_law [OF assms(1) d]
      by (auto simp: svc_record_def ecatch_def ebind_def on_meta_def)
    then show ?thesis using delete_blob_law [OF assms(1) d] put_object_Inl [OF v [unfolded Inl]] by (simp add: ref_of_def)
  next
    case (Inr u)
    then show ?thesis using assms(2,3) v put_object_Inr [of "sv_now sv" ob "w_meta w" u s]
      by (auto simp: svc_record_def ecatch_def on_meta_def)
  qed
qed

lemma put_record_inv:
  assumes "service_laws sv held" "svc_inv sv held w" "svc_record wrap sv ob w = (res, w')" "o_created ob = zero_time"
    and "stored sv (held (w_blobs w)) (bucket_cipher sv (w_keys w)) ob p"
    and "\<forall>x\<in>set (objects (w_meta w)). o_msg x \<noteq> o_msg ob"
  shows "svc_inv sv held w'"
proof -
  note cases = put_record_cases [OF assms(1,3,4)]
  have inv: "store_inv (w_meta w)" using assms(2) by (simp add: svc_inv_def)
  show ?thesis
  proof (cases res)
    case (Inl e)
    have t: "tables (w_meta w') = tables (w_meta w)" "w_keys w' = w_keys w" using cases Inl by auto
    have "stored sv (held (w_blobs w')) kf x q"
      if "stored sv (held (w_blobs w)) kf x q" "x \<in> set (objects (w_meta w))" for kf x q
    proof (rule stored_keep [OF that(1)])
      show "held (w_blobs w') (ref_of x) = held (w_blobs w) (ref_of x)"
        using cases that(2) assms(6) unfolding Inl by (simp add: ref_of_def)
    qed
    then show ?thesis using assms(2) t cases tables_find(5) [OF t(1)]
      unfolding svc_inv_def rows_ok_def tables_eq by (metis (no_types, lifting))
  next
    case (Inr row)
    have row: "row = ob\<lparr>o_created := sv_now sv\<rparr>" "ref_of row = ref_of ob" "o_bucket row = o_bucket ob"
      using cases Inr by (simp_all add: ref_of_def)
    have t: "tables (w_meta w') = tables (put_object_row row (w_meta w))" using cases Inr by simp
    have si: "store_inv (w_meta w')" using tables_find(5) [OF t] obj.inv_put [OF inv] by simp
    have rows: "set (objects (w_meta w')) = insert row {x \<in> set (objects (w_meta w)). obj_id x \<noteq> obj_id row}"
      using obj.rows_put [OF inv, of row] t by (simp add: tables_eq)
    have bs: "buckets (w_meta w') = buckets (w_meta w)" using t by (simp add: tables_eq row_defs)
    have "stored sv (held (w_blobs w')) (bucket_cipher sv (w_keys w')) row p"
      using assms(5) cases Inr row(1) by simp
    moreover have "inj_on o_msg (set (objects (w_meta w')))"
      using assms(2,6) row(1) unfolding rows by (auto simp: svc_inv_def rows_ok_def inj_on_def)
    ultimately show ?thesis using assms(2) cases Inr si bs row
      unfolding svc_inv_def rows_ok_def rows by auto
  qed
qed

end
