(* ===== verification/ServiceRuns.thy ===== *)
theory ServiceRuns
  imports ServiceProperties
begin

text \<open>
  Runs of the business layer: requests executed one after the other, the invariant along a run
  and the contents of an object along a run.
\<close>

section \<open>Deleting and buckets\<close>

lemma delete_object_cases:
  assumes "service_laws sv held" "svc_delete_object sv b key w = (res, w')"
  shows "w_keys w' = w_keys w \<and> w_ciphers w' = w_ciphers w \<and>
    (tables (w_meta w') = tables (w_meta w) \<and> held (w_blobs w') = held (w_blobs w) \<or>
     (\<exists>ob. find_object (ObjId b key) (w_meta w) = Some ob \<and>
       tables (w_meta w') = tables (del_object_row (ObjId b key) (w_meta w)) \<and>
       (\<forall>ref. fst ref \<noteq> o_msg ob \<longrightarrow> held (w_blobs w') ref = held (w_blobs w) ref)))"
proof -
  obtain v s where v: "delete_object b key (w_meta w) = (v, s)" by fastforce
  show ?thesis
  proof (cases v)
    case (Inl e)
    have "w' = w\<lparr>w_meta := s\<rparr>"
      using assms(2) v Inl by (auto simp: svc_delete_object_def ecatch_def on_meta_def split: if_splits)
    then show ?thesis using delete_object_Inl [OF v [unfolded Inl]] by simp
  next
    case (Inr ob)
    define w1 where "w1 = (case sv_cache sv of None \<Rightarrow> w\<lparr>w_meta := s\<rparr>
      | Some ca \<Rightarrow> w\<lparr>w_meta := s, w_blobs := ca_evict ca (o_msg ob) (w_blobs w)\<rparr>)"
    have w1: "w_meta w1 = s" "w_keys w1 = w_keys w" "w_ciphers w1 = w_ciphers w" "held (w_blobs w1) = held (w_blobs w)"
      using cache_laws(3) [OF assms(1)] by (simp_all add: w1_def split: option.split)
    have "delete_blob sv (ref_of ob) w1 = (res, w')"
      using assms(2) v Inr by (auto simp: w1_def svc_delete_object_def ecatch_def ebind_def on_meta_def on_blobs_def split: option.splits)
    from delete_blob_law [OF assms(1) this] show ?thesis
      using w1 delete_object_Inr [OF v [unfolded Inr]] by (auto simp: ref_of_def)
  qed
qed

text \<open>What an operation keeps: the invariant, and the contents of every row that is still there.\<close>

definition kept :: "'b service \<Rightarrow> ('b \<Rightarrow> blobref \<Rightarrow> bytes option) \<Rightarrow> 'b world \<Rightarrow> 'b world \<Rightarrow> bool" where
  "kept sv held w w' \<longleftrightarrow> svc_inv sv held w' \<and>
     (\<forall>x p. x \<in> set (objects (w_meta w)) \<longrightarrow> x \<in> set (objects (w_meta w')) \<longrightarrow>
        stored sv (held (w_blobs w)) (bucket_cipher sv (w_keys w)) x p \<longrightarrow>
        stored sv (held (w_blobs w')) (bucket_cipher sv (w_keys w')) x p)"

text \<open>Of all operations but \<^verbatim>\<open>CompleteMultipart\<close>, also that every object's bucket exists.\<close>

definition keeps :: "'b service \<Rightarrow> ('b \<Rightarrow> blobref \<Rightarrow> bytes option) \<Rightarrow> 'b world \<Rightarrow> 'b world \<Rightarrow> bool" where
  "keeps sv held w w' \<longleftrightarrow> kept sv held w w' \<and> (homed w \<longrightarrow> homed w')"

lemma keptI:
  assumes "svc_inv sv held w'"
    and "\<And>x p. x \<in> set (objects (w_meta w)) \<Longrightarrow> x \<in> set (objects (w_meta w')) \<Longrightarrow>
        stored sv (held (w_blobs w)) (bucket_cipher sv (w_keys w)) x p \<Longrightarrow>
        stored sv (held (w_blobs w')) (bucket_cipher sv (w_keys w')) x p"
  shows "kept sv held w w'"
  using assms by (simp add: kept_def)

lemma quiet_homed: "quiet sv held w w' \<Longrightarrow> homed w' = homed w"
  by (simp add: homed_def quiet_def tables_eq)

lemma quiet_keeps:
  assumes "svc_inv sv held w" "quiet sv held w w'"
  shows "keeps sv held w w'"
proof -
  have k: "w_keys w' = w_keys w" using assms(2) by (simp add: quiet_def)
  have "stored sv (held (w_blobs w')) (bucket_cipher sv (w_keys w')) x p"
    if st: "stored sv (held (w_blobs w)) (bucket_cipher sv (w_keys w)) x p" for x p
    unfolding k using quiet_held [OF assms(2)] by (blast intro: stored_mono [OF st])
  then have "kept sv held w w'" by (intro keptI quiet_inv [OF assms]) blast
  then show ?thesis using quiet_homed [OF assms(2)] by (simp add: keeps_def)
qed

text \<open>Rows that go, keys that change only for buckets without rows.\<close>

lemma keeps_subset:
  assumes "svc_inv sv held w" "store_inv (w_meta w')" "ks_inv (w_keys w')" "ciphers_ok sv w'"
    and "set (objects (w_meta w')) \<subseteq> set (objects (w_meta w))"
    and "\<And>x. x \<in> set (objects (w_meta w')) \<Longrightarrow> held (w_blobs w') (ref_of x) = held (w_blobs w) (ref_of x)"
    and "\<And>x. x \<in> set (objects (w_meta w')) \<Longrightarrow> find_key (o_bucket x) (w_keys w') = find_key (o_bucket x) (w_keys w)"
    and "\<And>x. homed w \<Longrightarrow> x \<in> set (objects (w_meta w')) \<Longrightarrow> o_bucket x \<in> b_name ` set (buckets (w_meta w'))"
  shows "keeps sv held w w'"
proof -
  have st: "stored sv (held (w_blobs w')) (bucket_cipher sv (w_keys w')) x p"
    if "stored sv (held (w_blobs w)) (bucket_cipher sv (w_keys w)) x p" "x \<in> set (objects (w_meta w'))" for x p
    using that(1) assms(6) [OF that(2)] bucket_cipher_find [OF assms(7) [OF that(2)], of sv]
    by (simp add: stored_def)
  have ok: "rows_ok sv (held (w_blobs w)) (bucket_cipher sv (w_keys w)) (objects (w_meta w))"
    using assms(1) by (simp add: svc_inv_def)
  have "rows_ok sv (held (w_blobs w')) (bucket_cipher sv (w_keys w')) (objects (w_meta w'))"
    unfolding rows_ok_def
  proof (intro conjI ballI)
    show "inj_on o_msg (set (objects (w_meta w')))" using ok assms(5) unfolding rows_ok_def by (blast intro: inj_on_subset)
    fix x assume x: "x \<in> set (objects (w_meta w'))"
    then show "\<exists>p. stored sv (held (w_blobs w')) (bucket_cipher sv (w_keys w')) x p"
      using ok assms(5) st unfolding rows_ok_def by blast
  qed
  then have "svc_inv sv held w'" using assms(2-4) by (simp add: svc_inv_def ciphers_ok_def)
  then have "kept sv held w w'" using st by (auto intro: keptI)
  then show ?thesis using assms(8) by (simp add: keeps_def homed_def)
qed

lemma row_bucket:
  "homed w \<Longrightarrow> x \<in> set (objects (w_meta w)) \<Longrightarrow> o_bucket x \<in> b_name ` set (buckets (w_meta w))"
  by (simp add: homed_def)

lemma row_key:
  assumes "svc_inv sv held w" "x \<in> set (objects (w_meta w))"
  shows "find_key (o_bucket x) (w_keys w) \<noteq> None"
  using assms by (auto simp: svc_inv_def rows_ok_def stored_def bucket_cipher_def keys_get_def split: option.splits)

lemma row_refs:
  "svc_inv sv held w \<Longrightarrow> x \<in> set (objects (w_meta w)) \<Longrightarrow> y \<in> set (objects (w_meta w)) \<Longrightarrow> x \<noteq> y \<Longrightarrow> o_msg x \<noteq> o_msg y"
  unfolding svc_inv_def rows_ok_def inj_on_def by blast

lemma delete_object_keeps:
  assumes "service_laws sv held" "svc_inv sv held w" "svc_delete_object sv b key w = (res, w')"
  shows "keeps sv held w w'"
proof -
  note cases = delete_object_cases [OF assms(1,3)]
  have si: "store_inv (w_meta w)" "ks_inv (w_keys w)" using assms(2) by (simp_all add: svc_inv_def)
  show ?thesis
  proof (cases "tables (w_meta w') = tables (w_meta w) \<and> held (w_blobs w') = held (w_blobs w)")
    case True
    then have "quiet sv held w w'" using cases svc_inv_ciphers [OF assms(2)] by (simp add: quiet_def ciphers_ok_def)
    then show ?thesis by (rule quiet_keeps [OF assms(2)])
  next
    case False
    then obtain ob where ob: "find_object (ObjId b key) (w_meta w) = Some ob"
      "tables (w_meta w') = tables (del_object_row (ObjId b key) (w_meta w))"
      "\<forall>ref. fst ref \<noteq> o_msg ob \<longrightarrow> held (w_blobs w') ref = held (w_blobs w) ref" using cases by blast
    have rows: "set (objects (w_meta w')) = {x \<in> set (objects (w_meta w)). obj_id x \<noteq> ObjId b key}"
      using obj.rows_del [OF si(1)] ob(2) by (simp add: tables_eq)
    have mem: "ob \<in> set (objects (w_meta w))" "obj_id ob = ObjId b key" using obj.lookup_rows [OF si(1)] ob(1) by auto
    have bs: "buckets (w_meta w') = buckets (w_meta w)" using ob(2) by (simp add: tables_eq row_defs)
    have ks: "w_keys w' = w_keys w" "w_ciphers w' = w_ciphers w" using cases by blast+
    show ?thesis
    proof (rule keeps_subset [OF assms(2)])
      show "store_inv (w_meta w')" using tables_find(5) [OF ob(2)] obj.inv_del [OF si(1)] by simp
      show "ks_inv (w_keys w')" "ciphers_ok sv w'" using ks si(2) svc_inv_ciphers [OF assms(2)] by (simp_all add: ciphers_ok_def)
    next
      fix x assume x: "x \<in> set (objects (w_meta w'))"
      then have "x \<in> set (objects (w_meta w))" "x \<noteq> ob" using rows mem by auto
      then show "held (w_blobs w') (ref_of x) = held (w_blobs w) (ref_of x)"
        using ob(3) row_refs [OF assms(2) _ mem(1)] by (simp add: ref_of_def)
    qed (use rows ks bs row_bucket in auto)
  qed
qed

text \<open>The keys after a creation or a removal: only the bucket itself is affected.\<close>

lemma remove_key_cases:
  assumes "attempt (on_keys (keys_remove b)) w = (r, w')" "ks_inv (w_keys w)"
  shows "w_meta w' = w_meta w \<and> w_blobs w' = w_blobs w \<and> w_ciphers w' = w_ciphers w \<and> ks_inv (w_keys w') \<and> r = Inr () \<and>
    (\<forall>x. x \<noteq> b \<longrightarrow> find_key x (w_keys w') = find_key x (w_keys w)) \<and>
    (find_key b (w_keys w') = None \<or> find_key b (w_keys w') = find_key b (w_keys w))"
proof -
  obtain v ks where v: "keys_remove b (w_keys w) = (v, ks)" by fastforce
  have "find_key x ks = (case v of Inl e \<Rightarrow> find_key x (w_keys w) | Inr _ \<Rightarrow> if x = b then None else find_key x (w_keys w))" for x
    using keys_remove_find [OF v assms(2), of x] by simp
  moreover have "ks_inv ks" using keys_remove_find [OF v assms(2), of b] by simp
  ultimately show ?thesis using assms(1) v by (cases v) (auto simp: attempt_def on_keys_def)
qed

lemma create_key_cases:
  assumes "create_key b w = (r, w')" "ks_inv (w_keys w)"
  shows "w_meta w' = w_meta w \<and> w_blobs w' = w_blobs w \<and> w_ciphers w' = w_ciphers w \<and> ks_inv (w_keys w') \<and>
    (\<forall>x. x \<noteq> b \<longrightarrow> find_key x (w_keys w') = find_key x (w_keys w)) \<and>
    (case r of Inl e \<Rightarrow> find_key b (w_keys w') = find_key b (w_keys w)
     | Inr k \<Rightarrow> find_key b (w_keys w) = None \<and> find_key b (w_keys w') = Some (b, k) \<and> length k = key_len)"
proof (cases "find_key b (w_keys w) = None")
  case False
  then show ?thesis using assms by (auto simp: create_key_def)
next
  case True
  obtain v ks where v: "keys_create (w_rand w (w_draws w)) b (w_keys w) = (v, ks)" by fastforce
  have f: "find_key x ks = (case v of Inl e \<Rightarrow> find_key x (w_keys w) | Inr k \<Rightarrow> if x = b then Some (b, k) else find_key x (w_keys w))"
    "\<forall>k. v = Inr k \<longrightarrow> length k = key_len" "ks_inv ks" for x
    using keys_create_find [OF v assms(2), of x] by simp_all
  show ?thesis using assms(1) v f True by (cases v) (auto simp: create_key_def)
qed

lemma delete_bucket_keeps:
  assumes "svc_inv sv held w" "svc_delete_bucket b w = (res, w')"
  shows "keeps sv held w w'"
proof -
  have si: "store_inv (w_meta w)" "ks_inv (w_keys w)" using assms(1) by (simp_all add: svc_inv_def)
  obtain v s where v: "delete_bucket b (w_meta w) = (v, s)" by fastforce
  let ?w = "w\<lparr>w_meta := s\<rparr>"
  show ?thesis
  proof (cases v)
    case (Inl e)
    have "w' = ?w" using assms(2) v Inl by (auto simp: svc_delete_bucket_def ecatch_def on_meta_def split: if_splits)
    then have "quiet sv held w w'"
      using delete_bucket_Inl [OF v [unfolded Inl]] svc_inv_ciphers [OF assms(1)] by (simp add: quiet_def ciphers_ok_def)
    then show ?thesis by (rule quiet_keeps [OF assms(1)])
  next
    case (Inr u)
    have t: "bucket_count b (w_meta w) = 0" "tables s = tables (del_bucket_row b (w_meta w))"
      using delete_bucket_Inr [OF v [unfolded Inr]] by auto
    obtain r w2 where r: "attempt (on_keys (keys_remove b)) ?w = (r, w2)" by fastforce
    have "ks_inv (w_keys ?w)" using si(2) by simp
    note rk = remove_key_cases [OF r this]
    have w': "w' = w2\<lparr>w_ciphers := (w_ciphers w2)(b := None)\<rparr>"
      using assms(2) v Inr r rk by (auto simp: svc_delete_bucket_def ecatch_def ebind_def on_meta_def forget_cipher_def)
    have none: "o_bucket x \<noteq> b" if "x \<in> set (objects (w_meta w))" for x
      using t(1) that by (auto simp: bucket_count_def filter_empty_conv)
    have obs: "objects s = objects (w_meta w)" using t(2) by (simp add: tables_eq row_defs)
    have bs: "set (buckets s) = {x \<in> set (buckets (w_meta w)). b_name x \<noteq> b}"
      using bkt.rows_del [OF si(1)] t(2) by (simp add: tables_eq)
    show ?thesis
    proof (rule keeps_subset [OF assms(1)])
      show "store_inv (w_meta w')" using tables_find(5) [OF t(2)] bkt.inv_del [OF si(1)] w' rk by simp
      show "ks_inv (w_keys w')" using w' rk by simp
      show "ciphers_ok sv w'" unfolding ciphers_ok_def
      proof (intro allI impI)
        fix x c assume x: "w_ciphers w' x = Some c"
        then have "x \<noteq> b" "w_ciphers w x = Some c" using w' rk by (auto split: if_splits)
        then show "bucket_cipher sv (w_keys w') x = Some c"
          using assms(1) w' rk bucket_cipher_find [of x "w_keys w2" "w_keys w" sv] by (simp add: svc_inv_def)
      qed
      fix x assume "x \<in> set (objects (w_meta w'))"
      then have x: "x \<in> set (objects (w_meta w))" using w' rk obs by simp
      show "o_bucket x \<in> b_name ` set (buckets (w_meta w'))" if "homed w"
        using row_bucket [OF that x] none [OF x] w' rk bs by auto
      show "find_key (o_bucket x) (w_keys w') = find_key (o_bucket x) (w_keys w)" using none [OF x] w' rk by simp
    qed (use w' rk obs in auto)
  qed
qed

lemma create_bucket_keeps:
  assumes "svc_inv sv held w" "svc_create_bucket sv b w = (res, w')"
  shows "keeps sv held w w'"
proof -
  have si: "store_inv (w_meta w)" "ks_inv (w_keys w)" using assms(1) by (simp_all add: svc_inv_def)
  obtain k w1 where k: "create_key b w = (k, w1)" by fastforce
  note ck = create_key_cases [OF k si(2)]
  show ?thesis
  proof (cases "\<not> valid_bucket_name b \<or> (\<exists>e. k = Inl e)")
    case True
    then have "w' = w \<or> w' = w1 \<and> (\<forall>x. find_key x (w_keys w1) = find_key x (w_keys w))"
      using assms(2) k ck by (auto simp: svc_create_bucket_def ecatch_def split: if_splits)
    then have same: "find_key x (w_keys w') = find_key x (w_keys w)" "w_meta w' = w_meta w"
      "w_blobs w' = w_blobs w" "w_ciphers w' = w_ciphers w" "ks_inv (w_keys w')" for x
      using ck si(2) by auto
    have "ciphers_ok sv w'" using svc_inv_ciphers [OF assms(1)] bucket_cipher_find [OF same(1), of sv] same(4)
      by (simp add: ciphers_ok_def)
    then show ?thesis
      by (intro keeps_subset [OF assms(1)]) (use si same row_bucket in auto)
  next
    case False
    then obtain key where key: "k = Inr key" "valid_bucket_name b" by (cases k) auto
    have fresh: "find_key b (w_keys w) = None" using ck key by simp
    have none: "o_bucket x \<noteq> b" if "x \<in> set (objects (w_meta w))" for x
      using row_key [OF assms(1) that] fresh by auto
    have "bucket_cipher sv (w_keys w) b = None" using fresh by (simp add: bucket_cipher_def keys_get_def)
    then have noc: "w_ciphers w b = None" using assms(1) by (cases "w_ciphers w b") (auto simp: svc_inv_def)
    obtain v s where v: "create_bucket (sv_now sv) b b (w_meta w1) = (v, s)" by fastforce
    let ?w = "w1\<lparr>w_meta := s\<rparr>"
    have m: "w_meta w1 = w_meta w" using ck by blast
    have s: "objects s = objects (w_meta w) \<and> store_inv s \<and> b_name ` set (buckets (w_meta w)) \<subseteq> b_name ` set (buckets s)"
    proof (cases v)
      case (Inl e)
      have t: "tables s = tables (w_meta w)" using create_bucket_Inl [OF v [unfolded Inl]] m by simp
      then show ?thesis using si(1) tables_find(5) [OF t] by (simp add: tables_eq)
    next
      case (Inr u)
      have t: "tables s = tables (put_bucket_row \<lparr>b_name = b, b_created = sv_now sv, b_enckey = b\<rparr> (w_meta w))"
        using create_bucket_Inr [OF v [unfolded Inr]] m by simp
      have "set (buckets s) = insert \<lparr>b_name = b, b_created = sv_now sv, b_enckey = b\<rparr> {x \<in> set (buckets (w_meta w)). b_name x \<noteq> b}"
        using bkt.rows_put [OF si(1)] t by (simp add: tables_eq)
      then have "b_name ` set (buckets (w_meta w)) \<subseteq> b_name ` set (buckets s)" by auto
      then show ?thesis using tables_find(5) [OF t] bkt.inv_put [OF si(1)] t by (simp add: tables_eq row_defs)
    qed
    have w': "w' = ?w \<or> (\<exists>r. attempt (on_keys (keys_remove b)) ?w = (r, w'))"
      using assms(2) k key v
      by (cases "attempt (on_keys (keys_remove b)) ?w")
        (auto simp: svc_create_bucket_def ecatch_def ebind_def on_meta_def split: sum.splits if_splits)
    have "ks_inv (w_keys ?w)" using ck by simp
    then have same: "w_meta w' = s" "w_blobs w' = w_blobs w" "w_ciphers w' = w_ciphers w" "ks_inv (w_keys w')"
      "\<forall>x. x \<noteq> b \<longrightarrow> find_key x (w_keys w') = find_key x (w_keys w)"
      using w' remove_key_cases [of b ?w _ w'] ck by auto
    have ciphers: "ciphers_ok sv w'" unfolding ciphers_ok_def
    proof (intro allI impI)
      fix x c assume x: "w_ciphers w' x = Some c"
      then have "x \<noteq> b" "w_ciphers w x = Some c" using noc same(3) by auto
      then show "bucket_cipher sv (w_keys w') x = Some c"
        using assms(1) same(5) bucket_cipher_find [of x "w_keys w'" "w_keys w" sv] by (simp add: svc_inv_def)
    qed
    show ?thesis
    proof (rule keeps_subset [OF assms(1)])
      show "store_inv (w_meta w')" "ks_inv (w_keys w')" "ciphers_ok sv w'"
        using s same(1,4) ciphers by simp_all
      show "set (objects (w_meta w')) \<subseteq> set (objects (w_meta w))" using s same(1) by simp
      fix x assume "x \<in> set (objects (w_meta w'))"
      then have x: "x \<in> set (objects (w_meta w))" using s same(1) by simp
      show "held (w_blobs w') (ref_of x) = held (w_blobs w) (ref_of x)" by (simp add: same(2))
      show "find_key (o_bucket x) (w_keys w') = find_key (o_bucket x) (w_keys w)" using same(5) none [OF x] by blast
      show "o_bucket x \<in> b_name ` set (buckets (w_meta w'))" if "homed w"
        using s same(1) row_bucket [OF that x] by blast
    qed
  qed
qed

section \<open>Uploading\<close>

lemma put_upload_Inr:
  assumes "service_laws sv held" "svc_inv sv held w" "0 \<le> sz" "sz \<le> 2 ^ 58"
    and "svc_put_upload sv b key ct sz r w = (Inr ob, w')"
  shows "svc_inv sv held w'" "stored sv (held (w_blobs w')) (bucket_cipher sv (w_keys w')) ob (take (nat sz) (fst r))"
    "\<forall>x\<in>set (objects (w_meta w')). o_msg x \<noteq> o_msg ob" "find_bucket (o_bucket ob) (w_meta w') \<noteq> None"
    "o_created ob = zero_time" "obj_id ob = ObjId b key" "nat sz \<le> length (fst r)"
    "o_etag ob = hex_encode (sv_md5 sv (take (nat sz) (fst r)))" "o_ctype ob = ct" "quiet sv held w w'"
proof -
  note spec = put_upload_spec [OF assms(1) svc_inv_ciphers [OF assms(2)] assms(3-5)]
  then have q: "quiet sv held w w'" by blast
  then have t: "tables (w_meta w') = tables (w_meta w)" "w_keys w' = w_keys w" by (simp_all add: quiet_def)
  show "quiet sv held w w'" "svc_inv sv held w'" using q quiet_inv [OF assms(2)] by blast+
  show "stored sv (held (w_blobs w')) (bucket_cipher sv (w_keys w')) ob (take (nat sz) (fst r))"
    "o_created ob = zero_time" "obj_id ob = ObjId b key" "nat sz \<le> length (fst r)"
    "o_etag ob = hex_encode (sv_md5 sv (take (nat sz) (fst r)))" "o_ctype ob = ct"
    using spec t by (simp_all add: obj_id_def)
  show "find_bucket (o_bucket ob) (w_meta w') \<noteq> None" using spec tables_find(1) [OF t(1)] by simp
  show "\<forall>x\<in>set (objects (w_meta w')). o_msg x \<noteq> o_msg ob"
  proof
    fix x assume "x \<in> set (objects (w_meta w'))"
    then have "x \<in> set (objects (w_meta w))" using t(1) by (simp add: tables_eq)
    then have "held (w_blobs w) (ref_of x) \<noteq> None" using assms(2) by (auto simp: svc_inv_def rows_ok_def stored_def)
    moreover have "no_message (held (w_blobs w)) (o_msg ob)" using spec by blast
    ultimately show "o_msg x \<noteq> o_msg ob" using no_messageD(1) by (fastforce simp: ref_of_def)
  qed
qed

lemma put_record_kept:
  assumes "service_laws sv held" "svc_inv sv held w" "svc_record wrap sv ob w = (res, w')" "o_created ob = zero_time"
    and "stored sv (held (w_blobs w)) (bucket_cipher sv (w_keys w)) ob p"
    and "\<forall>x\<in>set (objects (w_meta w)). o_msg x \<noteq> o_msg ob"
  shows "kept sv held w w'"
proof (rule keptI [OF put_record_inv [OF assms]])
  fix x q
  assume x: "x \<in> set (objects (w_meta w))" and st: "stored sv (held (w_blobs w)) (bucket_cipher sv (w_keys w)) x q"
  note cases = put_record_cases [OF assms(1,3,4)]
  have k: "w_keys w' = w_keys w" using cases by blast
  have "held (w_blobs w') (ref_of x) = held (w_blobs w) (ref_of x)"
  proof (cases res)
    case (Inl e)
    have "fst (ref_of x) \<noteq> o_msg ob" using x assms(6) by (simp add: ref_of_def)
    moreover have "\<forall>ref. fst ref \<noteq> o_msg ob \<longrightarrow> held (w_blobs w') ref = held (w_blobs w) ref" using cases unfolding Inl by simp
    ultimately show ?thesis by blast
  next
    case (Inr row)
    then show ?thesis using cases by simp
  qed
  then show "stored sv (held (w_blobs w')) (bucket_cipher sv (w_keys w')) x q" unfolding k by (rule stored_keep [OF st])
qed

lemma put_record_keeps:
  assumes "service_laws sv held" "svc_inv sv held w" "svc_record wrap sv ob w = (res, w')" "o_created ob = zero_time"
    and "stored sv (held (w_blobs w)) (bucket_cipher sv (w_keys w)) ob p"
    and "\<forall>x\<in>set (objects (w_meta w)). o_msg x \<noteq> o_msg ob" "find_bucket (o_bucket ob) (w_meta w) \<noteq> None"
  shows "keeps sv held w w'"
proof -
  note cases = put_record_cases [OF assms(1,3,4)]
  have si: "store_inv (w_meta w)" using assms(2) by (simp add: svc_inv_def)
  have "o_bucket ob \<in> b_name ` set (buckets (w_meta w))" using assms(7) by (auto simp: find_bucket_def dest: t_find_Some_key)
  then have "homed w'" if "homed w"
    using that cases obj.rows_put [OF si, of "ob\<lparr>o_created := sv_now sv\<rparr>"]
    by (cases res) (auto simp: homed_def tables_eq put_object_row_def)
  then show ?thesis using put_record_kept [OF assms(1-6)] by (simp add: keeps_def)
qed

lemma keeps_trans:
  assumes "keeps sv held w w1" "keeps sv held w1 w2"
    and "set (objects (w_meta w)) \<inter> set (objects (w_meta w2)) \<subseteq> set (objects (w_meta w1))"
  shows "keeps sv held w w2"
  using assms unfolding keeps_def kept_def by blast

lemma put_object_cases:
  assumes "service_laws sv held" "svc_inv sv held w" "0 \<le> sz" "sz \<le> 2 ^ 58"
    and "svc_put_object sv b key ct sz r w = (res, w')"
  shows "keeps sv held w w' \<and>
    (case res of
       Inl e \<Rightarrow> tables (w_meta w') = tables (w_meta w)
     | Inr row \<Rightarrow> obj_id row = ObjId b key \<and> tables (w_meta w') = tables (put_object_row row (w_meta w)) \<and>
         nat sz \<le> length (fst r) \<and> o_etag row = hex_encode (sv_md5 sv (take (nat sz) (fst r))) \<and> o_ctype row = ct \<and>
         stored sv (held (w_blobs w')) (bucket_cipher sv (w_keys w')) row (take (nat sz) (fst r)))"
proof -
  obtain v w1 where v: "svc_put_upload sv b key ct sz r w = (v, w1)" by fastforce
  have q: "quiet sv held w w1"
    using put_upload_spec [OF assms(1) svc_inv_ciphers [OF assms(2)] assms(3,4) v] by blast
  then have t: "tables (w_meta w1) = tables (w_meta w)" by (simp add: quiet_def)
  note k1 = quiet_keeps [OF assms(2) q]
  show ?thesis
  proof (cases v)
    case (Inl e)
    then have "res = Inl e" "w' = w1" using assms(5) v by (simp_all add: svc_put_object_def ebind_def)
    then show ?thesis using k1 t by simp
  next
    case (Inr ob)
    then have rec: "svc_record (\<lambda>e. Wrap ''metadata'' [e]) sv ob w1 = (res, w')"
      using assms(5) v by (simp add: svc_put_object_def svc_put_record_def ebind_def)
    note up = put_upload_Inr [OF assms(1-4) v [unfolded Inr]]
    note k2 = put_record_keeps [OF assms(1) up(1) rec up(5,2,3,4)]
    note cases = put_record_cases [OF assms(1) rec up(5)]
    have "keeps sv held w w'"
      by (rule keeps_trans [OF k1 k2]) (use t in \<open>simp add: tables_eq\<close>)
    moreover have "case res of Inl e \<Rightarrow> tables (w_meta w') = tables (w_meta w)
     | Inr row \<Rightarrow> obj_id row = ObjId b key \<and> tables (w_meta w') = tables (put_object_row row (w_meta w)) \<and>
         nat sz \<le> length (fst r) \<and> o_etag row = hex_encode (sv_md5 sv (take (nat sz) (fst r))) \<and> o_ctype row = ct \<and>
         stored sv (held (w_blobs w')) (bucket_cipher sv (w_keys w')) row (take (nat sz) (fst r))"
    proof (cases res)
      case (Inl e)
      then show ?thesis using cases t by simp
    next
      case (Inr row)
      have row: "row = ob\<lparr>o_created := sv_now sv\<rparr>" "w_blobs w' = w_blobs w1" "w_keys w' = w_keys w1"
        "tables (w_meta w') = tables (put_object_row row (w_meta w1))" using cases Inr by simp_all
      have "obj_id row = ObjId b key" using row(1) up(6) by (simp add: obj_id_def)
      moreover have "tables (put_object_row row (w_meta w1)) = tables (put_object_row row (w_meta w))"
        using t by (simp add: tables_eq row_defs)
      moreover have "stored sv (held (w_blobs w')) (bucket_cipher sv (w_keys w')) row (take (nat sz) (fst r))"
        using up(2) by (simp only: row stored_created)
      ultimately show ?thesis using Inr row up(7-9) by simp
    qed
    ultimately show ?thesis by blast
  qed
qed

section \<open>Reading\<close>

lemma new_decrypter_src:
  "new_decrypter c src = Inr d \<Longrightarrow> snd (d_src d) = snd src"
  by (auto simp: new_decrypter_def read_full_def Let_def split: prod.splits if_splits)

lemma get_object_spec:
  assumes "service_laws sv held" "svc_inv sv held w" "find_object (ObjId b key) (w_meta w) = Some ob"
    and "stored sv (held (w_blobs w)) (bucket_cipher sv (w_keys w)) ob p"
    and "svc_get_object sv b key w = (Inr (ob', d), w')"
  shows "ob' = ob \<and> dec_ok d \<and> (snd (d_src d) = Eof \<longrightarrow> dec_pend d = (p, Eof))"
proof -
  obtain x w1 c w2 ct w3 where x: "svc_head_object b key w = (Inr x, w1)" and c: "cipher_for sv b w1 = (Inr c, w2)"
    and ctx: "open_ciphertext sv x w2 = (Inr ct, w3)"
    and fin: "(case new_decrypter c ct of Inl e \<Rightarrow> efail e | Inr d \<Rightarrow> eret (x, d)) w3 = (Inr (ob', d), w')"
    using assms(5) unfolding svc_get_object_def ebind_Inr ecatch_Inr by auto
  have w1: "svc_head_object b key w = (Inr ob', w1)" and ct': "open_ciphertext sv ob' w2 = (Inr ct, w3)"
    and d: "new_decrypter c ct = Inr d"
    using fin x ctx by (auto split: sum.splits)
  have q1: "quiet sv held w w1" using quiet_stepD [OF quiet_head svc_inv_ciphers [OF assms(2)] w1] .
  have ob: "ob' = ob"
    using w1 assms(3) by (auto simp: svc_head_object_def rename_err_def ecatch_Inr on_meta_def split: prod.splits if_splits dest: get_object_Inr)
  have ct: "open_ciphertext sv ob w2 = (Inr ct, w3)" using ct' ob by simp
  have q2: "quiet sv held w1 w2" by (rule quiet_stepD [OF quiet_cipher_for quiet_ciphers [OF q1] c])
  have "bucket_cipher sv (w_keys w1) b = Some c"
    using cipher_for_cases [OF c] quiet_ciphers [OF q1] by (simp add: ciphers_ok_def)
  moreover have "o_bucket ob = b" using obj.lookup_rows [of "w_meta w" "ObjId b key" ob] assms(2,3) by (simp add: svc_inv_def obj_id_def)
  ultimately have st: "held (w_blobs w) (ref_of ob) = Some (encrypted c (o_nonce ob) p)" "length (o_nonce ob) = nonce_len"
    "bucket_cipher sv (w_keys w) b = Some c"
    using assms(4) q1 by (auto simp: stored_def quiet_def)
  have held: "held (w_blobs w2) (ref_of ob) = Some (encrypted c (o_nonce ob) p)"
    using quiet_held [OF quiet_trans [OF q1 q2] st(1)] .
  note fresh = dec_pend_fresh [OF d]
  have "dec_pend d = (p, Eof)" if eof: "snd (d_src d) = Eof"
  proof -
    obtain data where data: "ct = (data, Eof)" using eof new_decrypter_src [OF d] by (metis prod.collapse)
    have "data = encrypted c (o_nonce ob) p"
    proof (cases "sv_cache sv")
      case None
      obtain st' where "be_get (sv_backend sv) (ref_of ob) (w_blobs w2) = (Inr (data, Eof), st')"
        using ct None by (auto simp: open_ciphertext_def on_blobs_def data split: prod.splits)
      from be_get_law [OF assms(1) this] show ?thesis using held by blast
    next
      case (Some ca)
      obtain st' where "ca_stream ca (ref_of ob) (w_blobs w2) = (Inr (data, Eof), st')"
        using ct Some by (auto simp: open_ciphertext_def on_blobs_def data split: prod.splits)
      from cache_laws(1) [OF assms(1) Some this] show ?thesis using held by blast
    qed
    then show ?thesis
      using fresh(2) data decrypt_encrypted [OF bucket_cipher_ok [OF assms(1) st(3)] st(2), of p] by simp
  qed
  then show ?thesis using ob fresh(1) by blast
qed

lemma temp_file_blobs:
  "os_do id w = (r, w') \<Longrightarrow> w_blobs w' = w_blobs w"
  "os_do (put_file n c) w = (r, w') \<Longrightarrow> w_blobs w' = w_blobs w"
  "create_temp sv w = (r2, w') \<Longrightarrow> w_blobs w' = w_blobs w"
  by (auto simp: os_do_def create_temp_def put_file_def ebind_def Let_def split: list.splits option.splits)

lemma download_temp_Inr:
  assumes "download_temp sv ob w = (Inr (f, ct), w')"
  shows "\<exists>st'. be_get (sv_backend sv) (ref_of ob) (w_blobs w) = (Inr (ct, Eof), st')"
proof -
  obtain u w1 g w2 data w3 where w1: "os_do id w = (Inr u, w1)" and w2: "create_temp sv w1 = (Inr g, w2)"
    and w3: "on_blobs (be_get (sv_backend sv) (ref_of ob)) w2 = (Inr data, w3)"
    and fin: "\<exists>w4. (case read_all data of (d, None) \<Rightarrow> eret (g, d)
        | (d, Some e) \<Rightarrow> ebind (remove_file g) (\<lambda>_. efail e)) w4 = (Inr (f, ct), w')"
    using assms unfolding download_temp_def ebind_Inr [of "os_do id"] ebind_Inr [of "create_temp sv"] ecatch_Inr
    by (force simp: ebind_Inr [of "remove_file g" for g])
  have all: "read_all data = (ct, None)"
    using fin by (auto simp: ebind_Inr split: prod.splits option.splits)
  have "data = (ct, Eof)" using all by (cases data; cases "snd data") (auto simp: read_all_def)
  moreover obtain st' where "be_get (sv_backend sv) (ref_of ob) (w_blobs w2) = (Inr data, st')"
    using w3 by (auto simp: on_blobs_def split: prod.splits)
  moreover have "w_blobs w2 = w_blobs w" using temp_file_blobs(1) [OF w1] temp_file_blobs(3) [OF w2] by simp
  ultimately show ?thesis by auto
qed

lemma get_range_spec:
  assumes "service_laws sv held" "svc_inv sv held w" "find_object (ObjId b key) (w_meta w) = Some ob"
    and "stored sv (held (w_blobs w)) (bucket_cipher sv (w_keys w)) ob p"
    and "svc_get_object_range sv b key start stop w = (Inr (ob', bytes, err), w')"
  shows "ob' = ob \<and> 0 \<le> start \<and> start \<le> stop \<and> stop < int (length p) \<and> err = None \<and>
    bytes = take (nat (stop + 1 - start)) (drop (nat start) p)"
proof -
  have ob: "o_bucket ob = b" using obj.lookup_rows [of "w_meta w" "ObjId b key" ob] assms(2,3) by (simp add: svc_inv_def obj_id_def)
  obtain w1 where w1: "svc_head_object b key w = (Inr ob', w1)"
    using assms(5) unfolding svc_get_object_range_def
    by (auto simp: ebind_Inr [of "svc_head_object b key"] ebind_Inr [of "cipher_for sv b"] ecatch_Inr Let_def ebind_Inr split: if_splits prod.splits)
  have q1: "quiet sv held w w1" using quiet_stepD [OF quiet_head svc_inv_ciphers [OF assms(2)] w1] .
  have ob': "ob' = ob"
    using w1 assms(3) by (auto simp: svc_head_object_def rename_err_def ecatch_Inr on_meta_def split: prod.splits if_splits dest: get_object_Inr)
  obtain c w2 f ct w3 where guard: "0 \<le> start" "stop < o_size ob" "start \<le> stop"
    and c: "cipher_for sv b w1 = (Inr c, w2)" and ct: "open_ciphertext_at sv ob w2 = (Inr (f, ct), w3)"
    and res: "(bytes, err) = decrypt_range c ct (o_ctsize ob) start stop"
    using assms(5) w1 ob' unfolding svc_get_object_range_def
    by (auto simp: ebind_Inr ecatch_Inr Let_def split: if_splits prod.splits option.splits)
  have q2: "quiet sv held w1 w2" by (rule quiet_stepD [OF quiet_cipher_for quiet_ciphers [OF q1] c])
  have "bucket_cipher sv (w_keys w1) b = Some c"
    using cipher_for_cases [OF c] quiet_ciphers [OF q1] by (simp add: ciphers_ok_def)
  then have bc: "bucket_cipher sv (w_keys w) b = Some c" using q1 by (simp add: quiet_def)
  then have st: "held (w_blobs w) (ref_of ob) = Some (encrypted c (o_nonce ob) p)" "length (o_nonce ob) = nonce_len"
    "o_size ob = int (length p)" "o_ctsize ob = ciphertext_size c (int (length p))" "length p \<le> 2 ^ 58"
    using assms(4) ob by (auto simp: stored_def)
  have held: "held (w_blobs w2) (ref_of ob) = Some (encrypted c (o_nonce ob) p)"
    using quiet_held [OF quiet_trans [OF q1 q2] st(1)] .
  have "ct = encrypted c (o_nonce ob) p"
  proof (cases "sv_cache sv")
    case None
    have "download_temp sv ob w2 = (Inr (the f, ct), w3)"
      using ct None by (auto simp: open_ciphertext_at_def ebind_Inr split: prod.splits)
    then obtain st' where "be_get (sv_backend sv) (ref_of ob) (w_blobs w2) = (Inr (ct, Eof), st')"
      using download_temp_Inr by blast
    from be_get_law [OF assms(1) this] show ?thesis using held by blast
  next
    case (Some ca)
    obtain st' where "ca_at ca (ref_of ob) (w_blobs w2) = (Inr ct, st')"
      using ct Some by (auto simp: open_ciphertext_at_def ebind_Inr on_blobs_def split: prod.splits)
    from cache_laws(2) [OF assms(1) Some this] show ?thesis using held by blast
  qed
  moreover have cok: "cipher_ok c" by (rule bucket_cipher_ok [OF assms(1) bc])
  ultimately show ?thesis
    using res guard st(3,4) ob' ciphertext_size_encrypted [OF cok st(2,5)]
      decrypt_range_encrypted [OF cok st(2,5), of "nat start" "nat stop"]
    by (simp add: nat_le_iff nat_less_iff nat_add_distrib nat_diff_distrib)
qed

end
