(* ===== verification/GoNumbers.thy ===== *)
theory GoNumbers
  imports SigCanonical
begin

text \<open>
  Decimal numbers, where \<^verbatim>\<open>strconv.ParseInt\<close> inverts \<^verbatim>\<open>strconv.FormatInt\<close>, and the texts of errors.
\<close>

lemma digits_val_snoc: "digits_val (s @ [c]) = digits_val s * 10 + (of_char c - 48)"
  by (simp add: digits_val_def)

lemma digits_val_single: "n < 10 \<Longrightarrow> digits_val [char_of (48 + n)] = int n"
proof -
  assume "n < 10"
  then have "(of_char (char_of (48 + n) :: char) :: nat) = 48 + n" by simp
  then have "(of_char (char_of (48 + n) :: char) :: int) = int (48 + n)" by (metis of_nat_of_char)
  then show ?thesis by (simp add: digits_val_def)
qed

lemma digits_val_nat: "digits_val (nat_digits n) = int n"
proof (induction n rule: nat_digits.induct)
  case (1 n)
  show ?case
  proof (cases "n < 10")
    case True
    then show ?thesis by (subst nat_digits.simps) (simp add: digits_val_single)
  next
    case False
    have "digits_val (nat_digits n) = digits_val (nat_digits (n div 10)) * 10 + digits_val [char_of (48 + n mod 10)]"
      using False by (subst nat_digits.simps) (simp add: digits_val_snoc digits_val_def)
    moreover have "int (n div 10) * 10 + int (n mod 10) = int n" by presburger
    ultimately show ?thesis using 1 False digits_val_single [of "n mod 10"] by simp
  qed
qed

lemma is_digit_char: "n < (10 :: nat) \<Longrightarrow> is_digit (char_of (48 + n))"
  by (simp add: is_digit_def)

lemma nat_digits_ok: "nat_digits n \<noteq> [] \<and> list_all is_digit (nat_digits n)"
proof (induction n rule: nat_digits.induct)
  case (1 n)
  then show ?case by (subst (1 2) nat_digits.simps) (auto simp: is_digit_char)
qed

lemma digit_not_sign: "is_digit c \<Longrightarrow> c \<noteq> CHR ''-'' \<and> c \<noteq> CHR ''+''"
  by (auto simp: is_digit_def)

lemma parse_format_int:
  assumes "- (2 ^ 63) \<le> v" "v < 2 ^ 63"
  shows "parse_int (format_int v) = Some v"
proof (cases "v < 0")
  case True
  then show ?thesis using assms nat_digits_ok [of "nat (- v)"] by (simp add: parse_int_def format_int_def digits_val_nat)
next
  case False
  obtain c cs where d: "nat_digits (nat v) = c # cs" using nat_digits_ok [of "nat v"] by (cases "nat_digits (nat v)") auto
  then have c: "c \<noteq> CHR ''-''" "c \<noteq> CHR ''+''" using nat_digits_ok [of "nat v"] digit_not_sign by auto
  have "digits_val (c # cs) = v" "list_all is_digit (c # cs)" using False d digits_val_nat [of "nat v"] nat_digits_ok [of "nat v"] by simp_all
  then show ?thesis using False d c assms by (simp add: parse_int_def format_int_def)
qed

lemma digits_val_zeros: "digits_val (replicate k CHR ''0'' @ s) = digits_val s"
proof (induction k)
  case (Suc k)
  have "digits_val (CHR ''0'' # t) = digits_val t" for t by (simp add: digits_val_def)
  then show ?case using Suc by simp
qed simp

section \<open>Error texts\<close>

text \<open>The text of an \<^verbatim>\<open>error\<close>; a wrapped one follows its context after a colon.\<close>

fun err_text :: "goerr \<Rightarrow> string" where
  "err_text (New m) = m"
| "err_text (Wrap m es) = m @ concat (map (\<lambda>e. '': '' @ err_text e) es)"
| "err_text (S3Err c m st) = c @ '': '' @ m"
| "err_text (APIErr m c d r) = ''bot '' @ m @ '': '' @ format_int c @ '' '' @ d @
     (if r > 0 then '' (retry_after='' @ format_int r @ ''s)'' else [])"
| "err_text (Panic m) = m"

end
