(* ===== verification/Multipart.thy ===== *)
theory Multipart
  imports Service SigCanonical
begin

text \<open>
  Multipart uploads: the service half of \<^verbatim>\<open>internal/s3api/multipart.go\<close>.  Parts are staged as
  files under the upload's directory, replaced by rename, and described by rows of the part
  table; \<^verbatim>\<open>CompleteMultipart\<close> streams the requested parts through the encrypter.  An opened file
  is its contents at that moment (a later rename does not change what the handle reads), and
  reading an opened staged file does not fail.
\<close>

definition max_parts :: int where "max_parts = 10000"

text \<open>\<^verbatim>\<open>filepath.Join\<close> of a clean directory and a file name.\<close>

definition join_path :: "string \<Rightarrow> string \<Rightarrow> string" where
  "join_path dir name = dir @ ''/'' @ name"

definition part_file_name :: "int \<Rightarrow> string" where
  "part_file_name n = (let d = format_int n in replicate (10 - length d) CHR ''0'' @ d @ ''.part'')"

definition part_path :: "string \<Rightarrow> int \<Rightarrow> string" where
  "part_path dir n = join_path dir (part_file_name n)"

definition new_upload_id :: "('b world, string) step" where
  "new_upload_id = ebind (rand_read 16) (\<lambda>b. eret (hex_encode b))"

text \<open>\<^verbatim>\<open>os.RemoveAll\<close>, \<^verbatim>\<open>os.Rename\<close>, \<^verbatim>\<open>os.Open\<close>.\<close>

definition remove_dir :: "string \<Rightarrow> 'b world \<Rightarrow> 'b world" where
  "remove_dir dir w = w\<lparr>w_files := (\<lambda>n. if has_prefix n (join_path dir []) then None else w_files w n)\<rparr>"

definition remove_all :: "string \<Rightarrow> ('b world, unit) step" where
  "remove_all dir = attempt (os_do (remove_dir dir))"

definition rename_file :: "string \<Rightarrow> string \<Rightarrow> 'b world \<Rightarrow> 'b world" where
  "rename_file a b w = w\<lparr>w_files := (w_files w)(b := w_files w a, a := None)\<rparr>"

definition ErrNotExist :: goerr where "ErrNotExist = New ''file does not exist''"

definition open_file :: "string \<Rightarrow> ('b world, bytes) step" where
  "open_file n = ebind (os_do id) (\<lambda>_ w. case w_files w n of None \<Rightarrow> (Inl ErrNotExist, w) | Some d \<Rightarrow> (Inr d, w))"

definition create_temp_in :: "'b service \<Rightarrow> string \<Rightarrow> ('b world, string) step" where
  "create_temp_in sv dir w = (let n = join_path dir (sv_temp sv (w_temps w)) in
     ebind (os_do (put_file n (Some []))) (\<lambda>_. eret n) (w\<lparr>w_temps := Suc (w_temps w)\<rparr>))"

section \<open>Create, upload a part\<close>

definition svc_create_multipart :: "'b service \<Rightarrow> string \<Rightarrow> string \<Rightarrow> ('b world, string) step" where
  "svc_create_multipart sv b key =
     ebind (rename_err ErrNotFound S3NoSuchBucket (on_meta (get_bucket b))) (\<lambda>_.
     ebind new_upload_id (\<lambda>uid.
       let dir = join_path (sv_staging sv) uid in
       ecatch (os_do id) (\<lambda>e. efail (Wrap ''staging mkdir'' [e])) (\<lambda>_.
         ecatch (on_meta (create_multipart (sv_now sv)
             \<lparr>u_id = uid, u_bucket = b, u_key = key, u_staging = dir, u_created = zero_time\<rparr>))
           (\<lambda>e. ebind (remove_all dir) (\<lambda>_. efail e))
           (\<lambda>_. eret uid))))"

text \<open>A step that is rolled back by removing the temporary file.\<close>

definition or_remove :: "string \<Rightarrow> ('b world, 'a) step \<Rightarrow> ('a \<Rightarrow> ('b world, 'c) step) \<Rightarrow> ('b world, 'c) step" where
  "or_remove f m k = ecatch m (\<lambda>e. ebind (remove_file f) (\<lambda>_. efail e)) k"

definition get_upload :: "string \<Rightarrow> ('b world, upload) step" where
  "get_upload uid = rename_err ErrUploadNotFound S3NoSuchUpload (on_meta (get_multipart uid))"

text \<open>The staged file first, the row last.\<close>

definition svc_stage_part :: "'b service \<Rightarrow> upload \<Rightarrow> int \<Rightarrow> int \<Rightarrow> reader \<Rightarrow> ('b world, string) step" where
  "svc_stage_part sv m n sz r =
     ebind (create_temp_in sv (u_staging m)) (\<lambda>f.
       let (d, err) = read_all (limit_reader (i64 (sz + 1)) r) in
       or_remove f (ebind (os_do (put_file f (Some d))) (\<lambda>_. case err of None \<Rightarrow> eret () | Some e \<Rightarrow> efail e)) (\<lambda>_.
         if int (length d) \<noteq> sz then ebind (remove_file f) (\<lambda>_. efail S3InvalidArgument)
         else or_remove f (os_do id) (\<lambda>_. or_remove f (os_do id) (\<lambda>_.
           or_remove f (os_do (rename_file f (part_path (u_staging m) n))) (\<lambda>_.
             eret (hex_encode (sv_md5 sv d)))))))"

definition svc_upload_part :: "'b service \<Rightarrow> string \<Rightarrow> int \<Rightarrow> int \<Rightarrow> reader \<Rightarrow> ('b world, string) step" where
  "svc_upload_part sv uid n sz r =
     ebind (get_upload uid) (\<lambda>m.
       if sz > be_max (sv_backend sv) then efail S3EntityTooLarge
       else ebind (svc_stage_part sv m n sz r) (\<lambda>etag.
         ebind (on_meta (upsert_part \<lparr>p_upload = uid, p_num = n, p_size = sz, p_etag = etag\<rparr>)) (\<lambda>_.
           eret etag)))"

section \<open>Complete, abort\<close>

text \<open>\<^verbatim>\<open>strings.Trim(s, "\"")\<close>, \<^verbatim>\<open>strings.EqualFold\<close> on ASCII, and what
  \<^verbatim>\<open>hex.DecodeString\<close> yields before an error.\<close>

definition trim_quotes :: "string \<Rightarrow> string" where
  "trim_quotes s = trim_right CHR 0x22 (dropWhile (\<lambda>c. c = CHR 0x22) s)"

definition equal_fold :: "string \<Rightarrow> string \<Rightarrow> bool" where
  "equal_fold a b \<longleftrightarrow> to_lower a = to_lower b"

fun hex_prefix :: "string \<Rightarrow> bytes" where
  "hex_prefix (c # d # cs) = (case (hex_val c, hex_val d) of
       (Some h, Some l) \<Rightarrow> of_nat (16 * h + l) # hex_prefix cs | _ \<Rightarrow> [])"
| "hex_prefix _ = []"

text \<open>The loop over the requested parts: the open files, the total size and the MD5 bytes.\<close>

fun open_parts ::
    "string \<Rightarrow> part list \<Rightarrow> (int \<times> string) list \<Rightarrow> bytes list \<Rightarrow> int \<Rightarrow> bytes \<Rightarrow> ('b world, bytes list \<times> int \<times> bytes) step" where
  "open_parts dir rows [] fs tot tags = eret (fs, tot, tags)"
| "open_parts dir rows ((n, tag) # req) fs tot tags = (case find (\<lambda>p. p_num p = n) rows of
       None \<Rightarrow> efail S3InvalidPart
     | Some p \<Rightarrow>
         if \<not> equal_fold (trim_quotes tag) (p_etag p) then efail S3InvalidPart
         else ebind (open_file (part_path dir n)) (\<lambda>d.
           open_parts dir rows req (fs @ [d]) (i64 (tot + p_size p)) (tags @ hex_prefix (p_etag p))))"

definition svc_complete_upload ::
    "'b service \<Rightarrow> upload \<Rightarrow> string \<Rightarrow> string \<Rightarrow> string \<Rightarrow> (int \<times> string) list \<Rightarrow> ('b world, object) step" where
  "svc_complete_upload sv m b key ctype req =
     ebind (on_meta (list_parts (u_id m))) (\<lambda>rows.
     ebind (open_parts (u_staging m) rows req [] 0 []) (\<lambda>(fs, tot, tags).
     ebind (seal_put (\<lambda>e. e) ''complete-multipart'' sv b key tot (concat fs, Eof)) (\<lambda>(csize, base, ref, plain).
       eret \<lparr>o_bucket = b, o_key = key, o_size = tot, o_ctsize = csize,
             o_etag = hex_encode (sv_md5 sv tags) @ ''-'' @ format_int (int (length req)),
             o_ctype = ctype, o_msg = fst ref, o_file = snd ref, o_nonce = base, o_created = zero_time\<rparr>)))"

definition svc_complete_multipart ::
    "'b service \<Rightarrow> string \<Rightarrow> string \<Rightarrow> string \<Rightarrow> (int \<times> string) list \<Rightarrow> string \<Rightarrow> ('b world, object) step" where
  "svc_complete_multipart sv b key uid req ctype =
     ebind (get_upload uid) (\<lambda>m.
       if u_bucket m \<noteq> b \<or> u_key m \<noteq> key then efail S3NoSuchUpload
       else ebind (svc_complete_upload sv m b key ctype req) (\<lambda>ob.
         ebind (svc_record (\<lambda>e. e) sv ob) (\<lambda>row.
         ebind (remove_all (u_staging m)) (\<lambda>_.
         ebind (attempt (on_meta (delete_multipart uid))) (\<lambda>_. eret row)))))"

definition svc_abort_multipart :: "string \<Rightarrow> ('b world, unit) step" where
  "svc_abort_multipart uid =
     ebind (get_upload uid) (\<lambda>m.
     ebind (remove_all (u_staging m)) (\<lambda>_. on_meta (delete_multipart uid)))"

end
