(* ===== verification/MultipartProperties.thy ===== *)
theory MultipartProperties
  imports Multipart ServiceRuns GoNumbers
begin

text \<open>
  What the multipart operations do to the state: staged parts, their rows, and the object that
  \<^verbatim>\<open>CompleteMultipart\<close> assembles.
\<close>

section \<open>File names\<close>

lemma part_file_name_inject:
  assumes "0 \<le> m" "0 \<le> n"
  shows "part_file_name m = part_file_name n \<longleftrightarrow> m = n"
proof
  assume "part_file_name m = part_file_name n"
  then have "replicate (10 - length (format_int m)) CHR ''0'' @ format_int m =
      replicate (10 - length (format_int n)) CHR ''0'' @ format_int n"
    by (simp add: part_file_name_def Let_def flip: append_assoc)
  then have "digits_val (format_int m) = digits_val (format_int n)" by (metis digits_val_zeros)
  then show "m = n" using assms by (simp add: format_int_def digits_val_nat)
qed simp

lemma part_path_inject: "0 \<le> m \<Longrightarrow> 0 \<le> n \<Longrightarrow> part_path dir m = part_path dir n \<longleftrightarrow> m = n"
  by (simp add: part_path_def join_path_def part_file_name_inject)

text \<open>\<^verbatim>\<open>os.CreateTemp\<close> is given patterns that end in \<^verbatim>\<open>.tmp\<close>.\<close>

definition temp_names :: "'b service \<Rightarrow> bool" where
  "temp_names sv \<longleftrightarrow> (\<forall>k. \<exists>x. sv_temp sv k = x @ ''.tmp'')"

lemma temp_not_part: "temp_names sv \<Longrightarrow> join_path dir (sv_temp sv k) \<noteq> part_path dir n"
proof
  assume t: "temp_names sv" and e: "join_path dir (sv_temp sv k) = part_path dir n"
  obtain x where "sv_temp sv k = x @ ''.tmp''" using t by (auto simp: temp_names_def)
  then have "last (join_path dir (sv_temp sv k)) = CHR ''p''" by (simp add: join_path_def)
  moreover have "last (part_path dir n) = CHR ''t''" by (simp add: part_path_def join_path_def part_file_name_def Let_def)
  ultimately show False using e by simp
qed

lemma hex_prefix_encode: "hex_prefix (hex_encode bs) = bs"
proof (induction bs)
  case (Cons b bs)
  have "unat b div 16 < 16" using unat_byte_less [of b] by simp
  moreover have "(of_nat (16 * (unat b div 16) + unat b mod 16) :: byte) = b" by simp
  ultimately show ?case using Cons by (simp add: hex_encode_def hex_val_digit)
qed (simp add: hex_encode_def)

section \<open>Staging a part\<close>

lemma os_do_Inr:
  assumes "os_do f w = (Inr u, w')"
  obtains os where "w' = f (w\<lparr>w_os := os\<rparr>)"
proof (cases "w_os w")
  case Nil
  have "w\<lparr>w_os := []\<rparr> = w" using Nil by (cases w) simp
  moreover have "w' = f w" using assms Nil by (simp add: os_do_def)
  ultimately have "w' = f (w\<lparr>w_os := []\<rparr>)" by metis
  then show ?thesis by (rule that)
next
  case (Cons x os)
  then show ?thesis using assms that by (cases x) (auto simp: os_do_def)
qed

text \<open>All but the staging files, the schedule and the temporary names.\<close>

definition same_data :: "'b world \<Rightarrow> 'b world \<Rightarrow> bool" where
  "same_data w w' \<longleftrightarrow> w_meta w' = w_meta w \<and> w_keys w' = w_keys w \<and> w_blobs w' = w_blobs w \<and> w_ciphers w' = w_ciphers w"

lemma same_data_simps [simp]:
  "same_data w w" "same_data w (w\<lparr>w_os := os\<rparr>)" "same_data w (w\<lparr>w_temps := k\<rparr>)" "same_data w (w\<lparr>w_files := fs\<rparr>)"
  by (simp_all add: same_data_def)

lemma limited_exact:
  assumes "read_all (limit_reader (i64 (sz + 1)) r) = (d, None)" "int (length d) = sz" "sz < 2 ^ 63"
  shows "d = fst r \<and> snd r = Eof"
proof -
  obtain e t where r: "r = (e, t)" by fastforce
  show ?thesis
  proof (cases "int (length e) \<ge> i64 (sz + 1)")
    case True
    then have d: "d = take (nat (i64 (sz + 1))) e" using assms(1) r by (auto simp: limit_reader_def read_all_def)
    show ?thesis
    proof (cases "sz + 1 < 2 ^ 63")
      case True
      have "0 \<le> sz" using assms(2) by (metis of_nat_0_le_iff)
      moreover from this True have "i64 (sz + 1) = sz + 1" by (intro i64_id) auto
      ultimately have "int (length d) = sz + 1" using d \<open>int (length e) \<ge> i64 (sz + 1)\<close> by simp
      then show ?thesis using assms(2) by simp
    next
      case False
      then have "sz = max_i64" using assms(3) by simp
      then have "i64 (sz + 1) < 0" by (simp add: i64_def)
      then show ?thesis using d assms(2) False by simp
    qed
  next
    case False
    then show ?thesis using assms(1) r by (auto simp: limit_reader_def read_all_def split: ending.splits)
  qed
qed

lemma stage_part_Inr:
  assumes "svc_stage_part sv m n sz r w = (Inr etag, w')" "temp_names sv" "sz < 2 ^ 63"
  shows "same_data w w' \<and> w_files w' (part_path (u_staging m) n) = Some (fst r) \<and>
    (\<forall>k. 0 \<le> k \<longrightarrow> 0 \<le> n \<longrightarrow> k \<noteq> n \<longrightarrow> w_files w' (part_path (u_staging m) k) = w_files w (part_path (u_staging m) k)) \<and>
    etag = hex_encode (sv_md5 sv (fst r)) \<and> int (length (fst r)) = sz \<and> snd r = Eof"
proof -
  let ?f = "join_path (u_staging m) (sv_temp sv (w_temps w))"
  let ?p = "part_path (u_staging m) n"
  obtain f w1 where w1: "create_temp_in sv (u_staging m) w = (Inr f, w1)"
    and rest: "(let (d, err) = read_all (limit_reader (i64 (sz + 1)) r) in
       or_remove f (ebind (os_do (put_file f (Some d))) (\<lambda>_. case err of None \<Rightarrow> eret () | Some e \<Rightarrow> efail e)) (\<lambda>_.
         if int (length d) \<noteq> sz then ebind (remove_file f) (\<lambda>_. efail S3InvalidArgument)
         else or_remove f (os_do id) (\<lambda>_. or_remove f (os_do id) (\<lambda>_.
           or_remove f (os_do (rename_file f ?p)) (\<lambda>_. eret (hex_encode (sv_md5 sv d))))))) w1 = (Inr etag, w')"
    using assms(1) unfolding svc_stage_part_def ebind_Inr by blast
  obtain os where f: "f = ?f" and w1': "w1 = put_file ?f (Some []) (w\<lparr>w_temps := Suc (w_temps w), w_os := os\<rparr>)"
    using w1 by (auto simp: create_temp_in_def Let_def ebind_Inr elim: os_do_Inr)
  obtain d err where d: "read_all (limit_reader (i64 (sz + 1)) r) = (d, err)" by fastforce
  have orr: "or_remove f m k w = (Inr y, t) \<longleftrightarrow> (\<exists>x s. m w = (Inr x, s) \<and> k x s = (Inr y, t))" for m k w y t
    by (auto simp: or_remove_def ecatch_Inr ebind_Inr)
  have err: "err = None" and len: "int (length d) = sz" and
    steps: "\<exists>w2 w3 w4 w5. os_do (put_file f (Some d)) w1 = (Inr (), w2) \<and> os_do id w2 = (Inr (), w3) \<and> os_do id w3 = (Inr (), w4) \<and>
      os_do (rename_file f ?p) w4 = (Inr (), w5) \<and> w5 = w' \<and> etag = hex_encode (sv_md5 sv d)"
    using rest d by (auto simp: orr ebind_Inr split: if_splits option.splits)
  have exact: "d = fst r \<and> snd r = Eof" using limited_exact [of sz r d] d err len assms(3) by blast
  have ne: "?f \<noteq> part_path (u_staging m) k" for k using temp_not_part [OF assms(2)] .
  obtain os2 where "w' = rename_file ?f ?p ((put_file ?f (Some d) w1)\<lparr>w_os := os2\<rparr>)"
    using steps unfolding f by (auto elim!: os_do_Inr simp: put_file_def)
  then have w': "w' = rename_file ?f ?p ((put_file ?f (Some d) w1)\<lparr>w_os := os2\<rparr>)" .
  show ?thesis using exact len steps w' ne ne [symmetric]
    by (auto simp: w1' rename_file_def put_file_def same_data_def part_path_inject)
qed

section \<open>Uploading parts\<close>

definition staged :: "'b service \<Rightarrow> 'b world \<Rightarrow> upload \<Rightarrow> int \<Rightarrow> bytes \<Rightarrow> bool" where
  "staged sv w m n d \<longleftrightarrow> find_part (u_id m, n) (w_meta w) =
       Some \<lparr>p_upload = u_id m, p_num = n, p_size = int (length d), p_etag = hex_encode (sv_md5 sv d)\<rparr> \<and>
     w_files w (part_path (u_staging m) n) = Some d"

lemma get_upload_Inr:
  assumes "get_upload uid w = (Inr m, w')"
  shows "find_upload uid (w_meta w) = Some m \<and> tables (w_meta w') = tables (w_meta w) \<and>
    w_keys w' = w_keys w \<and> w_blobs w' = w_blobs w \<and> w_ciphers w' = w_ciphers w \<and> w_files w' = w_files w"
  using assms by (auto simp: get_upload_def rename_err_def ecatch_Inr on_meta_def split: prod.splits if_splits dest: get_multipart_Inr)

text \<open>Steps that only touch the tables of uploads and parts, and staging files.\<close>

lemma part_tables_inv:
  assumes "svc_inv sv held w" "buckets (w_meta w') = buckets (w_meta w)" "objects (w_meta w') = objects (w_meta w)"
    and "store_inv (w_meta w')" "w_keys w' = w_keys w" "w_blobs w' = w_blobs w" "w_ciphers w' = w_ciphers w"
  shows "svc_inv sv held w'"
  using assms by (simp add: svc_inv_def)

lemma upload_part_Inr:
  assumes "svc_upload_part sv uid n sz r w = (Inr etag, w')" "temp_names sv" "svc_inv sv held w" "sz < 2 ^ 63" "0 \<le> n"
    and "find_upload uid (w_meta w) = Some m"
  shows "svc_inv sv held w' \<and> objects (w_meta w') = objects (w_meta w) \<and> find_upload uid (w_meta w') = Some m \<and>
    staged sv w' m n (fst r) \<and> etag = hex_encode (sv_md5 sv (fst r)) \<and> int (length (fst r)) = sz \<and>
    (\<forall>k d. 0 \<le> k \<longrightarrow> k \<noteq> n \<longrightarrow> staged sv w m k d \<longrightarrow> staged sv w' m k d)"
proof -
  obtain m' w1 w2 where m': "get_upload uid w = (Inr m', w1)" and st: "svc_stage_part sv m' n sz r w1 = (Inr etag, w2)"
    and row: "on_meta (upsert_part \<lparr>p_upload = uid, p_num = n, p_size = sz, p_etag = etag\<rparr>) w2 = (Inr (), w')"
    using assms(1) unfolding svc_upload_part_def by (auto simp: ebind_Inr split: if_splits)
  note up = get_upload_Inr [OF m']
  have m: "m' = m" "u_id m = uid"
    using up assms(6) upl.lookup_rows [of "w_meta w" uid m] assms(3) by (auto simp: svc_inv_def)
  note sp = stage_part_Inr [OF st assms(2,4), unfolded m]
  define p where "p = \<lparr>p_upload = uid, p_num = n, p_size = sz, p_etag = etag\<rparr>"
  obtain s where s: "upsert_part p (w_meta w2) = (Inr (), s)" and w': "w' = w2\<lparr>w_meta := s\<rparr>"
    using row by (auto simp: on_meta_def p_def split: prod.splits)
  have meta: "w_meta w2 = w_meta w1" using sp by (simp add: same_data_def)
  have t: "tables s = tables (put_part_row p (w_meta w1))" using upsert_part_Inr [OF s] by (simp add: meta)
  have t1: "tables (w_meta w1) = tables (w_meta w)" using up by blast
  have si: "store_inv (w_meta w1)" using tables_find(5) [OF t1] assms(3) by (simp add: svc_inv_def)
  have same: "buckets s = buckets (w_meta w)" "objects s = objects (w_meta w)"
    using t t1 by (simp_all add: tables_eq row_defs)
  have "svc_inv sv held w'"
    by (rule part_tables_inv [OF assms(3)])
      (use same sp up tables_find(5) [OF t] prt.inv_put [OF si, of p] in \<open>simp_all add: w' same_data_def\<close>)
  moreover have "find_upload uid s = Some m"
    using tables_find(3) [OF t] tables_find(3) [OF t1] assms(6) by (simp add: row_defs)
  moreover have fp: "find_part i s = (if i = (uid, n) then Some p else find_part i (w_meta w))" for i
    using tables_find(4) [OF t] tables_find(4) [OF t1] prt.lookup_put [of i p "w_meta w1"] by (simp add: part_id_def p_def)
  moreover have "staged sv w' m n (fst r)" using fp sp by (simp add: staged_def w' m(2) p_def)
  moreover have "staged sv w' m k d" if "0 \<le> k" "k \<noteq> n" "staged sv w m k d" for k d
    using that fp sp up assms(5) by (simp add: staged_def w' m(2))
  ultimately show ?thesis using same sp w' by simp
qed

text \<open>A client that uploads parts one after the other and gives up at the first error.\<close>

fun upload_parts :: "'b service \<Rightarrow> string \<Rightarrow> (int \<times> int \<times> reader) list \<Rightarrow> ('b world, (int \<times> string) list) step" where
  "upload_parts sv uid [] = eret []"
| "upload_parts sv uid ((n, sz, r) # ps) =
     ebind (svc_upload_part sv uid n sz r) (\<lambda>etag. ebind (upload_parts sv uid ps) (\<lambda>ts. eret ((n, etag) # ts)))"

lemma upload_parts_Inr:
  assumes "upload_parts sv uid ps w = (Inr ts, w')" "temp_names sv" "svc_inv sv held w"
    and "\<forall>(n, sz, r)\<in>set ps. 0 \<le> n \<and> sz < 2 ^ 63" "distinct (map fst ps)" "find_upload uid (w_meta w) = Some m"
  shows "svc_inv sv held w' \<and> find_upload uid (w_meta w') = Some m \<and>
    (\<forall>(n, sz, r)\<in>set ps. staged sv w' m n (fst r)) \<and> ts = map (\<lambda>(n, sz, r). (n, hex_encode (sv_md5 sv (fst r)))) ps \<and>
    (\<forall>k d. 0 \<le> k \<longrightarrow> k \<notin> fst ` set ps \<longrightarrow> staged sv w m k d \<longrightarrow> staged sv w' m k d)"
  using assms
proof (induction ps arbitrary: w ts)
  case (Cons x ps)
  obtain n sz r where x: "x = (n, sz, r)" by (cases x)
  obtain etag w1 ts' where u: "svc_upload_part sv uid n sz r w = (Inr etag, w1)"
    and rest: "upload_parts sv uid ps w1 = (Inr ts', w')" and ts: "ts = (n, etag) # ts'"
    using Cons.prems(1) by (auto simp: x ebind_Inr)
  have n: "0 \<le> n" "sz < 2 ^ 63" using Cons.prems(4) by (simp_all add: x)
  note up = upload_part_Inr [OF u Cons.prems(2,3) n(2,1) Cons.prems(6)]
  have ps: "\<forall>(n, sz, r)\<in>set ps. 0 \<le> n \<and> sz < 2 ^ 63" "distinct (map fst ps)" using Cons.prems(4,5) by simp_all
  note ih = Cons.IH [OF rest Cons.prems(2) conjunct1 [OF up] ps]
  have "staged sv w' m n (fst r)" using ih up n(1) Cons.prems(5) by (auto simp: x)
  then show ?case using ih up ts Cons.prems(5) by (auto simp: x)
qed simp

section \<open>Completing\<close>

lemma open_file_Inr:
  assumes "open_file n w = (Inr d, w')"
  shows "w_files w n = Some d \<and> w_files w' = w_files w \<and> same_data w w'"
  using assms by (auto simp: open_file_def ebind_Inr same_data_def elim!: os_do_Inr split: option.splits)

text \<open>The rows that \<^verbatim>\<open>ListParts\<close> returns, looked up by number.\<close>

lemma find_part_row:
  assumes "store_inv s" "find_part (uid, n) s = Some p"
  shows "find (\<lambda>p. p_num p = n) (sort_key p_num (filter (\<lambda>p. p_upload p = uid) (parts s))) = Some p"
proof -
  let ?rows = "sort_key p_num (filter (\<lambda>p. p_upload p = uid) (parts s))"
  have p: "p \<in> set ?rows" "p_num p = n"
    using prt.lookup_rows [OF assms(1), of "(uid, n)" p] assms(2) by (auto simp: part_id_def)
  have uniq: "x = p" if "x \<in> set ?rows" "p_num x = n" for x
    using prt.lookup_rows [OF assms(1), of "(uid, n)" x] assms(2) that by (auto simp: part_id_def)
  have "find (\<lambda>p. p_num p = n) ?rows \<noteq> None" using p unfolding find_None_iff by blast
  then obtain x where x: "find (\<lambda>p. p_num p = n) ?rows = Some x" by blast
  then have "x \<in> set ?rows" "p_num x = n" unfolding find_Some_iff by (metis nth_mem, metis)
  then show ?thesis using x uniq by blast
qed

text \<open>The contents of the requested parts, in the order of the request.\<close>

fun assembled :: "(int \<Rightarrow> bytes) \<Rightarrow> (int \<times> string) list \<Rightarrow> bytes" where
  "assembled body [] = []"
| "assembled body ((n, t) # req) = body n @ assembled body req"

lemma length_le_int: "length xs \<le> 2 ^ 58 \<Longrightarrow> int (length xs) \<le> 2 ^ 58"
  by (metis of_nat_le_iff of_nat_numeral of_nat_power)

text \<open>What the opened parts are, when each requested row has a staged file of its size.\<close>

lemma open_parts_Inr:
  assumes "open_parts dir rows req fs tot tags w = (Inr (fs', tot', tags'), w')"
    and "\<forall>(n, t)\<in>set req. \<exists>p d. find (\<lambda>p. p_num p = n) rows = Some p \<and> w_files w (part_path dir n) = Some d \<and>
      p_size p = int (length d) \<and> row n = p \<and> body n = d"
    and "0 \<le> tot" "tot + int (length (assembled body req)) < 2 ^ 63"
  shows "same_data w w' \<and> w_files w' = w_files w \<and> concat fs' = concat fs @ assembled body req \<and>
    tot' = tot + int (length (assembled body req)) \<and>
    tags' = tags @ assembled (\<lambda>n. hex_prefix (p_etag (row n))) req \<and>
    (\<forall>(n, t)\<in>set req. equal_fold (trim_quotes t) (p_etag (row n)))"
  using assms
proof (induction req arbitrary: fs tot tags w)
  case (Cons x req)
  obtain n t where x: "x = (n, t)" by fastforce
  obtain p d where p: "find (\<lambda>p. p_num p = n) rows = Some p" "w_files w (part_path dir n) = Some d"
    "p_size p = int (length d)" "row n = p" "body n = d" using Cons.prems(2) by (auto simp: x)
  obtain d' w1 where o: "open_file (part_path dir n) w = (Inr d', w1)"
    and rest: "open_parts dir rows req (fs @ [d']) (i64 (tot + p_size p)) (tags @ hex_prefix (p_etag p)) w1 = (Inr (fs', tot', tags'), w')"
    and eq: "equal_fold (trim_quotes t) (p_etag p)"
    using Cons.prems(1) p(1) by (auto simp: x ebind_Inr split: if_splits)
  note oo = open_file_Inr [OF o]
  have d: "d' = d" using oo p(2) by simp
  have tot: "i64 (tot + p_size p) = tot + int (length d)" using p(3,5) Cons.prems(3,4) by (simp add: i64_id x)
  have req: "\<forall>(n, t)\<in>set req. \<exists>p d. find (\<lambda>p. p_num p = n) rows = Some p \<and> w_files w1 (part_path dir n) = Some d \<and>
      p_size p = int (length d) \<and> row n = p \<and> body n = d" using Cons.prems(2) oo by simp
  have "0 \<le> tot + int (length d)" "tot + int (length d) + int (length (assembled body req)) < 2 ^ 63"
    using Cons.prems(3,4) p(5) by (simp_all add: x)
  note ih = Cons.IH [OF rest [unfolded tot] req this]
  show ?case using ih oo d p(4,5) eq by (auto simp: x same_data_def)
qed simp

lemma complete_upload_Inr:
  assumes "service_laws sv held" "svc_inv sv held w" "svc_complete_upload sv m b key ct req w = (Inr ob, w')"
    and "\<forall>(n, t)\<in>set req. find_part (u_id m, n) (w_meta w) = Some (row n) \<and>
      w_files w (part_path (u_staging m) n) = Some (body n) \<and> p_size (row n) = int (length (body n))"
    and "length (assembled body req) \<le> 2 ^ 58"
  shows "quiet sv held w w' \<and> o_bucket ob = b \<and> o_key ob = key \<and> o_created ob = zero_time \<and> o_ctype ob = ct \<and>
    o_etag ob = hex_encode (sv_md5 sv (assembled (\<lambda>n. hex_prefix (p_etag (row n))) req)) @ ''-'' @ format_int (int (length req)) \<and>
    no_message (held (w_blobs w)) (o_msg ob) \<and>
    stored sv (held (w_blobs w')) (bucket_cipher sv (w_keys w)) ob (assembled body req) \<and>
    (\<forall>(n, t)\<in>set req. equal_fold (trim_quotes t) (p_etag (row n)))"
proof -
  let ?d = "assembled body req"
  obtain rows w1 fs tot tags w2 csize base ref plain where l: "on_meta (list_parts (u_id m)) w = (Inr rows, w1)"
    and o: "open_parts (u_staging m) rows req [] 0 [] w1 = (Inr (fs, tot, tags), w2)"
    and s: "seal_put (\<lambda>e. e) ''complete-multipart'' sv b key tot (concat fs, Eof) w2 = (Inr (csize, base, ref, plain), w')"
    and ob: "ob = \<lparr>o_bucket = b, o_key = key, o_size = tot, o_ctsize = csize,
        o_etag = hex_encode (sv_md5 sv tags) @ ''-'' @ format_int (int (length req)), o_ctype = ct, o_msg = fst ref,
        o_file = snd ref, o_nonce = base, o_created = zero_time\<rparr>"
    using assms(3) unfolding svc_complete_upload_def by (auto simp: ebind_Inr)
  have rows: "rows = sort_key p_num (filter (\<lambda>p. p_upload p = u_id m) (parts (w_meta w)))"
    and t1: "tables (w_meta w1) = tables (w_meta w)"
    and w1: "w_files w1 = w_files w" "w_keys w1 = w_keys w" "w_blobs w1 = w_blobs w" "w_ciphers w1 = w_ciphers w"
    using l list_parts_Inr [of "u_id m" "w_meta w"] by (auto simp: on_meta_def split: prod.splits)
  have "\<forall>(n, t)\<in>set req. \<exists>p d. find (\<lambda>p. p_num p = n) rows = Some p \<and> w_files w1 (part_path (u_staging m) n) = Some d \<and>
      p_size p = int (length d) \<and> row n = p \<and> body n = d"
    using assms(2,4) find_part_row [of "w_meta w"] unfolding rows w1 by (fastforce simp: svc_inv_def)
  moreover have len: "int (length ?d) < 2 ^ 63"
    using length_le_int [OF assms(5)] by simp
  ultimately have op: "same_data w1 w2 \<and> w_files w2 = w_files w1 \<and> concat fs = assembled body req \<and> tot = int (length ?d) \<and>
      tags = assembled (\<lambda>n. hex_prefix (p_etag (row n))) req \<and> (\<forall>(n, t)\<in>set req. equal_fold (trim_quotes t) (p_etag (row n)))"
    using open_parts_Inr [OF o, of row body] by simp
  have q2: "quiet sv held w w2" using op t1 w1 svc_inv_ciphers [OF assms(2)] by (auto simp: quiet_def same_data_def ciphers_ok_def)
  have tot: "0 \<le> tot" "tot \<le> 2 ^ 58" using op length_le_int [OF assms(5)] by auto
  note sp = seal_put_spec [OF assms(1) quiet_ciphers [OF q2] tot s]
  have qw: "quiet sv held w w'" using sp quiet_trans [OF q2] by blast
  have keys: "w_keys w2 = w_keys w" using q2 by (simp add: quiet_def)
  note sp = sp [THEN conjunct2, rule_format, OF refl, unfolded keys]
  obtain c where c: "bucket_cipher sv (w_keys w) b = Some c" "csize = ciphertext_size c tot"
    "held (w_blobs w') ref = Some (encrypted c base plain)" "nat tot \<le> length (concat fs)" "plain = take (nat tot) (concat fs)"
    "length base = nonce_len" "no_message (held (w_blobs w2)) (fst ref)" using sp unfolding fst_conv by blast
  have take: "take (nat tot) (concat fs) = ?d" using op by simp
  have "stored sv (held (w_blobs w')) (bucket_cipher sv (w_keys w)) ob (take (nat tot) (concat fs))"
    by (rule sealed_row [of sv "w_keys w" ob c]) (use c tot in \<open>simp_all add: ob ref_of_def\<close>)
  moreover have "no_message (held (w_blobs w)) (fst ref)" by (rule quiet_no_message [OF q2 c(7)])
  ultimately show ?thesis using qw op take by (simp add: ob ref_of_def)
qed

lemma clean_upload:
  assumes "remove_all dir w = (Inr u, w1)" "attempt (on_meta (delete_multipart uid)) w1 = (Inr v, w2)" "store_inv (w_meta w)"
  shows "buckets (w_meta w2) = buckets (w_meta w) \<and> objects (w_meta w2) = objects (w_meta w) \<and> store_inv (w_meta w2) \<and>
    w_keys w2 = w_keys w \<and> w_blobs w2 = w_blobs w \<and> w_ciphers w2 = w_ciphers w"
proof -
  obtain r s where d: "delete_multipart uid (w_meta w1) = (r, s)" by fastforce
  have w1: "w_meta w1 = w_meta w" "w_keys w1 = w_keys w" "w_blobs w1 = w_blobs w" "w_ciphers w1 = w_ciphers w"
    using assms(1) by (auto simp: remove_all_def attempt_def os_do_def remove_dir_def split: list.splits option.splits)
  have w2: "w2 = w1\<lparr>w_meta := s\<rparr>" using assms(2) d by (simp add: attempt_def on_meta_def)
  have "store_inv s" using run_write_inv [OF assms(3), of 0 "DeleteMultipart uid"] d w1(1) by simp
  moreover have "buckets s = buckets (w_meta w) \<and> objects s = objects (w_meta w)"
    using delete_multipart_Inl [of uid "w_meta w1" _ s] delete_multipart_Inr [of uid "w_meta w1" _ s] d w1(1)
    by (cases r) (auto simp: tables_eq row_defs)
  ultimately show ?thesis using w1 w2 by simp
qed

lemma complete_multipart_Inr:
  assumes "service_laws sv held" "svc_inv sv held w" "svc_complete_multipart sv b key uid req ct w = (Inr row', w')"
    and "find_upload uid (w_meta w) = Some m"
    and "\<forall>(n, t)\<in>set req. find_part (uid, n) (w_meta w) = Some (row n) \<and>
      w_files w (part_path (u_staging m) n) = Some (body n) \<and> p_size (row n) = int (length (body n))"
    and "length (assembled body req) \<le> 2 ^ 58"
  shows "svc_inv sv held w' \<and> find_object (ObjId b key) (w_meta w') = Some row' \<and>
    stored sv (held (w_blobs w')) (bucket_cipher sv (w_keys w')) row' (assembled body req) \<and>
    o_etag row' = hex_encode (sv_md5 sv (assembled (\<lambda>n. hex_prefix (p_etag (row n))) req)) @ ''-'' @ format_int (int (length req)) \<and>
    (\<forall>(n, t)\<in>set req. equal_fold (trim_quotes t) (p_etag (row n)))"
proof -
  obtain m' w1 ob w2 w3 u1 w4 u2 where g: "get_upload uid w = (Inr m', w1)"
    and c: "svc_complete_upload sv m' b key ct req w1 = (Inr ob, w2)"
    and r: "svc_record (\<lambda>e. e) sv ob w2 = (Inr row', w3)"
    and ra: "remove_all (u_staging m') w3 = (Inr u1, w4)"
    and dm: "attempt (on_meta (delete_multipart uid)) w4 = (Inr u2, w')" and guard: "u_bucket m' = b"
    proof -
    obtain m' w1 where g: "get_upload uid w = (Inr m', w1)" and rest: "(if u_bucket m' \<noteq> b \<or> u_key m' \<noteq> key then efail S3NoSuchUpload
       else ebind (svc_complete_upload sv m' b key ct req) (\<lambda>ob.
         ebind (svc_record (\<lambda>e. e) sv ob) (\<lambda>row.
         ebind (remove_all (u_staging m')) (\<lambda>_.
         ebind (attempt (on_meta (delete_multipart uid))) (\<lambda>_. eret row))))) w1 = (Inr row', w')"
      using assms(3) unfolding svc_complete_multipart_def ebind_Inr [of "get_upload uid"] by blast
    have guard: "u_bucket m' = b" and rest: "ebind (svc_complete_upload sv m' b key ct req) (\<lambda>ob.
         ebind (svc_record (\<lambda>e. e) sv ob) (\<lambda>row.
         ebind (remove_all (u_staging m')) (\<lambda>_.
         ebind (attempt (on_meta (delete_multipart uid))) (\<lambda>_. eret row)))) w1 = (Inr row', w')"
      using rest by (simp_all split: if_splits)
    show thesis using rest unfolding ebind_Inr eret_def prod.inject sum.inject
      by (elim exE conjE) (use that g guard in blast)
  qed
  note up = get_upload_Inr [OF g]
  have m: "m' = m" "u_id m = uid" using up assms(4) upl.lookup_rows [of "w_meta w" uid m] assms(2) by (auto simp: svc_inv_def)
  have inv1: "svc_inv sv held w1"
    by (rule quiet_inv [OF assms(2)]) (use up svc_inv_ciphers [OF assms(2)] in \<open>simp add: quiet_def ciphers_ok_def\<close>)
  have req: "\<forall>(n, t)\<in>set req. find_part (u_id m, n) (w_meta w1) = Some (row n) \<and>
      w_files w1 (part_path (u_staging m) n) = Some (body n) \<and> p_size (row n) = int (length (body n))"
    using assms(5) up tables_find(4) [of "w_meta w1" "w_meta w"] m(2) by auto
  note cu = complete_upload_Inr [OF assms(1) inv1 c [unfolded m] req assms(6)]
  then have q: "quiet sv held w1 w2" and fresh: "no_message (held (w_blobs w1)) (o_msg ob)"
    and st: "stored sv (held (w_blobs w2)) (bucket_cipher sv (w_keys w1)) ob (assembled body req)"
    and ob: "o_bucket ob = b" "o_key ob = key" "o_created ob = zero_time" by blast+
  have inv2: "svc_inv sv held w2" by (rule quiet_inv [OF inv1 q])
  have k2: "w_keys w2 = w_keys w1" "tables (w_meta w2) = tables (w_meta w1)" using q by (simp_all add: quiet_def)
  have st: "stored sv (held (w_blobs w2)) (bucket_cipher sv (w_keys w2)) ob (assembled body req)" using st k2(1) by simp
  have refs: "\<forall>x\<in>set (objects (w_meta w2)). o_msg x \<noteq> o_msg ob"
  proof
    fix x assume "x \<in> set (objects (w_meta w2))"
    then have "x \<in> set (objects (w_meta w1))" using k2(2) by (simp add: tables_eq)
    then have "held (w_blobs w1) (ref_of x) \<noteq> None" using inv1 by (auto simp: svc_inv_def rows_ok_def stored_def)
    then show "o_msg x \<noteq> o_msg ob" using fresh no_messageD(1) by (fastforce simp: ref_of_def)
  qed
  have inv3: "svc_inv sv held w3" by (rule put_record_inv [OF assms(1) inv2 r ob(3) st refs])
  note rc = put_record_cases [OF assms(1) r ob(3)]
  have row': "row' = ob\<lparr>o_created := sv_now sv\<rparr>" "w_blobs w3 = w_blobs w2" "w_keys w3 = w_keys w2"
    "tables (w_meta w3) = tables (put_object_row row' (w_meta w2))" using rc by simp_all
  have "store_inv (w_meta w3)" using inv3 by (simp add: svc_inv_def)
  note cl = clean_upload [OF ra dm this]
  have "svc_inv sv held w'" by (rule part_tables_inv [OF inv3]) (use cl in simp_all)
  moreover have "find_object (ObjId b key) (w_meta w') = Some row'"
  proof -
    have "obj_id row' = ObjId b key" using row'(1) ob by (simp add: obj_id_def)
    then have "find_object (ObjId b key) (w_meta w3) = Some row'"
      using tables_find(2) [OF row'(4)] obj.lookup_put_same [of row' "w_meta w2"] by simp
    then show ?thesis using cl by (simp add: find_object_def)
  qed
  moreover have "stored sv (held (w_blobs w')) (bucket_cipher sv (w_keys w')) row' (assembled body req)"
    using st cl by (simp add: row'(1-3))
  moreover have "o_etag row' = o_etag ob" by (simp add: row'(1))
  ultimately show ?thesis using cu by simp
qed

end
