(* ===== verification/MultipartRuns.thy ===== *)
theory MultipartRuns
  imports MultipartProperties
begin

text \<open>
  What the multipart operations keep, on every outcome: creating, uploading a part and aborting
  touch the tables of uploads and parts only; completing adds at most the row of the object.
\<close>

section \<open>Steps on the side tables\<close>

text \<open>Recorded part sizes are those the size guard of \<^verbatim>\<open>UploadPart\<close> lets through.\<close>

definition parts_ok :: "'b service \<Rightarrow> 'b world \<Rightarrow> bool" where
  "parts_ok sv w \<longleftrightarrow> (\<forall>p\<in>set (parts (w_meta w)). 0 \<le> p_size p \<and> p_size p \<le> be_max (sv_backend sv))"

definition side :: "'b service \<Rightarrow> 'b world \<Rightarrow> 'b world \<Rightarrow> bool" where
  "side sv w w' \<longleftrightarrow> buckets (w_meta w') = buckets (w_meta w) \<and> objects (w_meta w') = objects (w_meta w) \<and>
     w_keys w' = w_keys w \<and> w_blobs w' = w_blobs w \<and> w_ciphers w' = w_ciphers w \<and> store_inv (w_meta w') \<and> parts_ok sv w'"

definition side_step :: "'b service \<Rightarrow> ('b world, 'a) step \<Rightarrow> bool" where
  "side_step sv m \<longleftrightarrow> (\<forall>w r w'. store_inv (w_meta w) \<longrightarrow> parts_ok sv w \<longrightarrow> m w = (r, w') \<longrightarrow> side sv w w')"

named_theorems side_intros \<open>steps on the tables of uploads and parts\<close>

lemma side_stepD: "side_step sv m \<Longrightarrow> store_inv (w_meta w) \<Longrightarrow> parts_ok sv w \<Longrightarrow> m w = (r, w') \<Longrightarrow> side sv w w'"
  by (simp add: side_step_def)

lemma side_trans: "side sv w w1 \<Longrightarrow> side sv w1 w2 \<Longrightarrow> side sv w w2"
  by (simp add: side_def)

lemma side_ebind [side_intros]:
  assumes "side_step sv m" "\<And>x. side_step sv (f x)"
  shows "side_step sv (ebind m f)"
  unfolding side_step_def
proof (intro allI impI)
  fix w r w' assume i: "store_inv (w_meta w)" "parts_ok sv w" and e: "ebind m f w = (r, w')"
  obtain v w1 where v: "m w = (v, w1)" by fastforce
  have s: "side sv w w1" by (rule side_stepD [OF assms(1) i v])
  then have "store_inv (w_meta w1)" "parts_ok sv w1" by (simp_all add: side_def)
  note t = side_stepD [OF assms(2) this, of _ r w']
  show "side sv w w'"
    using e v s t side_trans [OF s] by (cases v) (auto simp: ebind_def)
qed

lemma side_ecatch [side_intros]:
  assumes "side_step sv m" "\<And>e. side_step sv (h e)" "\<And>x. side_step sv (f x)"
  shows "side_step sv (ecatch m h f)"
  unfolding side_step_def
proof (intro allI impI)
  fix w r w' assume i: "store_inv (w_meta w)" "parts_ok sv w" and e: "ecatch m h f w = (r, w')"
  obtain v w1 where v: "m w = (v, w1)" by fastforce
  have s: "side sv w w1" by (rule side_stepD [OF assms(1) i v])
  then have "store_inv (w_meta w1)" "parts_ok sv w1" by (simp_all add: side_def)
  note t = side_stepD [OF assms(2) this, of _ r w'] side_stepD [OF assms(3) this, of _ r w']
  show "side sv w w'"
    using e v s t side_trans [OF s] by (cases v) (auto simp: ecatch_def)
qed

lemma side_eret [side_intros]: "side_step sv (eret x)" "side_step sv (efail e)"
  by (auto simp: side_step_def side_def)

lemma side_attempt [side_intros]: "side_step sv m \<Longrightarrow> side_step sv (attempt m)"
  unfolding side_step_def attempt_def by (metis Pair_inject surjective_pairing)

lemma side_same_data:
  assumes "\<And>w r w'. m w = (r, w') \<Longrightarrow> same_data w w'"
  shows "side_step sv m"
  using assms unfolding side_step_def side_def same_data_def parts_ok_def by metis

lemma side_files [side_intros]:
  "side_step sv (os_do id)" "side_step sv (os_do (put_file n c))" "side_step sv (os_do (rename_file a b))"
  "side_step sv (os_do (remove_dir dir))" "side_step sv (rand_read k)"
  by (rule side_same_data;
      auto simp: os_do_def put_file_def rename_file_def remove_dir_def rand_read_def Let_def same_data_def
        split: list.splits option.splits sum.splits)+

lemma side_create_temp_in [side_intros]: "side_step sv (create_temp_in sv dir)"
  by (rule side_same_data)
    (auto simp: create_temp_in_def Let_def ebind_def eret_def os_do_def put_file_def same_data_def split: list.splits option.splits)

lemma side_remove [side_intros]: "side_step sv (remove_file n)" "side_step sv (remove_all dir)"
  unfolding remove_file_def remove_all_def by (intro side_intros)+

lemma side_on_meta:
  assumes "\<And>s r s'. store_inv s \<Longrightarrow> m s = (r, s') \<Longrightarrow>
      buckets s' = buckets s \<and> objects s' = objects s \<and> store_inv s' \<and> set (parts s') \<subseteq> set (parts s) \<union> P"
    and "\<And>p. p \<in> P \<Longrightarrow> 0 \<le> p_size p \<and> p_size p \<le> be_max (sv_backend sv)"
  shows "side_step sv (on_meta m)"
  unfolding side_step_def
proof (intro allI impI)
  fix w r w' assume i: "store_inv (w_meta w)" "parts_ok sv w" and e: "on_meta m w = (r, w')"
  obtain s where s: "m (w_meta w) = (r, s)" and w': "w' = w\<lparr>w_meta := s\<rparr>" using e by (auto simp: on_meta_def split: prod.splits)
  show "side sv w w'" using assms(1) [OF i(1) s] assms(2) i(2) by (auto simp: w' side_def parts_ok_def)
qed

lemma side_same_tables:
  assumes "\<And>s r s'. m s = (r, s') \<Longrightarrow> tables s' = tables s"
  shows "side_step sv (on_meta m)"
proof (rule side_on_meta [where P = "{}"])
  fix s r s' assume i: "store_inv s" and m: "m s = (r, s')"
  have t: "tables s' = tables s" by (rule assms [OF m])
  show "buckets s' = buckets s \<and> objects s' = objects s \<and> store_inv s' \<and> set (parts s') \<subseteq> set (parts s) \<union> {}"
    using t tables_find(5) [OF t] i by (simp add: tables_eq)
qed simp

lemma side_reads [side_intros]:
  "side_step sv (on_meta (get_bucket b))" "side_step sv (on_meta (get_multipart i))" "side_step sv (on_meta (list_parts i))"
  by (rule side_same_tables, erule get_tables(1))
    (rule side_same_tables, rename_tac s r s', case_tac r, auto dest: get_Inl get_multipart_Inr list_parts_Inr)+

lemma side_writes [side_intros]:
  "side_step sv (on_meta (create_multipart now m))" "side_step sv (on_meta (delete_multipart i))"
  "0 \<le> p_size p \<Longrightarrow> p_size p \<le> be_max (sv_backend sv) \<Longrightarrow> side_step sv (on_meta (upsert_part p))"
proof -
  have inv: "store_inv s'" if "store_inv s" "run_write now w s = (r, s')" for s s' r w
    using run_write_inv [OF that(1), of now w] that(2) by simp
  show "side_step sv (on_meta (create_multipart now m))"
  proof (rule side_on_meta [where P = "{}"])
    fix s r s' assume i: "store_inv s" and m: "create_multipart now m s = (r, s')"
    then show "buckets s' = buckets s \<and> objects s' = objects s \<and> store_inv s' \<and> set (parts s') \<subseteq> set (parts s) \<union> {}"
      using inv [of s "CreateMultipart m" r s'] create_multipart_Inl [of now m s _ s'] create_multipart_Inr [of now m s _ s']
      by (cases r) (auto simp: tables_eq row_defs)
  qed simp
  show "side_step sv (on_meta (delete_multipart i))"
  proof (rule side_on_meta [where P = "{}"])
    fix s r s' assume i: "store_inv s" and m: "delete_multipart i s = (r, s')"
    then show "buckets s' = buckets s \<and> objects s' = objects s \<and> store_inv s' \<and> set (parts s') \<subseteq> set (parts s) \<union> {}"
      using inv [of s "DeleteMultipart i" r s'] delete_multipart_Inl [of i s _ s'] delete_multipart_Inr [of i s _ s']
      by (cases r) (auto simp: tables_eq row_defs)
  qed simp
  show "side_step sv (on_meta (upsert_part p))" if "0 \<le> p_size p" "p_size p \<le> be_max (sv_backend sv)"
  proof (rule side_on_meta [where P = "{p}"])
    fix s r s' assume i: "store_inv s" and m: "upsert_part p s = (r, s')"
    then show "buckets s' = buckets s \<and> objects s' = objects s \<and> store_inv s' \<and> set (parts s') \<subseteq> set (parts s) \<union> {p}"
      using inv [of s "UpsertPart p" r s'] upsert_part_Inl [of p s _ s'] upsert_part_Inr [of p s _ s'] prt.rows_put [OF i, of p]
      by (cases r) (auto simp: tables_eq put_part_row_def)
  qed (use that in simp)
qed

lemma side_rename [side_intros]: "side_step sv m \<Longrightarrow> side_step sv (rename_err t n m)"
  unfolding rename_err_def by (intro side_intros) (auto intro: side_intros)

section \<open>The operations\<close>

lemma side_create: "side_step sv (svc_create_multipart sv b key)"
  unfolding svc_create_multipart_def new_upload_id_def Let_def by (intro side_intros)

lemma side_upload_part: "0 \<le> sz \<Longrightarrow> side_step sv (svc_upload_part sv uid n sz r)"
  unfolding svc_upload_part_def get_upload_def svc_stage_part_def or_remove_def Let_def
  by (auto intro!: side_intros split: prod.splits option.splits)

lemma side_abort: "side_step sv (svc_abort_multipart uid)"
  unfolding svc_abort_multipart_def get_upload_def by (intro side_intros)

section \<open>Completing, on every outcome\<close>

lemma quiet_open_parts: "quiet_step sv held (open_parts dir rows req fs tot tags)"
proof (induction req arbitrary: fs tot tags)
  case Nil
  show ?case unfolding open_parts.simps(1) by (rule quiet_eret)
next
  case (Cons x req)
  have "quiet_step sv held (open_file n)" for n
    by (auto simp: quiet_step_def open_file_def ebind_def os_do_def quiet_def ciphers_ok_def split: list.splits option.splits)
  then show ?case using Cons.IH by (cases x) (auto intro!: quiet_intros split: option.splits)
qed

lemma open_parts_total:
  assumes "open_parts dir rows req fs tot tags w = (Inr (fs', tot', tags'), w')"
    and "\<forall>p\<in>set rows. 0 \<le> p_size p \<and> p_size p \<le> 2 ^ 38" "0 \<le> tot" "tot + int (length req) * 2 ^ 38 < 2 ^ 63"
  shows "0 \<le> tot' \<and> tot' \<le> tot + int (length req) * 2 ^ 38"
  using assms
proof (induction req arbitrary: fs tot tags w)
  case (Cons x req)
  obtain n t where x: "x = (n, t)" by fastforce
  obtain p d w1 where p: "find (\<lambda>p. p_num p = n) rows = Some p"
    and rest: "open_parts dir rows req (fs @ [d]) (i64 (tot + p_size p)) (tags @ hex_prefix (p_etag p)) w1 = (Inr (fs', tot', tags'), w')"
    using Cons.prems(1) by (auto simp: x ebind_Inr split: if_splits option.splits)
  have "p \<in> set rows" using p unfolding find_Some_iff by (metis nth_mem)
  then have b: "0 \<le> p_size p" "p_size p \<le> 2 ^ 38" using Cons.prems(2) by auto
  have room: "tot + p_size p + int (length req) * 2 ^ 38 \<le> tot + int (length (x # req)) * 2 ^ 38" using b by (simp add: distrib_right)
  moreover have "(0 :: int) \<le> int (length req) * 2 ^ 38" by simp
  ultimately have "0 \<le> tot + p_size p" "tot + p_size p < 2 ^ 63" "tot + p_size p + int (length req) * 2 ^ 38 < 2 ^ 63"
    using b Cons.prems(3,4) by linarith+
  moreover from this have "i64 (tot + p_size p) = tot + p_size p" by (intro i64_id) simp_all
  ultimately show ?case using Cons.IH [OF rest Cons.prems(2)] room by fastforce
qed simp

lemma get_upload_quiet: "quiet_step sv held (get_upload uid)"
  unfolding get_upload_def
  by (intro quiet_intros, rename_tac s r s', case_tac r) (auto dest: get_Inl get_multipart_Inr)

lemma list_parts_quiet: "quiet_step sv held (on_meta (list_parts i))"
  by (intro quiet_intros, rename_tac s r s', case_tac r) (auto dest: get_Inl list_parts_Inr)

lemma parts_ok_tables: "tables (w_meta w') = tables (w_meta w) \<Longrightarrow> parts_ok sv w' = parts_ok sv w"
  by (simp add: parts_ok_def tables_eq)

lemma complete_upload_all:
  assumes "service_laws sv held" "ciphers_ok sv w" "parts_ok sv w" "be_max (sv_backend sv) \<le> 2 ^ 38" "length req \<le> 2 ^ 20"
    and "svc_complete_upload sv m b key ct req w = (res, w')"
  shows "quiet sv held w w' \<and> (\<forall>ob. res = Inr ob \<longrightarrow> o_bucket ob = b \<and> o_key ob = key \<and> o_created ob = zero_time \<and>
    no_message (held (w_blobs w)) (o_msg ob) \<and> (\<exists>p. stored sv (held (w_blobs w')) (bucket_cipher sv (w_keys w')) ob p))"
proof -
  obtain rows w1 where l: "on_meta (list_parts (u_id m)) w = (rows, w1)" by fastforce
  have q1: "quiet sv held w w1" by (rule quiet_stepD [OF list_parts_quiet assms(2) l])
  show ?thesis
  proof (cases rows)
    case (Inl e)
    then show ?thesis using assms(6) l q1 by (auto simp: svc_complete_upload_def ebind_def)
  next
    case rs: (Inr rs)
    have rows: "\<forall>p\<in>set rs. 0 \<le> p_size p \<and> p_size p \<le> 2 ^ 38"
      using l list_parts_Inr [of "u_id m" "w_meta w"] assms(3,4) unfolding rs
      by (fastforce simp: on_meta_def parts_ok_def split: prod.splits)
    obtain op w2 where o: "open_parts (u_staging m) rs req [] 0 [] w1 = (op, w2)" by fastforce
    have q2: "quiet sv held w w2" using quiet_trans [OF q1 quiet_stepD [OF quiet_open_parts quiet_ciphers [OF q1] o]] .
    show ?thesis
    proof (cases op)
      case (Inl e)
      then show ?thesis using assms(6) l o rs q2 by (auto simp: svc_complete_upload_def ebind_def)
    next
      case (Inr x)
      obtain fs tot tags where x: "x = (fs, tot, tags)" by (cases x)
      have "int (length req) * 2 ^ 38 \<le> 2 ^ 20 * 2 ^ 38" using assms(5) by simp
      then have tot: "0 \<le> tot" "tot \<le> 2 ^ 58" using open_parts_total [OF o [unfolded Inr x] rows] by auto
      obtain sp w3 where s: "seal_put (\<lambda>e. e) ''complete-multipart'' sv b key tot (concat fs, Eof) w2 = (sp, w3)" by fastforce
      note seal = seal_put_spec [OF assms(1) quiet_ciphers [OF q2] tot s]
      then have q3: "quiet sv held w w3" using quiet_trans [OF q2] by blast
      show ?thesis
      proof (cases sp)
        case (Inl e)
        then show ?thesis using assms(6) l o rs \<open>op = Inr x\<close> x s q3 by (auto simp: svc_complete_upload_def ebind_def)
      next
        case sr: (Inr y)
        obtain csize base ref plain where y: "y = (csize, base, ref, plain)" by (cases y)
        define ob where "ob = \<lparr>o_bucket = b, o_key = key, o_size = tot, o_ctsize = csize,
          o_etag = hex_encode (sv_md5 sv tags) @ ''-'' @ format_int (int (length req)), o_ctype = ct, o_msg = fst ref,
          o_file = snd ref, o_nonce = base, o_created = zero_time\<rparr>"
        have res: "res = Inr ob" "w' = w3" using assms(6) l o rs \<open>op = Inr x\<close> x s sr y
          by (auto simp: svc_complete_upload_def ebind_def ob_def)
        have keys: "w_keys w2 = w_keys w" "w_keys w3 = w_keys w" using q2 q3 by (simp_all add: quiet_def)
        note seal = seal [THEN conjunct2, rule_format, OF sr [unfolded y], unfolded keys(1)]
        obtain c where c: "bucket_cipher sv (w_keys w) b = Some c" "csize = ciphertext_size c tot"
          "held (w_blobs w3) ref = Some (encrypted c base plain)" "nat tot \<le> length (concat fs)" "plain = take (nat tot) (concat fs)"
          "length base = nonce_len" "no_message (held (w_blobs w2)) (fst ref)" using seal unfolding fst_conv by blast
        have "stored sv (held (w_blobs w3)) (bucket_cipher sv (w_keys w)) ob (take (nat tot) (concat fs))"
          by (rule sealed_row [of sv "w_keys w" ob c]) (use c tot in \<open>simp_all add: ob_def ref_of_def\<close>)
        moreover have "no_message (held (w_blobs w)) (fst ref)" by (rule quiet_no_message [OF q2 c(7)])
        ultimately show ?thesis using q3 keys res by (auto simp: ob_def ref_of_def)
      qed
    qed
  qed
qed

lemma side_kept: "svc_inv sv held w \<Longrightarrow> side sv w w' \<Longrightarrow> keeps sv held w w'"
  by (auto simp: keeps_def homed_def side_def svc_inv_def intro!: keptI)

lemma kept_trans:
  assumes "kept sv held w w1" "kept sv held w1 w2"
    and "set (objects (w_meta w)) \<inter> set (objects (w_meta w2)) \<subseteq> set (objects (w_meta w1))"
  shows "kept sv held w w2"
  using assms unfolding kept_def by blast

text \<open>The row that \<^verbatim>\<open>CompleteMultipart\<close> writes, if it gets that far.\<close>

lemma record_all:
  assumes "service_laws sv held" "svc_inv sv held w" "svc_record wrap sv ob w = (res, w')" "o_created ob = zero_time"
    and "o_bucket ob = b" "o_key ob = key"
    and "stored sv (held (w_blobs w)) (bucket_cipher sv (w_keys w)) ob p" "\<forall>x\<in>set (objects (w_meta w)). o_msg x \<noteq> o_msg ob"
  shows "kept sv held w w' \<and> (find_bucket b (w_meta w) \<noteq> None \<longrightarrow> homed w \<longrightarrow> homed w') \<and> parts (w_meta w') = parts (w_meta w) \<and>
    (\<forall>i. i \<noteq> ObjId b key \<longrightarrow> find_object i (w_meta w') = find_object i (w_meta w))"
proof -
  note cases = put_record_cases [OF assms(1,3,4)]
  have "kept sv held w w'" by (rule put_record_kept [OF assms(1-4,7,8)])
  moreover have "homed w'" if "find_bucket b (w_meta w) \<noteq> None" "homed w"
    using put_record_keeps [OF assms(1-4,7,8)] that assms(5) by (simp add: keeps_def)
  moreover have "parts (w_meta w') = parts (w_meta w) \<and>
    (\<forall>i. i \<noteq> ObjId b key \<longrightarrow> find_object i (w_meta w') = find_object i (w_meta w))"
  proof (cases res)
    case (Inl e)
    then have t: "tables (w_meta w') = tables (w_meta w)" using cases by simp
    then show ?thesis using tables_find(2) [OF t] by (simp add: tables_eq)
  next
    case (Inr row)
    then have t: "tables (w_meta w') = tables (put_object_row row (w_meta w))" and id: "obj_id row = ObjId b key"
      using cases assms(5,6) by (simp_all add: obj_id_def)
    then show ?thesis using tables_find(2) [OF t] obj.lookup_put_other [of _ row "w_meta w"]
      by (auto simp: tables_eq put_object_row_def)
  qed
  ultimately show ?thesis by blast
qed

lemma complete_multipart_all:
  assumes "service_laws sv held" "svc_inv sv held w" "parts_ok sv w" "be_max (sv_backend sv) \<le> 2 ^ 38" "length req \<le> 2 ^ 20"
    and "svc_complete_multipart sv b key uid req ct w = (res, w')"
  shows "kept sv held w w' \<and> (find_bucket b (w_meta w) \<noteq> None \<longrightarrow> homed w \<longrightarrow> homed w') \<and> parts_ok sv w' \<and>
    (\<forall>i. i \<noteq> ObjId b key \<longrightarrow> find_object i (w_meta w') = find_object i (w_meta w))"
proof -
  have quiet: ?thesis if q: "quiet sv held w w'"
  proof -
    have t: "tables (w_meta w') = tables (w_meta w)" using q by (simp add: quiet_def)
    show ?thesis using quiet_keeps [OF assms(2) q] tables_find(2) [OF t] parts_ok_tables [OF t] assms(3) by (simp add: keeps_def)
  qed
  obtain g w1 where g: "get_upload uid w = (g, w1)" by fastforce
  have q1: "quiet sv held w w1" by (rule quiet_stepD [OF get_upload_quiet svc_inv_ciphers [OF assms(2)] g])
  show ?thesis
  proof (cases "(\<exists>e. g = Inl e) \<or> (\<exists>m. g = Inr m \<and> (u_bucket m \<noteq> b \<or> u_key m \<noteq> key))")
    case True
    then have "w' = w1" using assms(6) g by (auto simp: svc_complete_multipart_def ebind_def split: if_splits)
    then show ?thesis using quiet q1 by blast
  next
    case False
    then obtain m where m: "g = Inr m" "u_bucket m = b" "u_key m = key" by (cases g) auto
    have p1: "parts_ok sv w1" using q1 assms(3) parts_ok_tables [of w1 w] by (simp add: quiet_def)
    obtain c w2 where c: "svc_complete_upload sv m b key ct req w1 = (c, w2)" by fastforce
    note cu = complete_upload_all [OF assms(1) quiet_ciphers [OF q1] p1 assms(4,5) c]
    then have q2: "quiet sv held w w2" using quiet_trans [OF q1] by blast
    have t2: "tables (w_meta w2) = tables (w_meta w)" using q2 by (simp add: quiet_def)
    show ?thesis
    proof (cases c)
      case (Inl e)
      then have "w' = w2" using assms(6) g m c by (auto simp: svc_complete_multipart_def ebind_def)
      then show ?thesis using quiet q2 by blast
    next
      case (Inr ob)
      have inv2: "svc_inv sv held w2" by (rule quiet_inv [OF assms(2) q2])
      obtain p where ob: "o_bucket ob = b" "o_key ob = key" "o_created ob = zero_time" "no_message (held (w_blobs w1)) (o_msg ob)"
        "stored sv (held (w_blobs w2)) (bucket_cipher sv (w_keys w2)) ob p" using cu Inr by blast
      have refs: "\<forall>x\<in>set (objects (w_meta w2)). o_msg x \<noteq> o_msg ob"
      proof
        fix x assume "x \<in> set (objects (w_meta w2))"
        then have "x \<in> set (objects (w_meta w1))" using q1 q2 by (simp add: quiet_def tables_eq)
        then have "held (w_blobs w1) (ref_of x) \<noteq> None" using quiet_inv [OF assms(2) q1] by (auto simp: svc_inv_def rows_ok_def stored_def)
        then show "o_msg x \<noteq> o_msg ob" using ob(4) no_messageD(1) by (fastforce simp: ref_of_def)
      qed
      obtain r w3 where r: "svc_record (\<lambda>e. e) sv ob w2 = (r, w3)" by fastforce
      note rec = record_all [OF assms(1) inv2 r ob(3,1,2,5) refs]
      have inv3: "svc_inv sv held w3" "parts_ok sv w3" using rec parts_ok_tables [OF t2] assms(3)
        by (simp_all add: kept_def parts_ok_def)
      have "side_step sv (ebind (remove_all (u_staging m)) (\<lambda>_. ebind (attempt (on_meta (delete_multipart uid))) (\<lambda>_. eret row)))" for row :: object
        by (intro side_intros)
      note clean = side_stepD [OF this _ inv3(2), of _ res w']
      have s: "side sv w3 w'"
        using assms(6) g m c Inr r clean inv3 by (cases r) (auto simp: svc_complete_multipart_def ebind_def svc_inv_def side_def)
      note k3 = side_kept [OF inv3(1) s]
      have obs: "objects (w_meta w') = objects (w_meta w3)" "parts_ok sv w'" using s by (simp_all add: side_def)
      have "kept sv held w w3"
        by (rule kept_trans [of sv held w w2]) (use quiet_keeps [OF assms(2) q2] rec t2 in \<open>auto simp: keeps_def tables_eq\<close>)
      then have "kept sv held w w'" by (rule kept_trans) (use k3 obs in \<open>auto simp: keeps_def\<close>)
      moreover have "homed w'" if "find_bucket b (w_meta w) \<noteq> None" "homed w"
        using rec k3 that quiet_homed [OF q2] tables_find(1) [OF t2] by (simp add: keeps_def)
      moreover have "find_object i (w_meta w') = find_object i (w_meta w)" if "i \<noteq> ObjId b key" for i
        using rec that obs tables_find(2) [OF t2] by (simp add: find_object_def)
      ultimately show ?thesis using obs by blast
    qed
  qed
qed

end
