(* ===== verification/Requests.thy ===== *)
theory Requests
  imports MultipartRuns FrameProperties
begin

text \<open>
  Sequences of requests to the business layer, and the in-memory backend the witnesses use.
\<close>

section \<open>Requests\<close>

datatype svc_op =
    PutOp string string string int reader
  | DeleteOp string string
  | GetOp string string
  | RangeOp string string int int
  | HeadOp string string
  | CreateOp string
  | DropOp string
  | InitiateOp string string
  | PartOp string int int reader
  | CompleteOp string string string "(int \<times> string) list" string
  | AbortOp string

fun run_op :: "'b service \<Rightarrow> svc_op \<Rightarrow> 'b world \<Rightarrow> 'b world" where
  "run_op sv (PutOp b key ct sz r) w = snd (svc_put_object sv b key ct sz r w)"
| "run_op sv (DeleteOp b key) w = snd (svc_delete_object sv b key w)"
| "run_op sv (GetOp b key) w = snd (svc_get_object sv b key w)"
| "run_op sv (RangeOp b key s e) w = snd (svc_get_object_range sv b key s e w)"
| "run_op sv (HeadOp b key) w = snd (svc_head_object b key w)"
| "run_op sv (CreateOp b) w = snd (svc_create_bucket sv b w)"
| "run_op sv (DropOp b) w = snd (svc_delete_bucket b w)"
| "run_op sv (InitiateOp b key) w = snd (svc_create_multipart sv b key w)"
| "run_op sv (PartOp uid n sz r) w = snd (svc_upload_part sv uid n sz r w)"
| "run_op sv (CompleteOp b key uid req ct) w = snd (svc_complete_multipart sv b key uid req ct w)"
| "run_op sv (AbortOp uid) w = snd (svc_abort_multipart uid w)"

text \<open>Declared sizes below 2^58 and at most 2^20 parts; the requests that write the object
  \<open>(b, key)\<close>; the backend's ceiling.\<close>

fun valid_op :: "svc_op \<Rightarrow> bool" where
  "valid_op (PutOp b key ct sz r) = (0 \<le> sz \<and> sz \<le> 2 ^ 58)"
| "valid_op (PartOp uid n sz r) = (0 \<le> sz)"
| "valid_op (CompleteOp b key uid req ct) = (length req \<le> 2 ^ 20)"
| "valid_op op = True"

fun writes :: "string \<Rightarrow> string \<Rightarrow> svc_op \<Rightarrow> bool" where
  "writes b key (PutOp b' key' ct sz r) = (b' = b \<and> key' = key)"
| "writes b key (DeleteOp b' key') = (b' = b \<and> key' = key)"
| "writes b key (CompleteOp b' key' uid req ct) = (b' = b \<and> key' = key)"
| "writes b key op = False"

fun completes :: "svc_op \<Rightarrow> bool" where
  "completes (CompleteOp b key uid req ct) = True"
| "completes op = False"

definition small_backend :: "'b service \<Rightarrow> bool" where
  "small_backend sv \<longleftrightarrow> be_max (sv_backend sv) \<le> 2 ^ 38"

definition world_inv :: "'b service \<Rightarrow> ('b \<Rightarrow> blobref \<Rightarrow> bytes option) \<Rightarrow> 'b world \<Rightarrow> bool" where
  "world_inv sv held w \<longleftrightarrow> svc_inv sv held w \<and> parts_ok sv w"

lemma create_bucket_objects:
  assumes "svc_create_bucket sv b w = (res, w')" "ks_inv (w_keys w)"
  shows "objects (w_meta w') = objects (w_meta w) \<and> parts (w_meta w') = parts (w_meta w)"
proof -
  obtain k w1 where k: "create_key b w = (k, w1)" by fastforce
  have ck: "w_meta w1 = w_meta w" "ks_inv (w_keys w1)" using create_key_cases [OF k assms(2)] by auto
  obtain v s where v: "create_bucket (sv_now sv) b b (w_meta w1) = (v, s)" by fastforce
  have s: "objects s = objects (w_meta w) \<and> parts s = parts (w_meta w)"
    using create_bucket_Inl [of "sv_now sv" b b "w_meta w1" _ s] create_bucket_Inr [of "sv_now sv" b b "w_meta w1" _ s] v ck
    by (cases v) (auto simp: tables_eq row_defs)
  obtain r w2 where r: "attempt (on_keys (keys_remove b)) (w1\<lparr>w_meta := s\<rparr>) = (r, w2)" by fastforce
  have "w_meta w2 = s" using remove_key_cases [OF r] ck by simp
  then show ?thesis using assms(1) k v r s ck
    by (auto simp: svc_create_bucket_def ecatch_def ebind_def on_meta_def split: sum.splits if_splits)
qed

lemma delete_bucket_objects:
  assumes "svc_delete_bucket b w = (res, w')" "ks_inv (w_keys w)"
  shows "objects (w_meta w') = objects (w_meta w) \<and> parts (w_meta w') = parts (w_meta w)"
proof -
  obtain v s where v: "delete_bucket b (w_meta w) = (v, s)" by fastforce
  have s: "objects s = objects (w_meta w) \<and> parts s = parts (w_meta w)"
    using delete_bucket_Inl [of b "w_meta w" _ s] delete_bucket_Inr [of b "w_meta w" _ s] v
    by (cases v) (auto simp: tables_eq row_defs)
  obtain r w2 where r: "attempt (on_keys (keys_remove b)) (w\<lparr>w_meta := s\<rparr>) = (r, w2)" by fastforce
  have "w_meta w2 = s" using remove_key_cases [OF r] assms(2) by simp
  then show ?thesis using assms(1) v r s
    by (auto simp: svc_delete_bucket_def ecatch_def ebind_def on_meta_def forget_cipher_def split: sum.splits if_splits)
qed

lemma quiet_op:
  assumes "svc_inv sv held w" "quiet_step sv held m"
  shows "keeps sv held w (snd (m w))" "find_object i (w_meta (snd (m w))) = find_object i (w_meta w)"
    "parts_ok sv (snd (m w)) = parts_ok sv w"
proof -
  have q: "quiet sv held w (snd (m w))"
    by (rule quiet_stepD [OF assms(2) svc_inv_ciphers [OF assms(1)]]) (rule surjective_pairing)
  then have t: "tables (w_meta (snd (m w))) = tables (w_meta w)" unfolding quiet_def by blast
  show "keeps sv held w (snd (m w))" by (rule quiet_keeps [OF assms(1) q])
  show "find_object i (w_meta (snd (m w))) = find_object i (w_meta w)" by (rule tables_find [OF t])
  show "parts_ok sv (snd (m w)) = parts_ok sv w" by (rule parts_ok_tables [OF t])
qed

lemma side_op:
  assumes "svc_inv sv held w" "parts_ok sv w" "side_step sv m"
  shows "keeps sv held w (snd (m w))" "find_object i (w_meta (snd (m w))) = find_object i (w_meta w)"
    "parts_ok sv (snd (m w))"
proof -
  have "store_inv (w_meta w)" using assms(1) by (simp add: svc_inv_def)
  then have s: "side sv w (snd (m w))" by (rule side_stepD [OF assms(3) _ assms(2)]) (rule surjective_pairing)
  show "keeps sv held w (snd (m w))" by (rule side_kept [OF assms(1) s])
  show "find_object i (w_meta (snd (m w))) = find_object i (w_meta w)" "parts_ok sv (snd (m w))"
    using s by (simp_all add: side_def find_object_def)
qed

lemma objects_find: "objects s' = objects s \<Longrightarrow> find_object i s' = find_object i s"
  by (simp add: find_object_def)

lemma parts_ok_parts: "parts (w_meta w') = parts (w_meta w) \<Longrightarrow> parts_ok sv w' = parts_ok sv w"
  by (simp add: parts_ok_def)

lemma put_object_step:
  assumes "service_laws sv held" "svc_inv sv held w" "0 \<le> sz" "sz \<le> 2 ^ 58"
  shows "keeps sv held w (run_op sv (PutOp b' key' ct sz r) w) \<and>
    parts (w_meta (run_op sv (PutOp b' key' ct sz r) w)) = parts (w_meta w) \<and>
    (i \<noteq> ObjId b' key' \<longrightarrow> find_object i (w_meta (run_op sv (PutOp b' key' ct sz r) w)) = find_object i (w_meta w))"
proof -
  obtain res w' where p: "svc_put_object sv b' key' ct sz r w = (res, w')" by fastforce
  note pc = put_object_cases [OF assms p]
  show ?thesis
  proof (cases res)
    case (Inl e)
    then have t: "tables (w_meta w') = tables (w_meta w)" using pc by simp
    then show ?thesis using tables_find(2) [OF t] p pc by (simp add: tables_eq)
  next
    case (Inr row)
    then have row: "obj_id row = ObjId b' key'" "tables (w_meta w') = tables (put_object_row row (w_meta w))" using pc by simp_all
    show ?thesis using tables_find(2) [OF row(2)] obj.lookup_put_other [of i row "w_meta w"] row p pc
      by (auto simp: tables_eq put_object_row_def)
  qed
qed

lemma delete_object_step:
  assumes "service_laws sv held" "svc_inv sv held w"
  shows "keeps sv held w (run_op sv (DeleteOp b' key') w) \<and>
    parts (w_meta (run_op sv (DeleteOp b' key') w)) = parts (w_meta w) \<and>
    (i \<noteq> ObjId b' key' \<longrightarrow> find_object i (w_meta (run_op sv (DeleteOp b' key') w)) = find_object i (w_meta w))"
proof -
  obtain res w' where p: "svc_delete_object sv b' key' w = (res, w')" by fastforce
  have "tables (w_meta w') = tables (w_meta w) \<or> tables (w_meta w') = tables (del_object_row (ObjId b' key') (w_meta w))"
    using delete_object_cases [OF assms(1) p] by blast
  then have "parts (w_meta w') = parts (w_meta w)" "i \<noteq> ObjId b' key' \<longrightarrow> find_object i (w_meta w') = find_object i (w_meta w)"
    using obj.lookup_del [of i "ObjId b' key'" "w_meta w"]
    by (auto dest: tables_find(2) [where i = i]) (auto simp: tables_eq del_object_row_def)
  then show ?thesis using p delete_object_keeps [OF assms p] by simp
qed

lemma run_op_step:
  assumes "service_laws sv held" "small_backend sv" "world_inv sv held w" "valid_op op"
  shows "kept sv held w (run_op sv op w) \<and> parts_ok sv (run_op sv op w) \<and>
    (\<not> completes op \<longrightarrow> homed w \<longrightarrow> homed (run_op sv op w)) \<and>
    (\<not> writes b key op \<longrightarrow> find_object (ObjId b key) (w_meta (run_op sv op w)) = find_object (ObjId b key) (w_meta w))"
proof -
  have inv: "svc_inv sv held w" "parts_ok sv w" using assms(3) by (simp_all add: world_inv_def)
  have ks: "ks_inv (w_keys w)" using inv by (simp add: svc_inv_def)
  note quiet = quiet_op [OF inv(1)] and side = side_op [OF inv]
  show ?thesis
  proof (cases op)
    case (PutOp b' key' ct sz r)
    then have sz: "0 \<le> sz" "sz \<le> 2 ^ 58" using assms(4) by simp_all
    note st = put_object_step [OF assms(1) inv(1) sz, where i = "ObjId b key" and b' = b' and key' = key' and ct = ct and r = r,
        folded PutOp]
    have "parts_ok sv (run_op sv op w)" using st inv(2) parts_ok_parts [of "run_op sv op w" w] by blast
    moreover have "find_object (ObjId b key) (w_meta (run_op sv op w)) = find_object (ObjId b key) (w_meta w)"
      if "\<not> writes b key op" by (rule st [THEN conjunct2, THEN conjunct2, rule_format]) (use that in \<open>auto simp: PutOp\<close>)
    ultimately show ?thesis using st [THEN conjunct1] by (simp add: keeps_def)
  next
    case (DeleteOp b' key')
    note st = delete_object_step [OF assms(1) inv(1), where i = "ObjId b key" and b' = b' and key' = key', folded DeleteOp]
    have "parts_ok sv (run_op sv op w)" using st inv(2) parts_ok_parts [of "run_op sv op w" w] by blast
    moreover have "find_object (ObjId b key) (w_meta (run_op sv op w)) = find_object (ObjId b key) (w_meta w)"
      if "\<not> writes b key op" by (rule st [THEN conjunct2, THEN conjunct2, rule_format]) (use that in \<open>auto simp: DeleteOp\<close>)
    ultimately show ?thesis using st [THEN conjunct1] by (simp add: keeps_def)
  next
    case (CreateOp b')
    obtain res w' where p: "svc_create_bucket sv b' w = (res, w')" by fastforce
    show ?thesis using CreateOp p create_bucket_keeps [OF inv(1) p] create_bucket_objects [OF p ks] inv(2) parts_ok_parts [of w' w]
      objects_find [of "w_meta w'" "w_meta w"] by (simp add: keeps_def)
  next
    case (DropOp b')
    obtain res w' where p: "svc_delete_bucket b' w = (res, w')" by fastforce
    show ?thesis using DropOp p delete_bucket_keeps [OF inv(1) p] delete_bucket_objects [OF p ks] inv(2) parts_ok_parts [of w' w]
      objects_find [of "w_meta w'" "w_meta w"] by (simp add: keeps_def)
  next
    case (CompleteOp b' key' uid req ct)
    obtain res w' where p: "svc_complete_multipart sv b' key' uid req ct w = (res, w')" by fastforce
    have "be_max (sv_backend sv) \<le> 2 ^ 38" "length req \<le> 2 ^ 20" using assms(2,4) CompleteOp by (simp_all add: small_backend_def)
    then show ?thesis using CompleteOp p complete_multipart_all [OF assms(1) inv _ _ p] by auto
  next
    case (InitiateOp b' key')
    then show ?thesis using side [OF side_create] by (simp add: keeps_def)
  next
    case (PartOp uid n sz r)
    then show ?thesis using side [OF side_upload_part] assms(4) by (simp add: keeps_def)
  next
    case (AbortOp uid)
    then show ?thesis using side [OF side_abort] by (simp add: keeps_def)
  qed (use inv(2) in \<open>simp_all add: keeps_def quiet(2,3) quiet(1) [unfolded keeps_def]
        quiet [OF quiet_get(1) [OF assms(1)]] quiet [OF quiet_get(2) [OF assms(1)]] quiet [OF quiet_head]
        quiet(1) [OF quiet_get(1) [OF assms(1)], unfolded keeps_def] quiet(1) [OF quiet_get(2) [OF assms(1)], unfolded keeps_def]
        quiet(1) [OF quiet_head, unfolded keeps_def]\<close>)
qed

lemma run_ops_inv:
  "service_laws sv held \<Longrightarrow> small_backend sv \<Longrightarrow> world_inv sv held w \<Longrightarrow> \<forall>op\<in>set ops. valid_op op \<Longrightarrow>
   world_inv sv held (fold (run_op sv) ops w) \<and> ((\<forall>op\<in>set ops. \<not> completes op) \<longrightarrow> homed w \<longrightarrow> homed (fold (run_op sv) ops w))"
proof (induction ops arbitrary: w)
  case (Cons op ops)
  note step = run_op_step [OF Cons.prems(1-3), of op]
  then have "world_inv sv held (run_op sv op w)" using Cons.prems(4) by (simp add: kept_def world_inv_def)
  note ih = Cons.IH [OF Cons.prems(1,2) this]
  show ?case using ih step Cons.prems(4) by simp
qed simp

lemma run_ops_row:
  assumes "service_laws sv held" "small_backend sv" "world_inv sv held w" "\<forall>op\<in>set ops. valid_op op \<and> \<not> writes b key op"
    and "find_object (ObjId b key) (w_meta w) = Some ob" "stored sv (held (w_blobs w)) (bucket_cipher sv (w_keys w)) ob p"
    and "w' = fold (run_op sv) ops w"
  shows "svc_inv sv held w' \<and> find_object (ObjId b key) (w_meta w') = Some ob \<and>
    stored sv (held (w_blobs w')) (bucket_cipher sv (w_keys w')) ob p"
  using assms
proof (induction ops arbitrary: w)
  case (Cons op ops)
  let ?w = "run_op sv op w"
  have step: "kept sv held w ?w" "parts_ok sv ?w" "find_object (ObjId b key) (w_meta ?w) = Some ob"
    using run_op_step [OF Cons.prems(1-3), of op b key] Cons.prems(4,5) by auto
  have inv: "world_inv sv held ?w" using step(1,2) by (simp add: kept_def world_inv_def)
  have "ob \<in> set (objects (w_meta w))" "ob \<in> set (objects (w_meta ?w))"
    using obj.lookup_rows [of "w_meta w"] obj.lookup_rows [of "w_meta ?w"] Cons.prems(3,5) inv step(3)
    by (auto simp: world_inv_def svc_inv_def)
  then have st: "stored sv (held (w_blobs ?w)) (bucket_cipher sv (w_keys ?w)) ob p"
    using step(1) Cons.prems(6) by (simp add: kept_def)
  show ?case using Cons.IH [OF Cons.prems(1,2) inv _ step(3) st] Cons.prems(4,7) by simp
qed (simp add: world_inv_def)

section \<open>A backend in memory\<close>

type_synonym mem = "bytes option list"

definition mem_held :: "mem \<Rightarrow> blobref \<Rightarrow> bytes option" where
  "mem_held st ref = (if 0 \<le> fst ref \<and> nat (fst ref) < length st \<and> snd ref = [] then st ! nat (fst ref) else None)"

definition mem_put :: "string \<Rightarrow> int \<Rightarrow> encrypter \<Rightarrow> mem \<Rightarrow> (goerr + blobref) \<times> encrypter \<times> mem" where
  "mem_put name sz e st =
     (let d = fst (enc_pend e) in
      if sz \<le> int (length d)
      then (Inr (int (length st), []), enc_after (replicate (nat sz) 1) e, st @ [Some (take (nat sz) d)])
      else (Inl IoUnexpectedEOF, e, st))"

definition mem_backend :: "mem backend" where
  "mem_backend = \<lparr>be_max = 1000, be_put = mem_put,
     be_get = (\<lambda>ref st. (case mem_held st ref of None \<Rightarrow> Inl ErrBlobNotFound | Some d \<Rightarrow> Inr (d, Eof), st)),
     be_delete = (\<lambda>ref st. (None, if 0 \<le> fst ref \<and> snd ref = [] then st[nat (fst ref) := None] else st)),
     be_exists = (\<lambda>ref st. (Inr (mem_held st ref \<noteq> None), st))\<rparr>"

lemma enc_after_ones:
  "enc_ok e \<Longrightarrow> k \<le> length (fst (enc_pend e)) \<Longrightarrow> fst (enc_pend (enc_after (replicate k 1) e)) = drop k (fst (enc_pend e))"
proof (induction k arbitrary: e)
  case (Suc k)
  obtain bs err e' where r: "enc_rd 1 e = (bs, err, e')" by (cases "enc_rd 1 e") auto
  note c = enc_rd_cases [OF Suc.prems(1) _ r]
  have "length bs = 1" using c Suc.prems(2) by (cases err) (auto simp: le_Suc_eq)
  then obtain x where "fst (enc_pend e) = x # fst (enc_pend e')" using c by (auto simp: length_Suc_conv)
  then show ?case using Suc c r by simp
qed simp

lemma mem_laws: "backend_laws mem_backend mem_held"
proof -
  have "put_law mem_backend mem_held" unfolding put_law_def
  proof (intro allI impI)
    fix name sz e st r e' st'
    assume e: "enc_ok e" and p: "be_put mem_backend name sz e st = (r, e', st')"
    let ?d = "fst (enc_pend e)"
    have held: "mem_held (st @ [Some x]) = (mem_held st)((int (length st), []) \<mapsto> x)" for x
      by (auto simp: mem_held_def fun_eq_iff nth_append)
    show "(\<exists>ns. (\<forall>n\<in>set ns. 0 < n) \<and> e' = enc_after ns e) \<and>
     (case r of
        Inl err \<Rightarrow> \<exists>ref d. mem_held st' = mem_held st \<or> mem_held st ref = None \<and> mem_held st' = (mem_held st)(ref \<mapsto> d)
      | Inr ref \<Rightarrow> no_message (mem_held st) (fst ref) \<and> sz \<le> int (length ?d) \<and>
          fst (enc_pend e') = drop (nat sz) ?d \<and> mem_held st' = (mem_held st)(ref \<mapsto> take (nat sz) ?d))"
    proof (cases "sz \<le> int (length ?d)")
      case True
      then have "r = Inr (int (length st), [])" "e' = enc_after (replicate (nat sz) 1) e" "st' = st @ [Some (take (nat sz) ?d)]"
        using p by (simp_all add: mem_backend_def mem_put_def Let_def)
      then show ?thesis using True enc_after_ones [OF e, of "nat sz"] held
        by (intro conjI exI [of _ "replicate (nat sz) 1"]) (simp_all add: mem_held_def no_message_def)
    next
      case False
      then show ?thesis using p by (auto simp: mem_backend_def mem_put_def Let_def intro!: exI [of _ "[]"])
    qed
  qed
  moreover have "get_law mem_backend mem_held" by (auto simp: get_law_def mem_backend_def split: option.splits)
  moreover have "delete_law mem_backend mem_held"
    by (auto simp: delete_law_def mem_backend_def mem_held_def nth_list_update)
  ultimately show ?thesis by (simp add: backend_laws_def)
qed

definition mem_service :: "mem service" where
  "mem_service = \<lparr>sv_backend = mem_backend, sv_cache = None, sv_gcm = \<lambda>k. tagged_aead, sv_md5 = \<lambda>d. d,
     sv_staging = ''staging'', sv_frame_size = 4, sv_now = 1000, sv_temp = \<lambda>n. ''put-'' @ replicate n CHR ''x'' @ ''.tmp''\<rparr>"

definition mem_world :: "mem world" where
  "mem_world = \<lparr>w_meta = empty_store,
     w_keys = \<lparr>ks_path = ''keys'', ks_keys = [], ks_disk = \<lparr>d_files = Map.empty, d_faults = [],
       d_tmp = (\<lambda>n. ''tmp'' @ replicate n CHR ''x''), d_next = 0\<rparr>\<rparr>,
     w_blobs = [], w_ciphers = Map.empty, w_rand = (\<lambda>n. Inr (replicate 32 7)), w_draws = 0,
     w_files = Map.empty, w_os = [], w_temps = 0\<rparr>"

lemma mem_service_laws: "service_laws mem_service mem_held"
  by (simp add: service_laws_def mem_service_def mem_laws)

lemma mem_small: "small_backend mem_service"
  by (simp add: small_backend_def mem_service_def mem_backend_def)

lemma mem_world_inv: "world_inv mem_service mem_held mem_world" "homed mem_world"
  by (simp_all add: world_inv_def parts_ok_def homed_def svc_inv_def mem_world_def empty_store_def store_inv_def t_inv_def
      ks_inv_def rows_ok_def)

text \<open>The loop of the encrypter is evaluated by its defining equation.\<close>

declare enc_loop.simps [code]

definition succeeds :: "(goerr + 'a) \<times> 's \<Rightarrow> bool" where
  "succeeds r = (case fst r of Inl e \<Rightarrow> False | Inr x \<Rightarrow> True)"

lemma succeedsE: "succeeds r \<Longrightarrow> (\<And>x. r = (Inr x, snd r) \<Longrightarrow> P) \<Longrightarrow> P"
  by (cases r; cases "fst r") (auto simp: succeeds_def)

abbreviation "demo1 \<equiv> run_op mem_service (CreateOp ''abc'') mem_world"
abbreviation "demo_put \<equiv> PutOp ''abc'' ''k'' ''t'' 5 ([1, 2, 3, 4, 5, 6], Eof)"
abbreviation "demo2 \<equiv> run_op mem_service demo_put demo1"
abbreviation "demo_between \<equiv> [PutOp ''abc'' ''l'' ''t'' 1 ([7], Eof), DropOp ''abc'', DeleteOp ''abc'' ''l'']"

lemma demo1_inv: "world_inv mem_service mem_held demo1"
  using run_ops_inv [OF mem_service_laws mem_small mem_world_inv(1), of "[CreateOp ''abc'']"] by simp

lemma demo_put_ok: "succeeds (svc_put_object mem_service ''abc'' ''k'' ''t'' 5 ([1, 2, 3, 4, 5, 6], Eof) demo1)"
  by code_simp

end
