(* ===== verification/ServiceClaims.thy ===== *)
theory ServiceClaims
  imports Requests
begin

text \<open>
  The properties of the business layer.
\<close>

section \<open>Properties\<close>

text \<open>
  C23: the service invariant.  Whatever requests run, multipart uploads included, and whatever
  fails on the way in the database, the key file, the backend, the staging directory or the random
  source: every object row describes a blob that the backend holds, sealed under the key of its
  bucket, of the size recorded; no two rows share a blob; every cached cipher is that of the
  bucket's key; and recorded part sizes respect the ceiling.  As long as no multipart upload is
  completed, every object's bucket exists.
\<close>

theorem service_invariant:
  assumes "service_laws sv held" "small_backend sv" "world_inv sv held w" "\<forall>op\<in>set ops. valid_op op"
  shows "world_inv sv held (fold (run_op sv) ops w) \<and>
    ((\<forall>op\<in>set ops. \<not> completes op) \<longrightarrow> homed w \<longrightarrow> homed (fold (run_op sv) ops w))"
  by (rule run_ops_inv [OF assms])

theorem service_invariant_witness:
  "homed (fold (run_op mem_service) [CreateOp ''abc'', InitiateOp ''abc'' ''m'', demo_put, DropOp ''abc''] mem_world)"
  using service_invariant [OF mem_service_laws mem_small mem_world_inv(1),
      of "[CreateOp ''abc'', InitiateOp ''abc'' ''m'', demo_put, DropOp ''abc'']"] mem_world_inv(2)
  by simp

text \<open>
  C24: read your writes.  After a successful \<^verbatim>\<open>PutObject\<close>, and any requests that do not write
  the same key (deleting the bucket included), a successful \<^verbatim>\<open>GetObject\<close> returns the row that
  \<^verbatim>\<open>PutObject\<close> returned and a stream which, read with any buffers, is exactly the declared
  number of bytes of the body and then a clean end of file, unless the download itself breaks off.
\<close>

theorem read_your_writes:
  assumes "service_laws sv held" "small_backend sv" "world_inv sv held w" "0 \<le> sz" "sz \<le> 2 ^ 58"
    and "svc_put_object sv b key ct sz r w = (Inr row, w1)"
    and "\<forall>op\<in>set ops. valid_op op \<and> \<not> writes b key op"
    and "svc_get_object sv b key (fold (run_op sv) ops w1) = (Inr (ob, d), w2)" "snd (d_src d) = Eof"
    and "\<forall>n\<in>set ns. 0 < n" "nat sz < length ns"
  shows "ob = row \<and> o_etag row = hex_encode (sv_md5 sv (take (nat sz) (fst r))) \<and> nat sz \<le> length (fst r) \<and>
    read_sizes dec_read ns d = (take (nat sz) (fst r), Some IoEOF)"
proof -
  have "svc_inv sv held w" using assms(3) by (simp add: world_inv_def)
  note put = put_object_cases [OF assms(1) this assms(4-6)]
  have inv: "world_inv sv held w1"
    using run_op_step [OF assms(1-3), of "PutOp b key ct sz r"] assms(4-6) by (simp add: world_inv_def kept_def)
  have t: "tables (w_meta w1) = tables (put_object_row row (w_meta w))" "obj_id row = ObjId b key" using put by simp_all
  have row: "find_object (ObjId b key) (w_meta w1) = Some row"
    using tables_find(2) [OF t(1)] obj.lookup_put_same [of row "w_meta w"] t(2) by simp
  have "stored sv (held (w_blobs w1)) (bucket_cipher sv (w_keys w1)) row (take (nat sz) (fst r))" using put by simp
  note later = run_ops_row [OF assms(1,2) inv assms(7) row this refl]
  have get: "ob = row" "dec_ok d" "dec_pend d = (take (nat sz) (fst r), Eof)"
    using get_object_spec [OF assms(1) _ _ _ assms(8), of row "take (nat sz) (fst r)"] later assms(9) by blast+
  have "read_sizes dec_read ns d = (take (nat sz) (fst r), Some IoEOF)"
    using dec.read_sizes_all [OF get(2) assms(10)] get(3) assms(11) by simp
  then show ?thesis using get(1) put by simp
qed

theorem read_your_writes_witness:
  "\<exists>ob d w2. svc_get_object mem_service ''abc'' ''k'' (fold (run_op mem_service) demo_between demo2) = (Inr (ob, d), w2) \<and>
    read_sizes dec_read [1, 2, 3, 4, 5, 6] d = ([1, 2, 3, 4, 5], Some IoEOF)"
proof -
  let ?get = "svc_get_object mem_service ''abc'' ''k'' (fold (run_op mem_service) demo_between demo2)"
  have g: "(case fst ?get of Inl e \<Rightarrow> False | Inr (ob, d) \<Rightarrow> snd (d_src d) = Eof)" by code_simp
  obtain x w2 where x: "?get = (x, w2)" by fastforce
  then obtain ob d where get: "?get = (Inr (ob, d), w2)" "snd (d_src d) = Eof" using g by (auto split: sum.splits)
  obtain row where put: "svc_put_object mem_service ''abc'' ''k'' ''t'' 5 ([1, 2, 3, 4, 5, 6], Eof) demo1 = (Inr row, demo2)"
    using demo_put_ok by (rule succeedsE) simp
  have "\<forall>op\<in>set demo_between. valid_op op \<and> \<not> writes ''abc'' ''k'' op" by simp
  from read_your_writes [OF mem_service_laws mem_small demo1_inv _ _ put this get, of "[1, 2, 3, 4, 5, 6]"] get(1)
  show ?thesis by auto
qed

text \<open>
  C25: ranges.  After a successful \<^verbatim>\<open>PutObject\<close> and any requests that do not write the key, a
  successful \<^verbatim>\<open>GetObjectRange\<close> yields exactly the bytes \<open>start..stop\<close> of the body, with no error at
  the end of the pipe, and only for ranges inside the object.
\<close>

theorem range_of_written_object:
  assumes "service_laws sv held" "small_backend sv" "world_inv sv held w" "0 \<le> sz" "sz \<le> 2 ^ 58"
    and "svc_put_object sv b key ct sz r w = (Inr row, w1)"
    and "\<forall>op\<in>set ops. valid_op op \<and> \<not> writes b key op"
    and "svc_get_object_range sv b key start stop (fold (run_op sv) ops w1) = (Inr (ob, bytes, err), w2)"
  shows "ob = row \<and> 0 \<le> start \<and> start \<le> stop \<and> stop < sz \<and> err = None \<and>
    bytes = take (nat (stop + 1 - start)) (drop (nat start) (take (nat sz) (fst r)))"
proof -
  have "svc_inv sv held w" using assms(3) by (simp add: world_inv_def)
  note put = put_object_cases [OF assms(1) this assms(4-6)]
  have inv: "world_inv sv held w1"
    using run_op_step [OF assms(1-3), of "PutOp b key ct sz r"] assms(4-6) by (simp add: world_inv_def kept_def)
  have t: "tables (w_meta w1) = tables (put_object_row row (w_meta w))" "obj_id row = ObjId b key" using put by simp_all
  have row: "find_object (ObjId b key) (w_meta w1) = Some row"
    using tables_find(2) [OF t(1)] obj.lookup_put_same [of row "w_meta w"] t(2) by simp
  have "stored sv (held (w_blobs w1)) (bucket_cipher sv (w_keys w1)) row (take (nat sz) (fst r))" using put by simp
  note later = run_ops_row [OF assms(1,2) inv assms(7) row this refl]
  have "int (length (take (nat sz) (fst r))) = sz" using put assms(4) by simp
  then show ?thesis
    using get_range_spec [OF assms(1) _ _ _ assms(8), of row "take (nat sz) (fst r)"] later by metis
qed

theorem range_of_written_object_witness:
  "\<exists>ob w2. svc_get_object_range mem_service ''abc'' ''k'' 1 3 demo2 = (Inr (ob, [2, 3, 4], None), w2)"
proof -
  let ?get = "svc_get_object_range mem_service ''abc'' ''k'' 1 3 demo2"
  have g: "succeeds ?get" by code_simp
  then obtain x where x: "?get = (Inr x, snd ?get)" by (rule succeedsE)
  obtain ob bytes err where e: "x = (ob, bytes, err)" by (cases x)
  obtain row where put: "svc_put_object mem_service ''abc'' ''k'' ''t'' 5 ([1, 2, 3, 4, 5, 6], Eof) demo1 = (Inr row, demo2)"
    using demo_put_ok by (rule succeedsE) simp
  have "?get = (Inr (ob, bytes, err), snd ?get)" using x e by simp
  from range_of_written_object [OF mem_service_laws mem_small demo1_inv _ _ put, of "[]" 1 3 ob bytes err "snd ?get"] this
  have "bytes = [2, 3, 4]" "err = None" by simp_all
  then show ?thesis using \<open>?get = (Inr (ob, bytes, err), snd ?get)\<close> by metis
qed

text \<open>
  C29: an upload that races with the deletion of its bucket.  \<^verbatim>\<open>PutObject\<close> looks the bucket up
  before the upload and never again: when \<^verbatim>\<open>DeleteBucket\<close> runs in between and removes the key,
  the upload is acknowledged, its row remains in the store, and it cannot be read any more.
\<close>

theorem put_delete_race:
  assumes "service_laws sv held" "svc_inv sv held w" "0 \<le> sz" "sz \<le> 2 ^ 58"
    and "svc_put_upload sv b key ct sz r w = (Inr ob, w1)"
    and "svc_delete_bucket b w1 = (Inr (), w2)" "find_key b (w_keys w2) = None"
    and "svc_put_record sv ob w2 = (Inr row, w3)" "faults (w_meta w3) = []"
  shows "find_object (ObjId b key) (w_meta w3) = Some row \<and> fst (svc_get_object sv b key w3) = Inl S3NoSuchBucket"
proof -
  have up: "o_created ob = zero_time" "obj_id ob = ObjId b key" using put_upload_Inr [OF assms(1-5)] by blast+
  note rec = put_record_cases [OF assms(1) assms(8) [unfolded svc_put_record_def] up(1)]
  then have t: "tables (w_meta w3) = tables (put_object_row row (w_meta w2))" "obj_id row = ObjId b key"
    "w_keys w3 = w_keys w2" "w_ciphers w3 = w_ciphers w2" using up(2) by (auto simp: obj_id_def)
  have row: "find_object (ObjId b key) (w_meta w3) = Some row"
    using tables_find(2) [OF t(1)] obj.lookup_put_same [of row "w_meta w2"] t(2) by simp
  have "w_ciphers w2 b = None"
    using assms(6) by (auto simp: svc_delete_bucket_def ecatch_Inr ebind_Inr forget_cipher_def split: if_splits)
  then have "cipher_for sv b w = (Inl S3NoSuchBucket, w)" if "w_keys w = w_keys w2" "w_ciphers w = w_ciphers w2" for w :: "'a world"
    using that assms(7) by (simp add: cipher_for_def keys_get_def ErrKeyNotFound_def)
  moreover have "svc_head_object b key w3 = (Inr row, w3)"
    using row assms(9) by (simp add: svc_head_object_def rename_err_def ecatch_def on_meta_def get_object_def ebind_def)
  ultimately show ?thesis using row t(3,4) by (simp add: svc_get_object_def ebind_def)
qed

theorem put_delete_race_witness:
  "\<exists>w3 row. find_object (ObjId ''abc'' ''k'') (w_meta w3) = Some row \<and>
     fst (svc_get_object mem_service ''abc'' ''k'' w3) = Inl S3NoSuchBucket"
proof -
  let ?up = "svc_put_upload mem_service ''abc'' ''k'' ''t'' 1 ([9], Eof) demo1"
  let ?w2 = "snd (svc_delete_bucket ''abc'' (snd ?up))"
  let ?rec = "case fst ?up of Inl e \<Rightarrow> (Inl e, ?w2) | Inr ob \<Rightarrow> svc_put_record mem_service ob ?w2"
  have "succeeds ?up" by code_simp
  then obtain ob where up: "?up = (Inr ob, snd ?up)" by (rule succeedsE)
  have "succeeds (svc_delete_bucket ''abc'' (snd ?up))" by code_simp
  then have del: "svc_delete_bucket ''abc'' (snd ?up) = (Inr (), ?w2)" by (rule succeedsE) simp
  have key: "find_key ''abc'' (w_keys ?w2) = None" by code_simp
  have "succeeds ?rec \<and> faults (w_meta (snd ?rec)) = []" by code_simp
  moreover have "fst ?up = Inr ob" using up by (metis fst_conv)
  ultimately have "succeeds (svc_put_record mem_service ob ?w2)" "faults (w_meta (snd (svc_put_record mem_service ob ?w2))) = []"
    by simp_all
  from succeedsE [OF this(1)] this(2)
  obtain row where "svc_put_record mem_service ob ?w2 = (Inr row, snd (svc_put_record mem_service ob ?w2))" by metis
  from put_delete_race [OF mem_service_laws demo1_inv [unfolded world_inv_def, THEN conjunct1] _ _ up del key this] \<open>faults (w_meta (snd (svc_put_record mem_service ob ?w2))) = []\<close>
  show ?thesis by (metis one_le_power zero_le_one one_le_numeral)
qed



end
