(* ===== verification/MultipartClaims.thy ===== *)
theory MultipartClaims
  imports Requests
begin

text \<open>
  The properties of multipart uploads.
\<close>

text \<open>The body uploaded under a part number.\<close>

definition part_body :: "(int \<times> int \<times> reader) list \<Rightarrow> int \<Rightarrow> bytes" where
  "part_body ps n = (case map_of ps n of None \<Rightarrow> [] | Some (sz, r) \<Rightarrow> fst r)"

lemma part_body_in: "distinct (map fst ps) \<Longrightarrow> (n, sz, r) \<in> set ps \<Longrightarrow> part_body ps n = fst r"
  by (simp add: part_body_def map_of_is_SomeI)

lemma upload_parts_side: "\<forall>(n, sz, r)\<in>set ps. 0 \<le> sz \<Longrightarrow> side_step sv (upload_parts sv uid ps)"
proof (induction ps)
  case (Cons x ps)
  obtain n sz r where x: "x = (n, sz, r)" by (cases x)
  have "side_step sv (svc_upload_part sv uid n sz r)" "side_step sv (upload_parts sv uid ps)"
    using Cons side_upload_part [of sz sv uid n r] by (auto simp: x)
  then show ?case unfolding x upload_parts.simps by (intro side_intros)
qed (simp only: upload_parts.simps, rule side_eret)


abbreviation "mp_create \<equiv> svc_create_multipart mem_service ''abc'' ''k'' demo1"
abbreviation "mp_uid \<equiv> concat (replicate 16 ''07'')"
abbreviation "mp_parts \<equiv> [(1 :: int, 2 :: int, ([1, 2] :: bytes, Eof)), (2, 1, ([3], Eof))]"
abbreviation "mp_upload \<equiv> upload_parts mem_service mp_uid mp_parts (snd mp_create)"
abbreviation "mp_complete \<equiv> svc_complete_multipart mem_service ''abc'' ''k'' mp_uid [(1, ''0102''), (2, ''03'')] ''t'' (snd mp_upload)"

lemma mem_temp_names: "temp_names mem_service"
  by (simp add: temp_names_def mem_service_def)

lemma mp_create_inv: "world_inv mem_service mem_held (snd mp_create)"
  using run_ops_inv [OF mem_service_laws mem_small demo1_inv, of "[InitiateOp ''abc'' ''k'']"] by simp


section \<open>What completing does not check\<close>

lemma quiet_stage_part: "quiet_step sv held (svc_stage_part sv m n sz r)"
proof -
  have "quiet_step sv held (os_do (rename_file a b))" for a b
    by (auto simp: quiet_step_def os_do_def quiet_def ciphers_ok_def rename_file_def split: list.splits option.splits)
  moreover have "quiet_step sv held (create_temp_in sv dir)" for dir
    by (auto simp: quiet_step_def create_temp_in_def Let_def ebind_def eret_def os_do_def quiet_def ciphers_ok_def put_file_def
        split: list.splits option.splits)
  ultimately show ?thesis unfolding svc_stage_part_def or_remove_def
    by (auto simp: split_beta intro!: quiet_intros split: option.splits)
qed

lemma upload_part_Inl:
  assumes "svc_upload_part sv uid n sz r w = (Inl e, w')" "ciphers_ok sv w"
  shows "quiet sv held w w'"
proof -
  let ?up = "\<lambda>etag. on_meta (upsert_part \<lparr>p_upload = uid, p_num = n, p_size = sz, p_etag = etag\<rparr>)"
  have main: "(\<exists>m w1 etag w2 v. get_upload uid w = (Inr m, w1) \<and> svc_stage_part sv m n sz r w1 = (Inr etag, w2) \<and>
      ?up etag w2 = (Inl v, w')) \<or> quiet sv held w w'"
  proof (cases "get_upload uid w")
    case (Pair g w1)
    have q1: "quiet sv held w w1" by (rule quiet_stepD [OF get_upload_quiet assms(2) Pair])
    show ?thesis
    proof (cases g)
      case (Inl x)
      then show ?thesis using assms(1) Pair q1 by (auto simp: svc_upload_part_def ebind_def)
    next
      case (Inr m)
      obtain s w2 where s: "svc_stage_part sv m n sz r w1 = (s, w2)" by fastforce
      have "quiet sv held w w2" using quiet_trans [OF q1 quiet_stepD [OF quiet_stage_part quiet_ciphers [OF q1] s]] .
      then show ?thesis using assms(1) Pair Inr s q1
        by (cases s) (auto simp: svc_upload_part_def ebind_def split: if_splits sum.splits prod.splits)
    qed
  qed
  then show ?thesis
  proof
    assume "\<exists>m w1 etag w2 v. get_upload uid w = (Inr m, w1) \<and> svc_stage_part sv m n sz r w1 = (Inr etag, w2) \<and> ?up etag w2 = (Inl v, w')"
    then obtain m w1 etag w2 v where g: "get_upload uid w = (Inr m, w1)" and s: "svc_stage_part sv m n sz r w1 = (Inr etag, w2)"
      and u: "?up etag w2 = (Inl v, w')" by blast
    have q1: "quiet sv held w w1" by (rule quiet_stepD [OF get_upload_quiet assms(2) g])
    have q2: "quiet sv held w w2" using quiet_trans [OF q1 quiet_stepD [OF quiet_stage_part quiet_ciphers [OF q1] s]] .
    obtain st where st: "upsert_part \<lparr>p_upload = uid, p_num = n, p_size = sz, p_etag = etag\<rparr> (w_meta w2) = (Inl v, st)"
      and w': "w' = w2\<lparr>w_meta := st\<rparr>" using u by (auto simp: on_meta_def split: prod.splits)
    show "quiet sv held w w'" using q2 upsert_part_Inl [OF st] by (auto simp: w' quiet_def ciphers_ok_def)
  qed
qed

text \<open>
  C28: the row decides, not the file.  When a part is uploaded again and its new row cannot be
  written, the request fails but the new file has replaced the old one.  \<^verbatim>\<open>CompleteMultipart\<close> with
  the ETag of the first upload then accepts the part and stores the bytes of the failed one, of the
  same length, under an ETag that is computed from the MD5 of the first.
\<close>

theorem failed_reupload_completed:
  assumes "service_laws sv held" "svc_inv sv held w" "find_upload uid (w_meta w) = Some m" "staged sv w m n old"
    and "svc_upload_part sv uid n sz r w = (Inl e, w1)" "w_files w1 (part_path (u_staging m) n) = Some (fst r)"
    and "length (fst r) = length old" "length old \<le> 2 ^ 58"
    and "svc_complete_multipart sv b key uid [(n, hex_encode (sv_md5 sv old))] ct w1 = (Inr row, w2)"
  shows "find_object (ObjId b key) (w_meta w2) = Some row \<and>
    stored sv (held (w_blobs w2)) (bucket_cipher sv (w_keys w2)) row (fst r) \<and>
    o_etag row = hex_encode (sv_md5 sv (sv_md5 sv old)) @ ''-1''"
proof -
  have uid: "u_id m = uid" using assms(2,3) upl.lookup_rows [of "w_meta w" uid m] by (simp add: svc_inv_def)
  have q: "quiet sv held w w1" by (rule upload_part_Inl [OF assms(5) svc_inv_ciphers [OF assms(2)]])
  then have t: "tables (w_meta w1) = tables (w_meta w)" by (simp add: quiet_def)
  have inv: "svc_inv sv held w1" by (rule quiet_inv [OF assms(2) q])
  have m: "find_upload uid (w_meta w1) = Some m" using assms(3) tables_find(3) [OF t] by simp
  define rw where "rw k = \<lparr>p_upload = uid, p_num = k, p_size = int (length old), p_etag = hex_encode (sv_md5 sv old)\<rparr>" for k :: int
  have one: "format_int 1 = ''1''" by code_simp
  have body: "assembled (\<lambda>_. d) [(n, t)] = d" for d t by simp
  have "\<forall>(k, t)\<in>set [(n, hex_encode (sv_md5 sv old))]. find_part (uid, k) (w_meta w1) = Some (rw k) \<and>
      w_files w1 (part_path (u_staging m) k) = Some (fst r) \<and> p_size (rw k) = int (length (fst r))"
    using assms(4,6,7) tables_find(4) [OF t] by (simp add: staged_def uid rw_def)
  note c = complete_multipart_Inr [OF assms(1) inv assms(9) m this, unfolded body]
  then show ?thesis using assms(7,8) by (simp add: rw_def hex_prefix_encode one)
qed

text \<open>The part table refuses the second upload's row.\<close>

definition with_faults :: "(goerr \<times> nat) option list \<Rightarrow> 'b world \<Rightarrow> 'b world" where
  "with_faults fs w = w\<lparr>w_meta := (w_meta w)\<lparr>faults := fs\<rparr>\<rparr>"

abbreviation "mp_first \<equiv> run_op mem_service (PartOp mp_uid 1 2 ([1, 2], Eof)) (snd mp_create)"
abbreviation "part_fault \<equiv> with_faults [None, Some (New ''disk full'', 0)] mp_first"
abbreviation "mp_again \<equiv> svc_upload_part mem_service mp_uid 1 2 ([3, 4], Eof) part_fault"
abbreviation "mp_row \<equiv> \<lparr>u_id = mp_uid, u_bucket = ''abc'', u_key = ''k'', u_staging = ''staging/'' @ mp_uid, u_created = 1000\<rparr>"

lemma part_fault_inv: "svc_inv mem_service mem_held part_fault"
proof -
  have "world_inv mem_service mem_held mp_first"
    using run_ops_inv [OF mem_service_laws mem_small mp_create_inv, of "[PartOp mp_uid 1 2 ([1, 2], Eof)]"] by simp
  then show ?thesis by (simp add: with_faults_def world_inv_def svc_inv_def store_inv_def)
qed

lemma mp_first_upload: "find_upload mp_uid (w_meta part_fault) = Some mp_row"
  by code_simp

lemma mp_first_part:
  "find_part (mp_uid, 1) (w_meta part_fault) = Some \<lparr>p_upload = mp_uid, p_num = 1, p_size = 2, p_etag = ''0102''\<rparr>"
  by code_simp

lemma mp_first_file: "w_files part_fault (part_path (''staging/'' @ mp_uid) 1) = Some [1, 2]"
  by code_simp

lemma mp_again_fails: "\<not> succeeds mp_again"
  by code_simp

lemma mp_again_file: "w_files (snd mp_again) (part_path (''staging/'' @ mp_uid) 1) = Some [3, 4]"
  by code_simp

lemma mp_again_completes:
  "succeeds (svc_complete_multipart mem_service ''abc'' ''k'' mp_uid [(1, ''0102'')] ''t'' (snd mp_again))"
  by code_simp

theorem failed_reupload_completed_witness:
  "\<exists>row (w :: mem world). find_object (ObjId ''abc'' ''k'') (w_meta w) = Some row \<and>
     stored mem_service (mem_held (w_blobs w)) (bucket_cipher mem_service (w_keys w)) row [3, 4] \<and> o_etag row = ''0102-1''"
proof -
  obtain e where e: "mp_again = (Inl e, snd mp_again)" using mp_again_fails by (cases mp_again; cases "fst mp_again") (auto simp: succeeds_def)
  obtain row w where row: "svc_complete_multipart mem_service ''abc'' ''k'' mp_uid [(1, ''0102'')] ''t'' (snd mp_again) = (Inr row, w)"
    using mp_again_completes by (rule succeedsE)
  have tag: "hex_encode (sv_md5 mem_service [1, 2]) = ''0102''" "hex_encode (sv_md5 mem_service (sv_md5 mem_service [1, 2])) @ ''-1'' = ''0102-1''"
    by code_simp+
  have st: "staged mem_service part_fault mp_row 1 [1, 2]"
    using mp_first_part mp_first_file tag(1) by (simp only: staged_def upload.simps) simp
  have fd: "w_files (snd mp_again) (part_path (u_staging mp_row) 1) = Some (fst ([3, 4] :: bytes, Eof))" using mp_again_file by simp
  have len: "length (fst ([3, 4] :: bytes, Eof)) = length ([1, 2] :: bytes)" "length ([1, 2] :: bytes) \<le> 2 ^ 58" by simp_all
  show ?thesis
    using failed_reupload_completed [OF mem_service_laws part_fault_inv mp_first_upload st e fd len row [folded tag(1)],
        unfolded tag(2) fst_conv] by (intro exI)
qed

end
