(* ===== verification/Handlers.thy ===== *)
theory Handlers
  imports Multipart SigBody Listing
begin

text \<open>
  The S3 handlers: \<^verbatim>\<open>internal/s3api/handlers.go\<close> and the handler half of \<^verbatim>\<open>multipart.go\<close>.  A
  handler takes the request and its decoded body and returns the response it writes.  A response
  body is an error or result document before its XML encoding, or the bytes that \<^verbatim>\<open>io.Copy\<close>
  writes and the error it stops with, or, for the browser interface, a plain message or the data of
  a page before its template; \<open>Date t\<close> is \<^verbatim>\<open>t\<close> in \<^verbatim>\<open>http.TimeFormat\<close> and \<open>Session tok e\<close> the
  session cookie with its expiry.  The decoder of
  the \<^verbatim>\<open>CompleteMultipartUpload\<close> document (\<^verbatim>\<open>encoding/xml\<close>) is a parameter.
\<close>

section \<open>Responses\<close>

datatype header_value = Txt string | Date int | Session string "int option"

datatype document =
    BucketsDoc "(string \<times> int) list"
  | ObjectsDoc list_resp
  | InitiatedDoc string string string
  | CompletedDoc string string string string

record listing_entry =
  le_key :: string
  le_size :: int
  le_ctype :: string
  le_modified :: int
  le_download :: string
  le_delete :: string

record listing_view =
  lv_bucket :: string
  lv_objects :: "listing_entry list"
  lv_logged_in :: bool
  lv_has_login :: bool

datatype payload =
    Empty
  | ErrorDoc string string string
  | XmlDoc document
  | Data bytes "goerr option"
  | Message string
  | ListingPage listing_view
  | LoginPage bool

record response =
  rs_status :: int
  rs_headers :: "(string \<times> header_value) list"
  rs_body :: payload

definition plain :: "int \<Rightarrow> (string \<times> header_value) list \<Rightarrow> response" where
  "plain st hs = \<lparr>rs_status = st, rs_headers = hs, rs_body = Empty\<rparr>"

definition xml_type :: "string \<times> header_value" where
  "xml_type = (''Content-Type'', Txt ''application/xml'')"

text \<open>\<^verbatim>\<open>writeErr\<close>, whose argument is an \<^verbatim>\<open>*S3Error\<close>, \<^verbatim>\<open>writeServiceErr\<close> and \<^verbatim>\<open>writeXML\<close>.\<close>

definition write_err :: "request \<Rightarrow> goerr \<Rightarrow> response" where
  "write_err rq e = \<lparr>rs_status = http_status e, rs_headers = [xml_type],
     rs_body = (case e of S3Err c m st \<Rightarrow> ErrorDoc c m (rq_path rq) | _ \<Rightarrow> Empty)\<rparr>"

definition write_service_err :: "request \<Rightarrow> goerr \<Rightarrow> response" where
  "write_service_err rq e = write_err rq (service_err e)"

definition write_xml :: "int \<Rightarrow> document \<Rightarrow> response" where
  "write_xml st d = \<lparr>rs_status = st, rs_headers = [xml_type], rs_body = XmlDoc d\<rparr>"

definition quote :: "string \<Rightarrow> string" where
  "quote s = (if has_prefix s [CHR 0x22] then s else [CHR 0x22] @ s @ [CHR 0x22])"

text \<open>A call whose error is answered by \<open>err\<close>, and what follows it.\<close>

type_synonym 's handler = "'s \<Rightarrow> response \<times> 's"

definition answer :: "response \<Rightarrow> 's handler" where
  "answer rs s = (rs, s)"

definition hbind :: "('s, 'a) step \<Rightarrow> (goerr \<Rightarrow> response) \<Rightarrow> ('a \<Rightarrow> 's handler) \<Rightarrow> 's handler" where
  "hbind m err k s = (case m s of (Inl e, s') \<Rightarrow> (err e, s') | (Inr x, s') \<Rightarrow> k x s')"

section \<open>Buckets\<close>

definition h_list_buckets :: "request \<Rightarrow> 'b world handler" where
  "h_list_buckets rq = hbind svc_list_buckets (\<lambda>e. write_err rq S3InternalError)
     (\<lambda>bs. answer (write_xml 200 (BucketsDoc (map (\<lambda>b. (b_name b, b_created b)) bs))))"

definition h_create_bucket :: "'b service \<Rightarrow> request \<Rightarrow> string \<Rightarrow> 'b world handler" where
  "h_create_bucket sv rq b = hbind (svc_create_bucket sv b) (write_service_err rq)
     (\<lambda>_. answer (plain 200 [(''Location'', Txt (CHR ''/'' # b))]))"

definition h_delete_bucket :: "request \<Rightarrow> string \<Rightarrow> 'b world handler" where
  "h_delete_bucket rq b = hbind (svc_delete_bucket b) (write_service_err rq) (\<lambda>_. answer (plain 204 []))"

definition h_list_objects :: "request \<Rightarrow> string \<Rightarrow> 'b world handler" where
  "h_list_objects rq b = hbind (on_meta (list_objects_v2 b (query_get (rq_raw_query rq)))) (write_err rq)
     (\<lambda>r. answer (write_xml 200 (ObjectsDoc r)))"

section \<open>Uploads\<close>

text \<open>The declared size; \<open>None\<close> when there is none.\<close>

definition put_body_size :: "request \<Rightarrow> goerr + int option" where
  "put_body_size rq = (let v = header_get ''X-Amz-Decoded-Content-Length'' rq in
     if v \<noteq> [] then (case parse_int v of
         None \<Rightarrow> Inl S3InvalidArgument
       | Some n \<Rightarrow> if n < 0 then Inl S3InvalidArgument else Inr (Some n))
     else if rq_content_length rq \<ge> 0 then Inr (Some (rq_content_length rq)) else Inr None)"

text \<open>Without a size the body is staged in a temporary file, which the handler removes at its
  end; the staged file is the reader then.\<close>

definition file_reader :: "string \<Rightarrow> 'b world \<Rightarrow> reader" where
  "file_reader f w = ((case w_files w f of Some d \<Rightarrow> d | None \<Rightarrow> []), Eof)"

definition with_staged ::
    "'b service \<Rightarrow> request \<Rightarrow> reader \<Rightarrow> (int \<Rightarrow> reader \<Rightarrow> 'b world handler) \<Rightarrow> 'b world handler" where
  "with_staged sv rq body k =
     hbind (stage_temp sv body (be_max (sv_backend sv)))
       (\<lambda>e. write_err rq (if errors_is e S3EntityTooLarge then S3EntityTooLarge else S3InternalError))
       (\<lambda>(f, n) w. case k n (file_reader f w) w of (rs, w') \<Rightarrow> (rs, snd (remove_file f w')))"

definition h_put_object :: "'b service \<Rightarrow> request \<Rightarrow> reader \<Rightarrow> string \<Rightarrow> string \<Rightarrow> 'b world handler" where
  "h_put_object sv rq body b key =
     (let put = (\<lambda>n r. hbind (svc_put_object sv b key (header_get ''Content-Type'' rq) n r) (write_service_err rq)
            (\<lambda>ob. answer (plain 200 [(''ETag'', Txt (quote (o_etag ob)))])))
      in case put_body_size rq of
        Inl e \<Rightarrow> answer (write_err rq e)
      | Inr None \<Rightarrow> with_staged sv rq body put
      | Inr (Some n) \<Rightarrow> if n > be_max (sv_backend sv) then answer (write_err rq S3EntityTooLarge) else put n body)"

section \<open>Downloads\<close>

definition content_type :: "object \<Rightarrow> (string \<times> header_value) list" where
  "content_type ob = (if o_ctype ob = [] then [] else [(''Content-Type'', Txt (o_ctype ob))])"

text \<open>\<^verbatim>\<open>io.Copy\<close> of the plaintext stream.\<close>

definition stream_out :: "decrypter \<Rightarrow> payload" where
  "stream_out d = (case dec_pend d of (bs, Eof) \<Rightarrow> Data bs None | (bs, Fail e) \<Rightarrow> Data bs (Some e))"

text \<open>\<^verbatim>\<open>parseRange\<close>; \<open>None\<close> is \<^verbatim>\<open>errBadRange\<close>.\<close>

definition suffix_range :: "string \<Rightarrow> int \<Rightarrow> (int \<times> int) option" where
  "suffix_range hi sz = (case parse_int hi of
       None \<Rightarrow> None
     | Some n \<Rightarrow> if n \<le> 0 \<or> sz = 0 then None else Some (sz - min n sz, sz - 1))"

definition open_range :: "string \<Rightarrow> int \<Rightarrow> (int \<times> int) option" where
  "open_range lo sz = (case parse_int lo of
       None \<Rightarrow> None
     | Some a \<Rightarrow> if a < 0 \<or> a \<ge> sz then None else Some (a, sz - 1))"

definition closed_range :: "string \<Rightarrow> string \<Rightarrow> int \<Rightarrow> (int \<times> int) option" where
  "closed_range lo hi sz = (case (parse_int lo, parse_int hi) of
       (Some a, Some b) \<Rightarrow> if a < 0 \<or> b < a \<or> a \<ge> sz then None else Some (a, min b (sz - 1))
     | _ \<Rightarrow> None)"

definition parse_range :: "string \<Rightarrow> int \<Rightarrow> (int \<times> int) option" where
  "parse_range s sz =
     (if \<not> has_prefix s ''bytes='' then None
      else let spec = trim_prefix s ''bytes='' in
        if contains_str spec '','' then None
        else case cut_at CHR ''-'' spec of
          None \<Rightarrow> None
        | Some (lo, hi) \<Rightarrow>
            if lo = [] \<and> hi = [] then None
            else if lo = [] then suffix_range hi sz
            else if hi = [] then open_range lo sz
            else closed_range lo hi sz)"

definition h_get_range :: "'b service \<Rightarrow> request \<Rightarrow> string \<Rightarrow> string \<Rightarrow> string \<Rightarrow> 'b world handler" where
  "h_get_range sv rq b key hdr =
     hbind (svc_head_object b key) (write_service_err rq) (\<lambda>ob.
       case parse_range hdr (o_size ob) of
         None \<Rightarrow> answer ((write_err rq S3InvalidRange)\<lparr>rs_headers :=
             [xml_type, (''Content-Range'', Txt (''bytes */'' @ format_int (o_size ob)))]\<rparr>)
       | Some (a, z) \<Rightarrow>
           hbind (svc_get_object_range sv b key a z) (write_service_err rq) (\<lambda>(_, bs, err).
             answer \<lparr>rs_status = 206, rs_headers =
                [(''ETag'', Txt (quote (o_etag ob))), (''Accept-Ranges'', Txt ''bytes''),
                 (''Content-Length'', Txt (format_int (z - a + 1))),
                 (''Content-Range'', Txt (''bytes '' @ format_int a @ ''-'' @ format_int z @ ''/'' @ format_int (o_size ob)))]
                @ content_type ob @ [(''Last-Modified'', Date (o_created ob))],
               rs_body = Data bs err\<rparr>))"

definition h_get_object :: "'b service \<Rightarrow> request \<Rightarrow> string \<Rightarrow> string \<Rightarrow> 'b world handler" where
  "h_get_object sv rq b key =
     (if header_get ''Range'' rq \<noteq> [] then h_get_range sv rq b key (header_get ''Range'' rq)
      else hbind (svc_get_object sv b key) (write_service_err rq) (\<lambda>(ob, d).
        answer \<lparr>rs_status = 200, rs_headers =
            [(''ETag'', Txt (quote (o_etag ob))), (''Content-Length'', Txt (format_int (o_size ob))),
             (''Accept-Ranges'', Txt ''bytes'')] @ content_type ob @ [(''Last-Modified'', Date (o_created ob))],
          rs_body = stream_out d\<rparr>))"

definition h_head_object :: "request \<Rightarrow> string \<Rightarrow> string \<Rightarrow> 'b world handler" where
  "h_head_object rq b key =
     hbind (svc_head_object b key) (write_service_err rq) (\<lambda>ob.
       answer (plain 200 ([(''ETag'', Txt (quote (o_etag ob))), (''Content-Length'', Txt (format_int (o_size ob)))]
         @ content_type ob @ [(''Last-Modified'', Date (o_created ob))])))"

definition h_delete_object :: "'b service \<Rightarrow> request \<Rightarrow> string \<Rightarrow> string \<Rightarrow> 'b world handler" where
  "h_delete_object sv rq b key = hbind (svc_delete_object sv b key) (write_service_err rq) (\<lambda>_. answer (plain 204 []))"

section \<open>Multipart uploads\<close>

definition h_create_multipart :: "'b service \<Rightarrow> request \<Rightarrow> string \<Rightarrow> string \<Rightarrow> 'b world handler" where
  "h_create_multipart sv rq b key =
     hbind (on_meta (get_bucket b)) (\<lambda>_. write_err rq S3NoSuchBucket) (\<lambda>_.
     hbind (svc_create_multipart sv b key) (write_service_err rq) (\<lambda>uid.
       answer (write_xml 200 (InitiatedDoc b key uid))))"

definition h_upload_part :: "'b service \<Rightarrow> request \<Rightarrow> reader \<Rightarrow> string \<Rightarrow> string \<Rightarrow> 'b world handler" where
  "h_upload_part sv rq body b key =
     (let uid = query_get (rq_raw_query rq) ''uploadId'' in
      case parse_int (query_get (rq_raw_query rq) ''partNumber'') of
        None \<Rightarrow> answer (write_err rq S3InvalidArgument)
      | Some pn \<Rightarrow>
          if pn < 1 \<or> pn > max_parts then answer (write_err rq S3InvalidArgument)
          else let put = (\<lambda>n r. hbind (svc_upload_part sv uid pn n r) (write_service_err rq)
                 (\<lambda>etag. answer (plain 200 [(''ETag'', Txt (quote etag))])))
            in case put_body_size rq of
              Inl e \<Rightarrow> answer (write_err rq e)
            | Inr None \<Rightarrow> with_staged sv rq body put
            | Inr (Some n) \<Rightarrow> put n body)"

fun ascending :: "(int \<times> string) list \<Rightarrow> bool" where
  "ascending ((a, s) # (b, t) # ps) = (a < b \<and> ascending ((b, t) # ps))"
| "ascending _ = True"

definition h_complete_multipart ::
    "'b service \<Rightarrow> (bytes \<Rightarrow> (int \<times> string) list option) \<Rightarrow> request \<Rightarrow> reader \<Rightarrow> string \<Rightarrow> string \<Rightarrow> 'b world handler" where
  "h_complete_multipart sv unmarshal rq body b key =
     (let uid = query_get (rq_raw_query rq) ''uploadId'' in
      case read_all (limit_reader (2 ^ 20) body) of
        (_, Some e) \<Rightarrow> answer (write_err rq S3MalformedXML)
      | (doc, None) \<Rightarrow> (case unmarshal doc of
            None \<Rightarrow> answer (write_err rq S3MalformedXML)
          | Some req \<Rightarrow>
              if \<not> ascending req then answer (write_err rq S3InvalidPartOrder)
              else hbind (svc_complete_multipart sv b key uid req (header_get ''Content-Type'' rq)) (write_service_err rq) (\<lambda>ob.
                answer (write_xml 200 (CompletedDoc (''/'' @ b @ ''/'' @ key) b key (quote (o_etag ob)))))))"

definition h_abort_multipart :: "request \<Rightarrow> 'b world handler" where
  "h_abort_multipart rq =
     hbind (svc_abort_multipart (query_get (rq_raw_query rq) ''uploadId'')) (write_service_err rq)
       (\<lambda>_. answer (plain 204 []))"

end
