(* ===== verification/Browser.thy ===== *)
theory Browser
  imports Handlers GoNumbers
begin

text \<open>
  The browser interface: \<^verbatim>\<open>internal/s3api/browser.go\<close>, with \<^verbatim>\<open>splitPath\<close> of \<^verbatim>\<open>router.go\<close>.  Its
  state is the map of sessions beside the daemon's \<open>world\<close>.  The form decoders of \<^verbatim>\<open>net/http\<close>
  and \<^verbatim>\<open>mime.TypeByExtension\<close> are the fields of \<open>forms\<close>; the templates are left out, and so is
  the path cleaning of \<^verbatim>\<open>http.Redirect\<close>.  The clock is that of the service, in seconds.
\<close>

record browser_options =
  bo_enabled :: bool
  bo_password :: string

record 'b site =
  st_world :: "'b world"
  st_sessions :: "string \<Rightarrow> int option"

record form_file =
  ff_name :: string
  ff_ctype :: string
  ff_size :: int
  ff_data :: reader

record forms =
  fm_values :: "request \<Rightarrow> reader \<Rightarrow> goerr + (string \<times> string) list"
  fm_file :: "request \<Rightarrow> reader \<Rightarrow> goerr + form_file option"
  fm_mime :: "string \<Rightarrow> string"

definition session_cookie :: string where "session_cookie = ''telang_session''"
definition session_ttl :: int where "session_ttl = 24 * 3600"
definition max_upload_bytes :: int where "max_upload_bytes = 2 * 1024 * 1024 * 1024"

definition on_world :: "'b world handler \<Rightarrow> 'b site handler" where
  "on_world h s = (case h (st_world s) of (rs, w) \<Rightarrow> (rs, s\<lparr>st_world := w\<rparr>))"

text \<open>\<^verbatim>\<open>http.NotFound\<close>, \<^verbatim>\<open>http.Error\<close> and \<^verbatim>\<open>http.Redirect\<close> with 303.\<close>

definition http_error :: "string \<Rightarrow> int \<Rightarrow> response" where
  "http_error msg st = \<lparr>rs_status = st, rs_headers = [(''Content-Type'', Txt ''text/plain; charset=utf-8'')], rs_body = Message msg\<rparr>"

definition not_found :: response where
  "not_found = http_error ''404 page not found'' 404"

definition see_other :: "string \<Rightarrow> response" where
  "see_other url = plain 303 [(''Location'', Txt url)]"

definition html_type :: "string \<times> header_value" where
  "html_type = (''Content-Type'', Txt ''text/html; charset=utf-8'')"

definition page :: "int \<Rightarrow> payload \<Rightarrow> response" where
  "page st b = \<lparr>rs_status = st, rs_headers = [html_type], rs_body = b\<rparr>"

text \<open>\<^verbatim>\<open>/a/b/c\<close> is \<^verbatim>\<open>("a", "b/c")\<close>.\<close>

definition split_path :: "string \<Rightarrow> string \<times> string" where
  "split_path p = (let q = trim_prefix p ''/'' in
     if q = [] then ([], [])
     else case cut_at CHR ''/'' q of None \<Rightarrow> (q, []) | Some bk \<Rightarrow> bk)"

section \<open>Sessions\<close>

text \<open>\<^verbatim>\<open>(*http.Request).Cookie\<close>: the first well-formed cookie of the name.\<close>

definition cookie_byte :: "char \<Rightarrow> bool" where
  "cookie_byte c \<longleftrightarrow> (let n = of_char c :: nat in 32 \<le> n \<and> n < 127 \<and> c \<noteq> CHR 0x22 \<and> c \<noteq> CHR '';'' \<and> c \<noteq> CHR 0x5C)"

definition unquote :: "string \<Rightarrow> string" where
  "unquote v = (if 1 < length v \<and> hd v = CHR 0x22 \<and> last v = CHR 0x22 then butlast (tl v) else v)"

definition cookie_of :: "string \<Rightarrow> string \<Rightarrow> string option" where
  "cookie_of n part = (case split_setting (trim_space part) of (k, v) \<Rightarrow>
     if trim_space k = n \<and> list_all cookie_byte (unquote v) then Some (unquote v) else None)"

definition cookie :: "string \<Rightarrow> request \<Rightarrow> string option" where
  "cookie n rq = (case List.map_filter (cookie_of n) (concat (map (split_on CHR '';'') (header_values ''Cookie'' rq))) of
     [] \<Rightarrow> None | v # _ \<Rightarrow> Some v)"

definition is_logged_in :: "'b service \<Rightarrow> request \<Rightarrow> 'b site \<Rightarrow> bool \<times> 'b site" where
  "is_logged_in sv rq s = (case cookie session_cookie rq of
       None \<Rightarrow> (False, s)
     | Some tok \<Rightarrow>
         if tok = [] then (False, s)
         else case st_sessions s tok of
           None \<Rightarrow> (False, s)
         | Some t \<Rightarrow>
             if sv_now sv - t > session_ttl then (False, s\<lparr>st_sessions := (st_sessions s)(tok := None)\<rparr>)
             else (True, s))"

text \<open>The error of \<^verbatim>\<open>rand.Read\<close> is ignored; the token is that of the zeroed array then.\<close>

definition new_session :: "'b service \<Rightarrow> 'b site \<Rightarrow> string \<times> 'b site" where
  "new_session sv s = (case rand_read 24 (st_world s) of (r, w) \<Rightarrow>
     let tok = hex_encode (case r of Inl e \<Rightarrow> replicate 24 0 | Inr b \<Rightarrow> b)
     in (tok, s\<lparr>st_world := w, st_sessions := (st_sessions s)(tok \<mapsto> sv_now sv)\<rparr>))"

definition require_session ::
    "browser_options \<Rightarrow> 'b service \<Rightarrow> request \<Rightarrow> 'b site handler \<Rightarrow> 'b site handler" where
  "require_session bo sv rq k s =
     (if bo_password bo = [] then (http_error ''browser-write disabled (no password configured)'' 403, s)
      else case is_logged_in sv rq s of
        (False, s') \<Rightarrow> (see_other (''/_browse/_login?return='' @ rq_path rq), s')
      | (True, s') \<Rightarrow> k s')"

section \<open>Pages and downloads\<close>

definition listing_entry_of :: "string \<Rightarrow> object \<Rightarrow> listing_entry" where
  "listing_entry_of b ob = \<lparr>le_key = o_key ob, le_size = o_size ob, le_ctype = o_ctype ob, le_modified = o_created ob,
     le_download = ''/_browse/'' @ b @ ''/'' @ o_key ob,
     le_delete = ''/_browse/'' @ b @ ''/'' @ o_key ob @ ''?delete=1''\<rparr>"

definition render_listing :: "browser_options \<Rightarrow> 'b service \<Rightarrow> request \<Rightarrow> string \<Rightarrow> 'b site handler" where
  "render_listing bo sv rq b s =
     (case on_meta (get_bucket b) (st_world s) of
        (Inl e, w1) \<Rightarrow> (not_found, s\<lparr>st_world := w1\<rparr>)
      | (Inr _, w1) \<Rightarrow> (case on_meta (list_objects b [] [] 1000) w1 of
            (Inl e, w2) \<Rightarrow> (http_error (err_text e) 500, s\<lparr>st_world := w2\<rparr>)
          | (Inr (obs, _), w2) \<Rightarrow> (case is_logged_in sv rq (s\<lparr>st_world := w2\<rparr>) of
                (li, s') \<Rightarrow> (page 200 (ListingPage \<lparr>lv_bucket = b, lv_objects = map (listing_entry_of b) obs,
                     lv_logged_in = li, lv_has_login = (bo_password bo \<noteq> [])\<rparr>), s'))))"

text \<open>\<^verbatim>\<open>filepath.Base\<close> and \<^verbatim>\<open>sanitizeFilename\<close>.\<close>

definition base_name :: "string \<Rightarrow> string" where
  "base_name p = (if p = [] then ''.''
     else let e = rev (takeWhile (\<lambda>c. c \<noteq> CHR ''/'') (rev (trim_right CHR ''/'' p)))
       in if e = [] then ''/'' else e)"

definition sanitize_filename :: "string \<Rightarrow> string" where
  "sanitize_filename name = dropWhile (\<lambda>c. c = CHR ''.'') (trim_space (base_name name))"

definition handle_download :: "'b service \<Rightarrow> string \<Rightarrow> string \<Rightarrow> 'b world handler" where
  "handle_download sv b key = hbind (svc_get_object sv b key) (\<lambda>e. not_found) (\<lambda>(ob, d).
     answer \<lparr>rs_status = 200, rs_headers = content_type ob @
         [(''Content-Length'', Txt (format_int (o_size ob))),
          (''Content-Disposition'', Txt (''attachment; filename='' @ [CHR 0x22] @ sanitize_filename key @ [CHR 0x22]))],
       rs_body = stream_out d\<rparr>)"

section \<open>Uploads and deletions\<close>

definition handle_upload ::
    "browser_options \<Rightarrow> 'b service \<Rightarrow> forms \<Rightarrow> request \<Rightarrow> reader \<Rightarrow> string \<Rightarrow> 'b site handler" where
  "handle_upload bo sv fm rq body b = require_session bo sv rq
     (case fm_file fm rq body of
        Inl e \<Rightarrow> answer (http_error (err_text e) 400)
      | Inr None \<Rightarrow> answer (http_error (''missing '' @ quote1 @ ''file'' @ quote1 @ '' field'') 400)
      | Inr (Some ff) \<Rightarrow>
          let key = sanitize_filename (ff_name ff);
              ct = (if ff_ctype ff = [] then fm_mime fm key else ff_ctype ff)
          in if key = [] then answer (http_error ''empty filename'' 400)
             else if ff_size ff \<le> 0 \<or> ff_size ff > max_upload_bytes then answer (http_error ''bad upload size'' 400)
             else on_world (hbind (svc_put_object sv b key ct (ff_size ff) (ff_data ff))
               (\<lambda>e. http_error (err_text e) 500) (\<lambda>_. answer (see_other (''/'' @ b @ ''/'')))))"

definition handle_delete :: "browser_options \<Rightarrow> 'b service \<Rightarrow> request \<Rightarrow> string \<Rightarrow> string \<Rightarrow> 'b site handler" where
  "handle_delete bo sv rq b key = require_session bo sv rq
     (on_world (hbind (svc_delete_object sv b key) (\<lambda>e. http_error (err_text e) 500)
        (\<lambda>_. answer (see_other (''/'' @ b @ ''/'')))))"

definition handle_browse_route ::
    "browser_options \<Rightarrow> 'b service \<Rightarrow> forms \<Rightarrow> request \<Rightarrow> reader \<Rightarrow> string \<Rightarrow> 'b site handler" where
  "handle_browse_route bo sv fm rq body rest = (case cut_at CHR ''/'' rest of
       None \<Rightarrow> answer not_found
     | Some (b, key) \<Rightarrow>
         if key = [] \<and> rq_method rq = ''POST'' then handle_upload bo sv fm rq body b
         else if key \<noteq> [] \<and> rq_method rq = ''GET'' then on_world (handle_download sv b key)
         else if key \<noteq> [] \<and> rq_method rq = ''POST'' \<and> query_get (rq_raw_query rq) ''delete'' \<noteq> []
           then handle_delete bo sv rq b key
         else answer (http_error ''method not allowed'' 405))"

section \<open>Login, logout, dispatch\<close>

definition form_value :: "string \<Rightarrow> (string \<times> string) list \<Rightarrow> string" where
  "form_value n vs = (case map_of vs n of None \<Rightarrow> [] | Some v \<Rightarrow> v)"

definition return_to :: "string \<Rightarrow> string" where
  "return_to ret = (if ret = [] \<or> \<not> has_prefix ret ''/'' then ''/'' else ret)"

definition handle_login :: "browser_options \<Rightarrow> 'b service \<Rightarrow> forms \<Rightarrow> request \<Rightarrow> reader \<Rightarrow> 'b site handler" where
  "handle_login bo sv fm rq body s =
     (if bo_password bo = [] then (not_found, s)
      else if rq_method rq = ''GET'' then (page 200 (LoginPage False), s)
      else if rq_method rq = ''POST'' then
        (case fm_values fm rq body of
           Inl e \<Rightarrow> (http_error (err_text e) 400, s)
         | Inr vs \<Rightarrow>
             if form_value ''password'' vs \<noteq> bo_password bo then (page 401 (LoginPage True), s)
             else case new_session sv s of (tok, s') \<Rightarrow>
               (plain 303 [(''Set-Cookie'', Session tok (Some (sv_now sv + session_ttl))),
                           (''Location'', Txt (return_to (form_value ''return'' vs)))], s'))
      else (http_error ''method not allowed'' 405, s))"

definition handle_logout :: "request \<Rightarrow> 'b site handler" where
  "handle_logout rq s =
     (plain 303 [(''Set-Cookie'', Session [] None), (''Location'', Txt ''/'')],
      case cookie session_cookie rq of
        None \<Rightarrow> s | Some tok \<Rightarrow> s\<lparr>st_sessions := (st_sessions s)(tok := None)\<rparr>)"

definition browser_dispatch ::
    "browser_options \<Rightarrow> 'b service \<Rightarrow> forms \<Rightarrow> request \<Rightarrow> reader \<Rightarrow> 'b site handler" where
  "browser_dispatch bo sv fm rq body =
     (if \<not> bo_enabled bo then answer not_found
      else let p = rq_path rq in
        if p = ''/_browse/_login'' then handle_login bo sv fm rq body
        else if p = ''/_browse/_logout'' then handle_logout rq
        else if has_prefix p ''/_browse/'' then handle_browse_route bo sv fm rq body (trim_prefix p ''/_browse/'')
        else case split_path p of (b, key) \<Rightarrow>
          if b = [] \<or> key \<noteq> [] \<or> rq_method rq \<noteq> ''GET'' then answer not_found
          else render_listing bo sv rq b)"

definition should_handle :: "browser_options \<Rightarrow> request \<Rightarrow> bool" where
  "should_handle bo rq \<longleftrightarrow> bo_enabled bo \<and>
     (has_prefix (rq_path rq) ''/_browse/'' \<or>
      rq_method rq = ''GET'' \<and> header_get ''Authorization'' rq = [] \<and>
      (case split_path (rq_path rq) of (b, key) \<Rightarrow> b \<noteq> [] \<and> key = []) \<and>
      contains_str (header_get ''Accept'' rq) ''text/html'')"

end
