(* ===== verification/Router.thy ===== *)
theory Router
  imports Browser
begin

text \<open>
  \<^verbatim>\<open>internal/s3api/router.go\<close>: the top-level handler.  It draws a request id, hands browser
  requests to the browser interface, verifies the signature of the others and dispatches on
  method, path and query.
\<close>

record 'b server =
  hs_verifier :: verifier
  hs_service :: "'b service"
  hs_browser :: "browser_options option"
  hs_forms :: forms
  hs_unmarshal :: "bytes \<Rightarrow> (int \<times> string) list option"

definition new_request_id :: "'b world \<Rightarrow> string \<times> 'b world" where
  "new_request_id w = (case rand_read 16 w of (r, w') \<Rightarrow>
     (hex_encode (case r of Inl e \<Rightarrow> replicate 16 0 | Inr b \<Rightarrow> b), w'))"

definition unimplemented_subresources :: "string list" where
  "unimplemented_subresources =
     [''versioning'', ''versions'', ''acl'', ''policy'', ''policyStatus'', ''cors'', ''lifecycle'', ''replication'',
      ''tagging'', ''encryption'', ''logging'', ''notification'', ''object-lock'', ''requestPayment'', ''website'',
      ''accelerate'', ''analytics'', ''intelligent-tiering'', ''inventory'', ''metrics'', ''ownershipControls'',
      ''publicAccessBlock'', ''legal-hold'', ''retention'', ''torrent'', ''restore'', ''select'', ''select-type'']"

definition is_unimplemented_subresource :: "request \<Rightarrow> bool" where
  "is_unimplemented_subresource rq \<longleftrightarrow>
     list_ex (\<lambda>(k, v). k \<in> set unimplemented_subresources) (parse_query (rq_raw_query rq))"

text \<open>The body after \<^verbatim>\<open>Verify\<close> has wrapped it in a decoder.\<close>

definition decoded_body :: "digests \<Rightarrow> body_mode \<Rightarrow> reader \<Rightarrow> reader" where
  "decoded_body d m r = (case m of
       RawBody \<Rightarrow> r
     | UnsignedChunked \<Rightarrow> chunked_pend unsigned_rest (new_unsigned_reader r)
     | SignedChunked key dt scope seed \<Rightarrow> chunked_pend (signed_rest d) (new_signed_reader r key dt scope seed)
     | HashChecked h \<Rightarrow> hash_pend d (\<lambda>x. x) (new_hash_reader r h))"

definition has_query :: "string \<Rightarrow> request \<Rightarrow> bool" where
  "has_query n rq \<longleftrightarrow> map_of (parse_query (rq_raw_query rq)) n \<noteq> None"

definition dispatch :: "'b server \<Rightarrow> request \<Rightarrow> reader \<Rightarrow> 'b world handler" where
  "dispatch hs rq body =
     (let sv = hs_service hs; m = rq_method rq; uid = query_get (rq_raw_query rq) ''uploadId'' in
      case split_path (rq_path rq) of (b, key) \<Rightarrow>
        if is_unimplemented_subresource rq then answer (write_err rq S3NotImplemented)
        else if b = [] \<and> m = ''GET'' then h_list_buckets rq
        else if b \<noteq> [] \<and> key = [] \<and> m = ''PUT'' then h_create_bucket sv rq b
        else if b \<noteq> [] \<and> key = [] \<and> m = ''DELETE'' then h_delete_bucket rq b
        else if b \<noteq> [] \<and> key = [] \<and> m = ''GET'' then h_list_objects rq b
        else if b \<noteq> [] \<and> key \<noteq> [] \<and> m = ''POST'' \<and> has_query ''uploads'' rq then h_create_multipart sv rq b key
        else if b \<noteq> [] \<and> key \<noteq> [] \<and> m = ''PUT'' \<and> uid \<noteq> [] then h_upload_part sv rq body b key
        else if b \<noteq> [] \<and> key \<noteq> [] \<and> m = ''POST'' \<and> uid \<noteq> [] then h_complete_multipart sv (hs_unmarshal hs) rq body b key
        else if b \<noteq> [] \<and> key \<noteq> [] \<and> m = ''DELETE'' \<and> uid \<noteq> [] then h_abort_multipart rq
        else if b \<noteq> [] \<and> key \<noteq> [] \<and> m = ''PUT'' then h_put_object sv rq body b key
        else if b \<noteq> [] \<and> key \<noteq> [] \<and> m = ''GET'' then h_get_object sv rq b key
        else if b \<noteq> [] \<and> key \<noteq> [] \<and> m = ''HEAD'' then h_head_object rq b key
        else if b \<noteq> [] \<and> key \<noteq> [] \<and> m = ''DELETE'' then h_delete_object sv rq b key
        else answer (write_err rq S3NotImplemented))"

text \<open>The headers that are set before the handler runs.\<close>

definition with_id :: "string \<Rightarrow> response \<Rightarrow> response" where
  "with_id i rs = rs\<lparr>rs_headers := [(''x-amz-request-id'', Txt i), (''Server'', Txt ''telang'')] @ rs_headers rs\<rparr>"

definition s3_http :: "'b server \<Rightarrow> request \<Rightarrow> reader \<Rightarrow> 'b world handler" where
  "s3_http hs rq body = (case verify (hs_verifier hs) rq of
       Inl e \<Rightarrow> answer (write_err rq (sigv4_err_to_s3 e))
     | Inr m \<Rightarrow> dispatch hs rq (decoded_body (v_dig (hs_verifier hs)) m body))"

definition serve_http :: "'b server \<Rightarrow> request \<Rightarrow> reader \<Rightarrow> 'b site handler" where
  "serve_http hs rq body s =
     (case new_request_id (st_world s) of (i, w) \<Rightarrow>
      case (case hs_browser hs of
              Some bo \<Rightarrow>
                if should_handle bo rq then browser_dispatch bo (hs_service hs) (hs_forms hs) rq body
                else on_world (s3_http hs rq body)
            | None \<Rightarrow> on_world (s3_http hs rq body)) (s\<lparr>st_world := w\<rparr>) of
        (rs, s') \<Rightarrow> (with_id i rs, s'))"

end
