(* ===== verification/HttpProperties.thy ===== *)
theory HttpProperties
  imports Router Requests
begin

text \<open>
  What HTTP requests keep: the invariant of the service, and the contents of the objects they do
  not address.
\<close>

section \<open>Steps and handlers that keep rows\<close>

text \<open>The object \<open>i\<close> is \<open>ob\<close> with plaintext \<open>p\<close>.\<close>

definition holds :: "'b service \<Rightarrow> ('b \<Rightarrow> blobref \<Rightarrow> bytes option) \<Rightarrow> objid \<Rightarrow> object \<Rightarrow> bytes \<Rightarrow> 'b world \<Rightarrow> bool" where
  "holds sv held i ob p w \<longleftrightarrow> find_object i (w_meta w) = Some ob \<and>
     stored sv (held (w_blobs w)) (bucket_cipher sv (w_keys w)) ob p"

definition keeping :: "'b service \<Rightarrow> ('b \<Rightarrow> blobref \<Rightarrow> bytes option) \<Rightarrow> objid set \<Rightarrow> 'b world \<Rightarrow> 'b world \<Rightarrow> bool" where
  "keeping sv held P w w' \<longleftrightarrow> world_inv sv held w' \<and>
     (\<forall>i\<in>P. \<forall>ob p. holds sv held i ob p w \<longrightarrow> holds sv held i ob p w')"

definition keep_step :: "'b service \<Rightarrow> ('b \<Rightarrow> blobref \<Rightarrow> bytes option) \<Rightarrow> objid set \<Rightarrow> ('b world, 'a) step \<Rightarrow> bool" where
  "keep_step sv held P m \<longleftrightarrow> (\<forall>w r w'. world_inv sv held w \<longrightarrow> m w = (r, w') \<longrightarrow> keeping sv held P w w')"

definition keep_handler :: "'b service \<Rightarrow> ('b \<Rightarrow> blobref \<Rightarrow> bytes option) \<Rightarrow> objid set \<Rightarrow> 'b world handler \<Rightarrow> bool" where
  "keep_handler sv held P h \<longleftrightarrow> (\<forall>w rs w'. world_inv sv held w \<longrightarrow> h w = (rs, w') \<longrightarrow> keeping sv held P w w')"

named_theorems keep_intros \<open>steps and handlers that keep the invariant and the rows of a set\<close>

lemma keep_stepD: "keep_step sv held P m \<Longrightarrow> world_inv sv held w \<Longrightarrow> m w = (r, w') \<Longrightarrow> keeping sv held P w w'"
  by (simp add: keep_step_def)

lemma keep_handlerD:
  "keep_handler sv held P h \<Longrightarrow> world_inv sv held w \<Longrightarrow> h w = (rs, w') \<Longrightarrow> keeping sv held P w w'"
  by (simp add: keep_handler_def)

lemma keeping_refl: "world_inv sv held w \<Longrightarrow> keeping sv held P w w"
  by (simp add: keeping_def)

lemma keeping_trans: "keeping sv held P w w1 \<Longrightarrow> keeping sv held P w1 w2 \<Longrightarrow> keeping sv held P w w2"
  unfolding keeping_def by blast

lemma keep_answer [keep_intros]: "keep_handler sv held P (answer rs)"
  by (auto simp: keep_handler_def answer_def keeping_refl)

lemma keep_hbind [keep_intros]:
  assumes "keep_step sv held P m" "\<And>x. keep_handler sv held P (k x)"
  shows "keep_handler sv held P (hbind m err k)"
  unfolding keep_handler_def
proof (intro allI impI)
  fix w rs w' assume inv: "world_inv sv held w" and h: "hbind m err k w = (rs, w')"
  obtain r w1 where m: "m w = (r, w1)" by fastforce
  have s: "keeping sv held P w w1" using assms(1) inv m by (simp add: keep_step_def)
  show "keeping sv held P w w'"
  proof (cases r)
    case (Inl e)
    then show ?thesis using h m s by (simp add: hbind_def)
  next
    case (Inr x)
    then have "k x w1 = (rs, w')" using h m by (simp add: hbind_def)
    moreover have "world_inv sv held w1" using s by (simp add: keeping_def)
    ultimately have "keeping sv held P w1 w'" using assms(2) [of x] by (simp add: keep_handler_def)
    then show ?thesis by (rule keeping_trans [OF s])
  qed
qed

lemma keep_op:
  assumes "service_laws sv held" "small_backend sv" "valid_op op" "\<forall>b key. ObjId b key \<in> P \<longrightarrow> \<not> writes b key op"
    and "\<And>w. run_op sv op w = snd (m w)"
  shows "keep_step sv held P m"
  unfolding keep_step_def keeping_def
proof (intro allI impI conjI ballI)
  fix w r w' assume inv: "world_inv sv held w" and m: "m w = (r, w')"
  have w': "w' = run_op sv op w" using assms(5) [of w] m by simp
  note step = run_op_step [OF assms(1,2) inv assms(3)]
  show "world_inv sv held w'" using step by (simp add: w' kept_def world_inv_def)
  fix i ob p assume i: "i \<in> P" and h: "holds sv held i ob p w"
  obtain b key where id: "i = ObjId b key" by (cases i)
  have "\<forall>x\<in>set [op]. valid_op x \<and> \<not> writes b key x" using assms(3,4) i id by simp
  from run_ops_row [OF assms(1,2) inv this, of ob p w'] h
  show "holds sv held i ob p w'" by (simp add: holds_def id w')
qed

lemma keep_quiet:
  assumes "quiet_step sv held m"
  shows "keep_step sv held P m"
  unfolding keep_step_def keeping_def
proof (intro allI impI conjI ballI)
  fix w r w' assume inv: "world_inv sv held w" and m: "m w = (r, w')"
  have si: "svc_inv sv held w" "parts_ok sv w" using inv by (simp_all add: world_inv_def)
  have q: "quiet sv held w w'" by (rule quiet_stepD [OF assms svc_inv_ciphers [OF si(1)] m])
  have t: "tables (w_meta w') = tables (w_meta w)" "w_keys w' = w_keys w" using q by (simp_all add: quiet_def)
  show "world_inv sv held w'" using quiet_inv [OF si(1) q] parts_ok_tables [OF t(1)] si(2) by (simp add: world_inv_def)
  fix i ob p assume i: "i \<in> P" and h: "holds sv held i ob p w"
  have "stored sv (held (w_blobs w')) (bucket_cipher sv (w_keys w)) ob p"
    using h quiet_held [OF q] unfolding holds_def by (blast intro: stored_mono)
  then show "holds sv held i ob p w'" using h tables_find(2) [OF t(1)] t(2) by (simp add: holds_def)
qed

section \<open>The handlers\<close>

text \<open>The parameters of the HTTP layer: the service, and an XML decoder that yields at most one
  part for each byte of the document.\<close>

definition server_laws :: "'b server \<Rightarrow> ('b \<Rightarrow> blobref \<Rightarrow> bytes option) \<Rightarrow> bool" where
  "server_laws hs held \<longleftrightarrow> service_laws (hs_service hs) held \<and> small_backend (hs_service hs) \<and>
     (\<forall>doc req. hs_unmarshal hs doc = Some req \<longrightarrow> length req \<le> length doc)"

definition sound :: "'b service \<Rightarrow> ('b \<Rightarrow> blobref \<Rightarrow> bytes option) \<Rightarrow> bool" where
  "sound sv held \<longleftrightarrow> service_laws sv held \<and> small_backend sv"

lemma quiet_list_buckets: "quiet_step sv held svc_list_buckets"
  unfolding svc_list_buckets_def
  by (intro quiet_intros) (auto simp: list_buckets_def ebind_def exec_def sql_def gets_def tables_def split: list.splits option.splits prod.splits)

lemma keep_reads [keep_intros]:
  "keep_step sv held P svc_list_buckets" "keep_step sv held P (svc_head_object b key)"
  "keep_step sv held P (on_meta (get_bucket b))"
  by (rule keep_quiet, intro quiet_intros quiet_list_buckets quiet_head get_tables(1))+

lemma keep_gets [keep_intros]:
  assumes "sound sv held"
  shows "keep_step sv held P (svc_get_object sv b key)" "keep_step sv held P (svc_get_object_range sv b key s e)"
  using assms by (auto simp: sound_def intro: keep_quiet quiet_get)

text \<open>The operations that write, for sets that they spare.\<close>

lemma keep_writes [keep_intros]:
  assumes "sound sv held"
  shows "0 \<le> n \<Longrightarrow> n \<le> 2 ^ 58 \<Longrightarrow> ObjId b key \<notin> P \<Longrightarrow> keep_step sv held P (svc_put_object sv b key ct n r)"
    "ObjId b key \<notin> P \<Longrightarrow> keep_step sv held P (svc_delete_object sv b key)"
    "keep_step sv held P (svc_create_bucket sv b)" "keep_step sv held P (svc_delete_bucket b)"
    "keep_step sv held P (svc_create_multipart sv b key)"
    "0 \<le> n \<Longrightarrow> keep_step sv held P (svc_upload_part sv uid pn n r)"
    "length req \<le> 2 ^ 20 \<Longrightarrow> ObjId b key \<notin> P \<Longrightarrow> keep_step sv held P (svc_complete_multipart sv b key uid req ct)"
    "keep_step sv held P (svc_abort_multipart uid)"
proof -
  have l: "service_laws sv held" "small_backend sv" using assms by (simp_all add: sound_def)
  show "keep_step sv held P (svc_put_object sv b key ct n r)" if "0 \<le> n" "n \<le> 2 ^ 58" "ObjId b key \<notin> P"
    by (rule keep_op [OF l, of "PutOp b key ct n r"]) (use that in auto)
  show "keep_step sv held P (svc_delete_object sv b key)" if "ObjId b key \<notin> P"
    by (rule keep_op [OF l, of "DeleteOp b key"]) (use that in auto)
  show "keep_step sv held P (svc_create_bucket sv b)" by (rule keep_op [OF l, of "CreateOp b"]) auto
  show "keep_step sv held P (svc_delete_bucket b)" by (rule keep_op [OF l, of "DropOp b"]) auto
  show "keep_step sv held P (svc_create_multipart sv b key)" by (rule keep_op [OF l, of "InitiateOp b key"]) auto
  show "keep_step sv held P (svc_upload_part sv uid pn n r)" if "0 \<le> n"
    by (rule keep_op [OF l, of "PartOp uid pn n r"]) (use that in auto)
  show "keep_step sv held P (svc_complete_multipart sv b key uid req ct)" if "length req \<le> 2 ^ 20" "ObjId b key \<notin> P"
    by (rule keep_op [OF l, of "CompleteOp b key uid req ct"]) (use that in auto)
  show "keep_step sv held P (svc_abort_multipart uid)" by (rule keep_op [OF l, of "AbortOp uid"]) auto
qed

text \<open>The staged body is no longer than the backend's ceiling.\<close>

lemma stage_temp_size:
  assumes "stage_temp sv r m w = (Inr (f, n), w')"
  shows "0 \<le> n \<and> n \<le> m"
  using assms
  by (auto simp: stage_temp_def ebind_Inr ecatch_Inr split_beta split: if_splits)

lemma quiet_stage_temp: "quiet_step sv held (stage_temp sv r m)"
  unfolding stage_temp_def by (auto simp: split_beta intro!: quiet_intros split: option.splits)

lemma keep_staged [keep_intros]:
  assumes "sound sv held" "\<And>n r. 0 \<le> n \<Longrightarrow> n \<le> 2 ^ 38 \<Longrightarrow> keep_handler sv held P (k n r)"
  shows "keep_handler sv held P (with_staged sv rq body k)"
  unfolding keep_handler_def
proof (intro allI impI)
  fix w rs w' assume inv: "world_inv sv held w" and h: "with_staged sv rq body k w = (rs, w')"
  obtain r w1 where m: "stage_temp sv body (be_max (sv_backend sv)) w = (r, w1)" by fastforce
  have s: "keeping sv held P w w1" by (rule keep_stepD [OF keep_quiet [OF quiet_stage_temp] inv m])
  show "keeping sv held P w w'"
  proof (cases r)
    case (Inl e)
    then show ?thesis using h m s by (simp add: with_staged_def hbind_def)
  next
    case (Inr x)
    obtain f n where x: "x = (f, n)" by fastforce
    have n: "0 \<le> n" "n \<le> 2 ^ 38" using stage_temp_size [OF m [unfolded Inr x]] assms(1) by (auto simp: sound_def small_backend_def)
    obtain rs1 w2 where k: "k n (file_reader f w1) w1 = (rs1, w2)" by fastforce
    have w': "w' = snd (remove_file f w2)" using h m k by (simp add: with_staged_def hbind_def Inr x)
    have "world_inv sv held w1" using s by (simp add: keeping_def)
    then have s2: "keeping sv held P w1 w2" using assms(2) [OF n] k by (simp add: keep_handler_def)
    have "keep_step sv held P (remove_file f)" by (rule keep_quiet) (rule quiet_temp_files)
    moreover have "world_inv sv held w2" using s2 by (simp add: keeping_def)
    ultimately have "keeping sv held P w2 w'" unfolding keep_step_def w' by (metis surjective_pairing)
    then show ?thesis using keeping_trans [OF s] keeping_trans [OF s2] by blast
  qed
qed

section \<open>The S3 handlers\<close>

lemma put_body_size_ge: "put_body_size rq = Inr (Some n) \<Longrightarrow> 0 \<le> n"
  by (auto simp: put_body_size_def Let_def split: if_splits option.splits)

lemma keep_put:
  assumes "sound sv held" "ObjId b key \<notin> P"
  shows "keep_handler sv held P (h_put_object sv rq body b key)"
proof -
  have "be_max (sv_backend sv) \<le> 2 ^ 38" using assms(1) by (simp add: sound_def small_backend_def)
  then show ?thesis unfolding h_put_object_def Let_def
    by (auto intro!: keep_intros keep_writes(1) assms dest: put_body_size_ge split: sum.split option.split)
qed

lemma keep_part:
  assumes "sound sv held"
  shows "keep_handler sv held P (h_upload_part sv rq body b key)"
  unfolding h_upload_part_def Let_def
  by (auto intro!: keep_intros assms dest: put_body_size_ge split: sum.split option.split)

lemma keep_get:
  assumes "sound sv held"
  shows "keep_handler sv held P (h_get_object sv rq b key)"
  unfolding h_get_object_def h_get_range_def
  by (auto intro!: keep_intros assms split: option.split)

lemma read_all_length: "read_all (limit_reader (2 ^ 20) r) = (doc, e) \<Longrightarrow> length doc \<le> 2 ^ 20"
  by (auto simp: read_all_def limit_reader_def split: prod.splits ending.splits if_splits)

lemma keep_complete:
  assumes "sound sv held" "ObjId b key \<notin> P" "\<forall>doc req. um doc = Some req \<longrightarrow> length req \<le> length doc"
  shows "keep_handler sv held P (h_complete_multipart sv um rq body b key)"
proof -
  have "length req \<le> 2 ^ 20" if "um doc = Some req" "read_all (limit_reader (2 ^ 20) body) = (doc, e)" for doc req e
    using assms(3) that read_all_length [OF that(2)] by fastforce
  then show ?thesis unfolding h_complete_multipart_def Let_def
    by (auto intro!: keep_intros assms split: prod.split option.split)
qed

lemma list_loop_tables: "tables (snd (list_loop b p d mx st s)) = tables s"
proof (induction b p d mx st s rule: list_loop.induct)
  case (1 b p d mx st s)
  obtain r s1 where lo: "list_objects b p (l_cursor st) (mx - l_emitted st) s = (r, s1)" by fastforce
  have t: "tables s1 = tables s" using list_objects_tables [of b p "l_cursor st" "mx - l_emitted st" s] lo by simp
  show ?case
  proof (cases r)
    case (Inl e)
    then show ?thesis using lo t by (simp add: list_loop.simps [of b p d mx st s])
  next
    case (Inr x)
    obtain batch trunc where x: "x = (batch, trunc)" by fastforce
    obtain stop st' where lb: "list_batch p d mx batch st = (stop, st')" by fastforce
    have "tables (snd (key_has_more_after b p c s1)) = tables s1" for c
      using list_objects_tables [of b p c 1 s1] by (auto simp: key_has_more_after_def split: prod.splits sum.splits)
    then have "tables s2 = tables s1" if "key_has_more_after b p c s1 = (m, s2)" for c m s2 using that by (metis snd_conv)
    then show ?thesis using 1 [OF lo [symmetric] Inr x [symmetric] _ lb [symmetric]] lo t
      by (auto simp: list_loop.simps [of b p d mx st s] Inr x lb split: prod.splits bool.splits)
  qed
qed

lemma list_objects_v2_tables: "list_objects_v2 b q s = (r, s') \<Longrightarrow> tables s' = tables s"
proof -
  assume l: "list_objects_v2 b q s = (r, s')"
  obtain g s1 where g: "get_bucket b s = (g, s1)" by fastforce
  have t: "tables s1 = tables s" by (rule get_tables(1) [OF g])
  have "tables s' = tables s1" if "list_loop b p d mx st s1 = (x, s')" for p d mx st x
    using list_loop_tables [of b p d mx st s1] that by simp
  then show ?thesis using l g t
    by (auto simp: list_objects_v2_def split: if_splits sum.splits option.splits prod.splits)
qed

lemma keep_others:
  assumes "sound sv held"
  shows "keep_handler sv held P (h_list_buckets rq)" "keep_handler sv held P (h_create_bucket sv rq b)"
    "keep_handler sv held P (h_delete_bucket rq b)" "keep_handler sv held P (h_list_objects rq b)"
    "keep_handler sv held P (h_head_object rq b key)" "keep_handler sv held P (h_create_multipart sv rq b key)"
    "keep_handler sv held P (h_abort_multipart rq)"
    "ObjId b key \<notin> P \<Longrightarrow> keep_handler sv held P (h_delete_object sv rq b key)"
proof -
  have "keep_step sv held P (on_meta (list_objects_v2 b q))" for q
    by (rule keep_quiet, rule quiet_on_meta) (auto dest: list_objects_v2_tables)
  then show "keep_handler sv held P (h_list_objects rq b)" unfolding h_list_objects_def by (intro keep_intros)
  show "keep_handler sv held P (h_list_buckets rq)" "keep_handler sv held P (h_create_bucket sv rq b)"
    "keep_handler sv held P (h_delete_bucket rq b)"
    "keep_handler sv held P (h_head_object rq b key)" "keep_handler sv held P (h_create_multipart sv rq b key)"
    "keep_handler sv held P (h_abort_multipart rq)"
    unfolding h_list_buckets_def h_create_bucket_def h_delete_bucket_def h_head_object_def h_create_multipart_def h_abort_multipart_def
    by (intro keep_intros assms)+
  show "keep_handler sv held P (h_delete_object sv rq b key)" if "ObjId b key \<notin> P"
    unfolding h_delete_object_def by (intro keep_intros assms that)
qed

section \<open>Requests\<close>

text \<open>The objects a request may write: the one its path names, or those of the bucket of a
  browser route.\<close>

definition browse_bucket :: "string \<Rightarrow> string option" where
  "browse_bucket p = (if has_prefix p ''/_browse/'' then map_option fst (cut_at CHR ''/'' (trim_prefix p ''/_browse/'')) else None)"

definition targets :: "request \<Rightarrow> objid set" where
  "targets rq = (if rq_method rq = ''GET'' \<or> rq_method rq = ''HEAD'' then {}
     else {ObjId b key | b key. split_path (rq_path rq) = (b, key) \<or> browse_bucket (rq_path rq) = Some b})"

lemma keep_dispatch:
  assumes "sound (hs_service hs) held" "\<forall>doc req. hs_unmarshal hs doc = Some req \<longrightarrow> length req \<le> length doc"
    and "targets rq \<inter> P = {}"
  shows "keep_handler (hs_service hs) held P (dispatch hs rq body)"
proof -
  obtain b key where p: "split_path (rq_path rq) = (b, key)" by fastforce
  have free: "ObjId b key \<notin> P" if "rq_method rq \<noteq> ''GET''" "rq_method rq \<noteq> ''HEAD''"
    using assms(3) p that by (auto simp: targets_def)
  note hs = keep_answer keep_others [OF assms(1)] keep_get [OF assms(1)] keep_part [OF assms(1)]
    keep_put [OF assms(1)] keep_complete [OF assms(1) _ assms(2)]
  show ?thesis unfolding dispatch_def Let_def p prod.case
    by (cases "rq_method rq = ''GET''"; cases "rq_method rq = ''HEAD''") (simp_all add: hs free)
qed

definition keep_site :: "'b service \<Rightarrow> ('b \<Rightarrow> blobref \<Rightarrow> bytes option) \<Rightarrow> objid set \<Rightarrow> 'b site handler \<Rightarrow> bool" where
  "keep_site sv held P h \<longleftrightarrow> (\<forall>s rs s'. world_inv sv held (st_world s) \<longrightarrow> h s = (rs, s') \<longrightarrow>
     keeping sv held P (st_world s) (st_world s'))"

lemma keep_siteD: "keep_site sv held P h \<Longrightarrow> world_inv sv held (st_world s) \<Longrightarrow> h s = (rs, s') \<Longrightarrow>
    keeping sv held P (st_world s) (st_world s')"
  by (simp add: keep_site_def)

lemma keep_on_world: "keep_handler sv held P h \<Longrightarrow> keep_site sv held P (on_world h)"
  by (auto simp: keep_site_def on_world_def split: prod.splits dest: keep_handlerD)

lemma keep_site_answer: "keep_site sv held P (answer rs)"
  by (auto simp: keep_site_def answer_def keeping_refl)

lemma keep_same_world: "(\<And>s rs s'. h s = (rs, s') \<Longrightarrow> st_world s' = st_world s) \<Longrightarrow> keep_site sv held P h"
  unfolding keep_site_def by (metis keeping_refl)

lemma is_logged_in_world: "is_logged_in sv rq s = (b, s') \<Longrightarrow> st_world s' = st_world s"
  by (auto simp: is_logged_in_def split: option.splits if_splits)

lemma keep_require:
  assumes "keep_site sv held P k"
  shows "keep_site sv held P (require_session bo sv rq k)"
  using assms unfolding keep_site_def require_session_def
  by (auto split: prod.splits bool.splits if_splits dest: is_logged_in_world simp: keeping_refl) (metis is_logged_in_world)

lemma keep_draw:
  assumes "rand_read n w = (r, w')" "world_inv sv held w"
  shows "keeping sv held P w w'"
  using keep_stepD [OF keep_quiet [OF quiet_rand_read] assms(2,1)] .

lemma keep_upload:
  assumes "sound sv held" "\<forall>key. ObjId b key \<notin> P" "\<not> n \<le> 0" "\<not> max_upload_bytes < n" "\<And>x. keep_handler sv held P (k x)"
  shows "keep_handler sv held P (hbind (svc_put_object sv b key ct n r) e k)"
  using assms by (intro keep_hbind keep_writes(1)) (auto simp: max_upload_bytes_def)

lemma keep_browser:
  assumes "sound sv held" "targets rq \<inter> P = {}"
  shows "keep_site sv held P (browser_dispatch bo sv fm rq body)"
proof -
  have login: "keep_site sv held P (handle_login bo sv fm rq body)"
    unfolding keep_site_def handle_login_def new_session_def Let_def
    by (auto split: if_splits sum.splits prod.splits simp: keeping_refl dest: keep_draw)
  have logout: "keep_site sv held P (handle_logout rq)"
    by (rule keep_same_world) (auto simp: handle_logout_def split: option.splits)
  have listing: "keep_site sv held P (render_listing bo sv rq b)" for b
    unfolding keep_site_def
  proof (intro allI impI)
    fix s rs s' assume inv: "world_inv sv held (st_world s)" and h: "render_listing bo sv rq b s = (rs, s')"
    have q: "quiet_step sv held (on_meta (get_bucket b))" "quiet_step sv held (on_meta (list_objects b [] [] 1000))"
      by (rule quiet_on_meta, erule get_tables(1)) (rule quiet_on_meta, use list_objects_tables in \<open>metis snd_conv\<close>)
    obtain r1 w1 where g: "on_meta (get_bucket b) (st_world s) = (r1, w1)" by fastforce
    obtain r2 w2 where l: "on_meta (list_objects b [] [] 1000) w1 = (r2, w2)" by fastforce
    have k1: "keeping sv held P (st_world s) w1" by (rule keep_stepD [OF keep_quiet [OF q(1)] inv g])
    then have "world_inv sv held w1" by (simp add: keeping_def)
    then have "keeping sv held P w1 w2" by (rule keep_stepD [OF keep_quiet [OF q(2)] _ l])
    then have k2: "keeping sv held P (st_world s) w2" by (rule keeping_trans [OF k1])
    show "keeping sv held P (st_world s) (st_world s')"
      using h g l k1 k2 by (auto simp: render_listing_def split: sum.splits prod.splits dest!: is_logged_in_world)
  qed
  have up: "keep_site sv held P (handle_upload bo sv fm rq body b)" if "\<forall>key. ObjId b key \<notin> P" for b
    unfolding handle_upload_def Let_def
    by (intro keep_require) (auto intro!: keep_site_answer keep_on_world keep_answer keep_upload assms(1) that split: sum.split option.split)
  have del: "keep_site sv held P (handle_delete bo sv rq b key)" if "ObjId b key \<notin> P" for b key
    unfolding handle_delete_def by (intro keep_require keep_on_world keep_intros assms(1) that)
  have down: "keep_handler sv held P (handle_download sv b key)" for b key
    unfolding handle_download_def by (auto intro!: keep_intros assms(1))
  have route: "keep_site sv held P (handle_browse_route bo sv fm rq body (trim_prefix (rq_path rq) ''/_browse/''))"
    if "has_prefix (rq_path rq) ''/_browse/''"
  proof (cases "cut_at CHR ''/'' (trim_prefix (rq_path rq) ''/_browse/'')")
    case None
    then show ?thesis unfolding handle_browse_route_def by (simp add: keep_site_answer)
  next
    case (Some x)
    obtain b key where x: "x = (b, key)" by fastforce
    have "browse_bucket (rq_path rq) = Some b" using Some x that by (simp add: browse_bucket_def)
    then have free: "\<forall>key. ObjId b key \<notin> P" if "rq_method rq = ''POST''"
      using assms(2) that by (auto simp: targets_def)
    show ?thesis unfolding handle_browse_route_def Some x option.case prod.case
      by (cases "rq_method rq = ''POST''") (simp_all add: up del keep_on_world down keep_site_answer free)
  qed
  show ?thesis unfolding browser_dispatch_def Let_def
    by (auto intro!: login logout listing route keep_site_answer split: prod.split)
qed

lemma keep_serve:
  assumes "server_laws hs held" "targets rq \<inter> P = {}"
  shows "keep_site (hs_service hs) held P (serve_http hs rq body)"
  unfolding keep_site_def
proof (intro allI impI)
  let ?sv = "hs_service hs"
  fix s rs s' assume inv: "world_inv ?sv held (st_world s)" and h: "serve_http hs rq body s = (rs, s')"
  have sound: "sound ?sv held" and um: "\<forall>doc req. hs_unmarshal hs doc = Some req \<longrightarrow> length req \<le> length doc"
    using assms(1) by (simp_all add: server_laws_def sound_def)
  obtain r w where r: "rand_read 16 (st_world s) = (r, w)" by fastforce
  have k1: "keeping ?sv held P (st_world s) w" by (rule keep_draw [OF r inv])
  then have inv1: "world_inv ?sv held w" by (simp add: keeping_def)
  have "keep_handler ?sv held P (s3_http hs rq body)"
    unfolding s3_http_def by (auto intro!: keep_answer keep_dispatch sound assms(2) split: sum.split simp: um)
  then have s3: "keep_site ?sv held P (on_world (s3_http hs rq body))" by (rule keep_on_world)
  let ?h = "case hs_browser hs of Some bo \<Rightarrow>
      if should_handle bo rq then browser_dispatch bo ?sv (hs_forms hs) rq body else on_world (s3_http hs rq body)
    | None \<Rightarrow> on_world (s3_http hs rq body)"
  have k: "keep_site ?sv held P ?h" using s3 keep_browser [OF sound assms(2)] by (auto split: option.split)
  obtain rs1 s1 where h1: "?h (s\<lparr>st_world := w\<rparr>) = (rs1, s1)" by fastforce
  then have "s' = s1" using h r by (auto simp: serve_http_def new_request_id_def)
  moreover have "keeping ?sv held P w (st_world s1)"
    using keep_siteD [OF k _ h1] inv1 by simp
  ultimately show "keeping ?sv held P (st_world s) (st_world s')" using keeping_trans [OF k1] by simp
qed

end
