(* ===== verification/HttpClaims.thy ===== *)
theory HttpClaims
  imports HttpProperties GoNumbers
begin

text \<open>
  The properties of the HTTP layer: what sequences of requests, at any times and from anyone, do
  to the stored objects.
\<close>

section \<open>Sequences of requests\<close>

definition at_time :: "int \<Rightarrow> 'b server \<Rightarrow> 'b server" where
  "at_time t hs = hs\<lparr>hs_service := (hs_service hs)\<lparr>sv_now := t\<rparr>, hs_verifier := (hs_verifier hs)\<lparr>v_now := t * second\<rparr>\<rparr>"

type_synonym http_event = "int \<times> request \<times> reader"

fun run_http :: "'b server \<Rightarrow> http_event list \<Rightarrow> 'b site \<Rightarrow> 'b site" where
  "run_http hs [] s = s"
| "run_http hs ((t, rq, body) # es) s = run_http hs es (snd (serve_http (at_time t hs) rq body s))"

lemma at_time_simps [simp]:
  "hs_service (at_time t hs) = (hs_service hs)\<lparr>sv_now := t\<rparr>" "hs_unmarshal (at_time t hs) = hs_unmarshal hs"
  "hs_browser (at_time t hs) = hs_browser hs" "hs_verifier (at_time t hs) = (hs_verifier hs)\<lparr>v_now := t * second\<rparr>"
  "hs_forms (at_time t hs) = hs_forms hs"
  by (simp_all add: at_time_def)

text \<open>The invariant does not depend on the clock.\<close>

lemma now_bucket_cipher [simp]: "bucket_cipher (sv\<lparr>sv_now := t\<rparr>) = bucket_cipher sv"
  by (simp add: bucket_cipher_def fun_eq_iff split: sum.split)

lemma now_stored [simp]: "stored (sv\<lparr>sv_now := t\<rparr>) = stored sv"
  by (simp add: stored_def fun_eq_iff)

lemma now_inv [simp]:
  "world_inv (sv\<lparr>sv_now := t\<rparr>) held w = world_inv sv held w" "holds (sv\<lparr>sv_now := t\<rparr>) held i ob p w = holds sv held i ob p w"
  "keeping (sv\<lparr>sv_now := t\<rparr>) held P w w' = keeping sv held P w w'"
proof -
  show inv: "world_inv (sv\<lparr>sv_now := t\<rparr>) held w = world_inv sv held w" for w
    by (simp add: world_inv_def svc_inv_def rows_ok_def parts_ok_def)
  show h: "holds (sv\<lparr>sv_now := t\<rparr>) held i ob p w = holds sv held i ob p w" for i ob p w by (simp add: holds_def)
  show "keeping (sv\<lparr>sv_now := t\<rparr>) held P w w' = keeping sv held P w w'" unfolding keeping_def inv h ..
qed

lemma now_laws: "server_laws hs held \<Longrightarrow> server_laws (at_time t hs) held"
  by (simp add: server_laws_def service_laws_def small_backend_def)

lemma serve_keeping:
  assumes "server_laws hs held" "world_inv (hs_service hs) held (st_world s)" "targets rq \<inter> P = {}"
    and "serve_http (at_time t hs) rq body s = (rs, s')"
  shows "keeping (hs_service hs) held P (st_world s) (st_world s')"
  using keep_siteD [OF keep_serve [OF now_laws [OF assms(1)] assms(3)] _ assms(4)] assms(2) by simp

lemma run_http_keeping:
  assumes "server_laws hs held" "world_inv (hs_service hs) held (st_world s)" "\<forall>(t, rq, body)\<in>set es. targets rq \<inter> P = {}"
  shows "keeping (hs_service hs) held P (st_world s) (st_world (run_http hs es s))"
  using assms
proof (induction es arbitrary: s)
  case (Cons x es)
  obtain t rq body where x: "x = (t, rq, body)" by (cases x)
  obtain rs s1 where h: "serve_http (at_time t hs) rq body s = (rs, s1)" by fastforce
  have k: "keeping (hs_service hs) held P (st_world s) (st_world s1)"
    by (rule serve_keeping [OF Cons.prems(1,2) _ h]) (use Cons.prems(3) in \<open>simp add: x\<close>)
  then have "world_inv (hs_service hs) held (st_world s1)" by (simp add: keeping_def)
  from Cons.IH [OF Cons.prems(1) this] Cons.prems(3)
  show ?case using keeping_trans [OF k] by (simp add: x h)
qed (simp add: keeping_refl)

section \<open>What a successful response tells\<close>

lemma hbind_cases:
  assumes "hbind m err k w = (rs, w')"
  obtains (err) e where "m w = (Inl e, w')" "rs = err e"
  | (ok) x w1 where "m w = (Inr x, w1)" "k x w1 = (rs, w')"
  using assms by (auto simp: hbind_def split: prod.splits sum.splits)

lemma write_service_err_doc: "\<exists>c m x. rs_body (write_service_err rq e) = ErrorDoc c m x"
  using service_err_s3 [of e] by (auto simp: write_service_err_def write_err_def)

lemma s3_doc: "rs_body (write_err rq S3EntityTooLarge) \<noteq> Empty" "rs_body (write_err rq S3InternalError) \<noteq> Empty"
  "rs_body (write_err rq S3InvalidArgument) \<noteq> Empty" "rs_body (write_err rq S3NotImplemented) \<noteq> Empty"
  by (simp_all add: write_err_def s3_error_defs)

lemma stage_temp_Inr:
  assumes "stage_temp sv r m w = (Inr (f, n), w')" "0 \<le> m" "m \<le> 2 ^ 38"
  shows "w_files w' f = Some (fst r) \<and> n = int (length (fst r))"
proof -
  obtain d err where d: "read_all (limit_reader (i64 (m + 1)) r) = (d, err)" by fastforce
  have f: "w_files w' f = Some d" and err: "err = None" and n: "n = int (length d)" "n \<le> m"
    using assms(1) d by (auto simp: stage_temp_def ebind_Inr ecatch_Inr put_file_def split: if_splits option.splits elim!: os_do_Inr)
  have "i64 (m + 1) = m + 1" using assms(2,3) by (intro i64_id) auto
  then have "d = fst r" using d err n assms(2)
    by (auto simp: read_all_def limit_reader_def split: prod.splits ending.splits if_splits)
  then show ?thesis using f n by simp
qed

text \<open>The bytes of a \<^verbatim>\<open>PutObject\<close> request: as many of the decoded body as are declared.\<close>

definition uploaded :: "request \<Rightarrow> reader \<Rightarrow> bytes" where
  "uploaded rq body = (case put_body_size rq of Inr (Some n) \<Rightarrow> take (nat n) (fst body) | _ \<Rightarrow> fst body)"

lemma put_object_holds:
  assumes "sound sv held" "world_inv sv held w" "0 \<le> n" "n \<le> 2 ^ 58" "svc_put_object sv b key ct n r w = (Inr ob, w')"
  shows "holds sv held (ObjId b key) ob (take (nat n) (fst r)) w' \<and> world_inv sv held w' \<and>
    o_etag ob = hex_encode (sv_md5 sv (take (nat n) (fst r)))"
proof -
  have "service_laws sv held" "svc_inv sv held w" using assms(1,2) by (simp_all add: sound_def world_inv_def)
  note c = put_object_cases [OF this assms(3-5)]
  then have t: "tables (w_meta w') = tables (put_object_row ob (w_meta w))" "obj_id ob = ObjId b key" by simp_all
  have "find_object (ObjId b key) (w_meta w') = Some ob"
    using tables_find(2) [OF t(1)] obj.lookup_put_same [of ob "w_meta w"] t(2) by simp
  moreover have "world_inv sv held w'"
    using keep_stepD [OF keep_writes(1) [OF assms(1,3,4), of b key "{}"] assms(2,5)] by (simp add: keeping_def)
  ultimately show ?thesis using c by (simp add: holds_def)
qed

lemma h_put_holds:
  assumes "sound sv held" "world_inv sv held w" "h_put_object sv rq body b key w = (rs, w')" "rs_body rs = Empty" "0 \<le> be_max (sv_backend sv)"
  shows "\<exists>ob. holds sv held (ObjId b key) ob (uploaded rq body) w' \<and> rs = plain 200 [(''ETag'', Txt (quote (o_etag ob)))] \<and>
    o_etag ob = hex_encode (sv_md5 sv (uploaded rq body))"
proof -
  let ?ct = "header_get ''Content-Type'' rq"
  let ?put = "\<lambda>n r. hbind (svc_put_object sv b key ?ct n r) (write_service_err rq)
            (\<lambda>ob. answer (plain 200 [(''ETag'', Txt (quote (o_etag ob)))]))"
  have max: "be_max (sv_backend sv) \<le> 2 ^ 38" using assms(1) by (simp add: sound_def small_backend_def)
  have put: "\<exists>ob. holds sv held (ObjId b key) ob (take (nat n) (fst r)) w2 \<and> world_inv sv held w2 \<and>
      rs = plain 200 [(''ETag'', Txt (quote (o_etag ob)))] \<and> o_etag ob = hex_encode (sv_md5 sv (take (nat n) (fst r)))"
    if n: "0 \<le> n" "n \<le> 2 ^ 38" and p: "?put n r w1 = (rs, w2)" and inv: "world_inv sv held w1" for n r w1 w2
    using p
  proof (cases rule: hbind_cases)
    case (err e)
    then show ?thesis using write_service_err_doc [of rq e] assms(4) by auto
  next
    case (ok ob w3)
    have "n \<le> 2 ^ 58" using n(2) by simp
    from put_object_holds [OF assms(1) inv n(1) this ok(1)] show ?thesis using ok(2) by (auto simp: answer_def)
  qed
  show ?thesis
  proof (cases "put_body_size rq")
    case (Inl e)
    then have "e = S3InvalidArgument" by (auto simp: put_body_size_def Let_def split: if_splits option.splits)
    then show ?thesis using assms(3,4) Inl s3_doc by (auto simp: h_put_object_def answer_def)
  next
    case (Inr sz)
    show ?thesis
    proof (cases sz)
      case (Some n)
      have "0 \<le> n" using put_body_size_ge Inr Some by blast
      moreover have "n \<le> be_max (sv_backend sv)" "?put n body w = (rs, w')"
        using assms(3,4) Inr Some s3_doc by (auto simp: h_put_object_def answer_def Let_def split: if_splits)
      ultimately show ?thesis using put [of n body w w'] assms(2) max by (auto simp: uploaded_def Inr Some)
    next
      case None
      have ws: "with_staged sv rq body ?put w = (rs, w')" using assms(3) Inr None by (simp add: h_put_object_def Let_def)
      show ?thesis using ws [unfolded with_staged_def]
      proof (cases rule: hbind_cases)
        case (err e)
        then show ?thesis using assms(4) s3_doc by (auto split: if_splits)
      next
        case (ok x w1)
        obtain f n where x: "x = (f, n)" by fastforce
        note st = stage_temp_Inr [OF ok(1) [unfolded x] assms(5) max]
        have n: "0 \<le> n" "n \<le> 2 ^ 38" using stage_temp_size [OF ok(1) [unfolded x]] max by auto
        obtain w2 where p: "?put n (file_reader f w1) w1 = (rs, w2)" and w': "w' = snd (remove_file f w2)"
          using ok(2) by (auto simp: x split: prod.splits)
        have "world_inv sv held w1" using keep_stepD [OF keep_quiet [OF quiet_stage_temp] assms(2) ok(1)] by (simp add: keeping_def)
        from put [OF n p this] obtain ob where ob: "holds sv held (ObjId b key) ob (take (nat n) (fst (file_reader f w1))) w2"
          "world_inv sv held w2" "rs = plain 200 [(''ETag'', Txt (quote (o_etag ob)))]"
          "o_etag ob = hex_encode (sv_md5 sv (take (nat n) (fst (file_reader f w1))))" by blast
        have "keep_step sv held {ObjId b key} (remove_file f)" by (rule keep_quiet) (rule quiet_temp_files)
        then have "keeping sv held {ObjId b key} w2 w'"
          unfolding w' using keep_stepD [OF _ ob(2)] by (metis surjective_pairing)
        then have "holds sv held (ObjId b key) ob (take (nat n) (fst (file_reader f w1))) w'" using ob(1) by (simp add: keeping_def)
        moreover have "take (nat n) (fst (file_reader f w1)) = uploaded rq body"
          using st by (simp add: file_reader_def uploaded_def Inr None)
        ultimately show ?thesis using ob by auto
      qed
    qed
  qed
qed

text \<open>Downloads that do not break off.\<close>

definition fetch :: "'b service \<Rightarrow> blobref \<Rightarrow> ('b, reader) step" where
  "fetch sv ref = (case sv_cache sv of Some ca \<Rightarrow> ca_stream ca ref | None \<Rightarrow> be_get (sv_backend sv) ref)"

definition reliable :: "'b service \<Rightarrow> bool" where
  "reliable sv \<longleftrightarrow> (\<forall>ref st r st'. fetch sv ref st = (Inr r, st') \<longrightarrow> snd r = Eof)"

lemma now_reliable: "reliable sv \<Longrightarrow> reliable (sv\<lparr>sv_now := t\<rparr>)"
proof -
  have "fetch (sv\<lparr>sv_now := t\<rparr>) = fetch sv" by (simp add: fetch_def fun_eq_iff split: option.split)
  then show "reliable sv \<Longrightarrow> reliable (sv\<lparr>sv_now := t\<rparr>)" by (simp only: reliable_def simp_thms)
qed

lemma get_object_source:
  assumes "svc_get_object sv b key w = (Inr (ob, d), w')" "reliable sv"
  shows "snd (d_src d) = Eof"
proof -
  obtain x w1 c w2 ct w3 where "svc_head_object b key w = (Inr x, w1)" "cipher_for sv b w1 = (Inr c, w2)"
    and o: "open_ciphertext sv x w2 = (Inr ct, w3)"
    and fin: "(case new_decrypter c ct of Inl e \<Rightarrow> efail e | Inr d \<Rightarrow> eret (x, d)) w3 = (Inr (ob, d), w')"
    using assms(1) unfolding svc_get_object_def ebind_Inr ecatch_Inr by auto
  have "new_decrypter c ct = Inr d" using fin by (auto split: sum.splits)
  moreover have "open_ciphertext sv x = on_blobs (fetch sv (ref_of x))" by (simp add: open_ciphertext_def fetch_def split: option.split)
  then obtain st where "fetch sv (ref_of x) (w_blobs w2) = (Inr ct, st)" using o by (auto simp: on_blobs_def split: prod.splits)
  then have "snd ct = Eof" using assms(2) unfolding reliable_def by blast
  ultimately show ?thesis using new_decrypter_src by metis
qed

lemma get_holds:
  assumes "sound sv held" "world_inv sv held w" "reliable sv" "holds sv held (ObjId b key) ob p w"
    and "svc_get_object sv b key w = (Inr (ob', d), w')"
  shows "ob' = ob \<and> stream_out d = Data p None \<and> o_size ob = int (length p)"
proof -
  have "service_laws sv held" "svc_inv sv held w" using assms(1,2) by (simp_all add: sound_def world_inv_def)
  from get_object_spec [OF this _ _ assms(5)] assms(4) get_object_source [OF assms(5,3)]
  show ?thesis by (auto simp: holds_def stored_def stream_out_def)
qed

lemma h_get_holds:
  assumes "sound sv held" "world_inv sv held w" "reliable sv" "holds sv held (ObjId b key) ob p w"
    and "h_get_object sv rq b key w = (rs, w')" "header_get ''Range'' rq = []" "rs_body rs = Data bs err"
  shows "rs_body rs = Data p None \<and> rs_status rs = 200 \<and> (''ETag'', Txt (quote (o_etag ob))) \<in> set (rs_headers rs) \<and>
    (''Content-Length'', Txt (format_int (int (length p)))) \<in> set (rs_headers rs)"
proof -
  have "hbind (svc_get_object sv b key) (write_service_err rq) (\<lambda>(ob, d). answer \<lparr>rs_status = 200, rs_headers =
            [(''ETag'', Txt (quote (o_etag ob))), (''Content-Length'', Txt (format_int (o_size ob))),
             (''Accept-Ranges'', Txt ''bytes'')] @ content_type ob @ [(''Last-Modified'', Date (o_created ob))],
          rs_body = stream_out d\<rparr>) w = (rs, w')" using assms(5,6) by (simp add: h_get_object_def)
  then show ?thesis
  proof (cases rule: hbind_cases)
    case (err e)
    then show ?thesis using write_service_err_doc [of rq e] assms(7) by auto
  next
    case (ok x w1)
    obtain ob' d where x: "x = (ob', d)" by fastforce
    from get_holds [OF assms(1-4) ok(1) [unfolded x]] ok(2) show ?thesis by (auto simp: x answer_def)
  qed
qed

section \<open>Through the router\<close>

text \<open>A request that the S3 handlers see.\<close>

definition s3_request :: "string \<Rightarrow> string \<Rightarrow> request \<Rightarrow> bool" where
  "s3_request b key rq \<longleftrightarrow> split_path (rq_path rq) = (b, key) \<and> b \<noteq> [] \<and> key \<noteq> [] \<and> \<not> has_prefix (rq_path rq) ''/_browse/''"

lemma serve_s3:
  assumes "s3_request b key rq" "serve_http hs rq body s = (rs, s')" "world_inv (hs_service hs) held (st_world s)"
  obtains w1 rs1 w2 where "keeping (hs_service hs) held UNIV (st_world s) w1" "s3_http hs rq body w1 = (rs1, w2)"
    "rs_body rs = rs_body rs1" "rs_status rs = rs_status rs1" "set (rs_headers rs1) \<subseteq> set (rs_headers rs)" "st_world s' = w2"
proof -
  obtain r w1 where r: "rand_read 16 (st_world s) = (r, w1)" by fastforce
  have no: "\<not> should_handle bo rq" for bo using assms(1) by (auto simp: should_handle_def s3_request_def)
  obtain rs1 w2 where h: "s3_http hs rq body w1 = (rs1, w2)" by fastforce
  show ?thesis
  proof (rule that [OF keep_draw [OF r assms(3)] h])
    show "rs_body rs = rs_body rs1" "rs_status rs = rs_status rs1" "set (rs_headers rs1) \<subseteq> set (rs_headers rs)" "st_world s' = w2"
      using assms(2) r no h by (auto simp: serve_http_def new_request_id_def on_world_def with_id_def split: option.splits)
  qed
qed

lemma s3_http_verified:
  assumes "s3_http hs rq body w = (rs, w')" "\<not> (\<exists>c m x. rs_body rs = ErrorDoc c m x)"
  obtains m where "verify (hs_verifier hs) rq = Inr m"
    "dispatch hs rq (decoded_body (v_dig (hs_verifier hs)) m body) w = (rs, w')"
proof (cases "verify (hs_verifier hs) rq")
  case (Inl e)
  then show ?thesis using assms sigv4_err_s3 [of e] by (auto simp: s3_http_def answer_def write_err_def)
next
  case (Inr m)
  then show ?thesis using assms that by (simp add: s3_http_def)
qed

lemma dispatch_object:
  assumes "s3_request b key rq"
  shows "rq_method rq = ''PUT'' \<Longrightarrow> query_get (rq_raw_query rq) ''uploadId'' = [] \<Longrightarrow> dispatch hs rq body =
      (if is_unimplemented_subresource rq then answer (write_err rq S3NotImplemented) else h_put_object (hs_service hs) rq body b key)"
    "rq_method rq = ''GET'' \<Longrightarrow> dispatch hs rq body =
      (if is_unimplemented_subresource rq then answer (write_err rq S3NotImplemented) else h_get_object (hs_service hs) rq b key)"
  using assms by (auto simp: dispatch_def s3_request_def Let_def)

section \<open>A demonstration server\<close>

definition demo_server :: "mem server" where
  "demo_server = \<lparr>hs_verifier = \<lparr>v_region = ''tg-1'', v_lookup = Some (\<lambda>k. if k = ''AK'' then Some ''S'' else None), v_now = 0,
       v_dig = \<lparr>sha256 = \<lambda>m. [], hmac = \<lambda>k m. [1]\<rparr>\<rparr>,
     hs_service = mem_service, hs_browser = Some \<lparr>bo_enabled = True, bo_password = ''pw''\<rparr>,
     hs_forms = \<lparr>fm_values = \<lambda>rq body. Inr (parse_query (string_of (fst body))), fm_file = \<lambda>rq body. Inr None, fm_mime = \<lambda>n. []\<rparr>,
     hs_unmarshal = \<lambda>d. None\<rparr>"

definition demo_rq :: "string \<Rightarrow> string \<Rightarrow> int \<Rightarrow> request" where
  "demo_rq m p n = \<lparr>rq_method = m, rq_path = p, rq_raw_query = [], rq_host = ''h'', rq_content_length = n, rq_headers =
     [(''Authorization'', ''AWS4-HMAC-SHA256 Credential=AK/20130524/tg-1/s3/aws4_request,SignedHeaders=host,Signature=01''),
      (''X-Amz-Date'', ''20130524T000000Z''), (''X-Amz-Content-Sha256'', ''UNSIGNED-PAYLOAD'')]\<rparr>"

abbreviation "demo_at \<equiv> at_time 1369353600 demo_server"

definition demo_site :: "mem site" where
  "demo_site = \<lparr>st_world = demo1, st_sessions = Map.empty\<rparr>"

lemma demo_server_laws: "server_laws demo_server mem_held"
  using mem_service_laws mem_small by (simp add: server_laws_def demo_server_def)

lemma demo_reliable: "reliable (hs_service demo_server)"
  by (auto simp: reliable_def fetch_def demo_server_def mem_service_def mem_backend_def split: option.splits)

lemma demo_site_inv: "world_inv (hs_service demo_server) mem_held (st_world demo_site)"
  using demo1_inv by (simp add: demo_server_def demo_site_def)

abbreviation "demo_http_put \<equiv> serve_http demo_at (demo_rq ''PUT'' ''/abc/k'' 2) ([5, 6], Eof) demo_site"
abbreviation "demo_http_get \<equiv> serve_http demo_at (demo_rq ''GET'' ''/abc/k'' 0) ([], Eof) (snd demo_http_put)"

lemma demo_put_verified: "verify (hs_verifier demo_at) (demo_rq ''PUT'' ''/abc/k'' 2) = Inr RawBody"
  by code_simp

lemma demo_get_verified: "verify (hs_verifier demo_at) (demo_rq ''GET'' ''/abc/k'' 0) = Inr RawBody"
  by code_simp

lemma demo_requests: "s3_request ''abc'' ''k'' (demo_rq ''PUT'' ''/abc/k'' 2)" "s3_request ''abc'' ''k'' (demo_rq ''GET'' ''/abc/k'' 0)"
  by code_simp+

lemma serve_s3_eq:
  assumes "s3_request b key rq" "verify (hs_verifier hs) rq = Inr m"
  shows "serve_http hs rq body s = (case new_request_id (st_world s) of (i, w) \<Rightarrow>
     case dispatch hs rq (decoded_body (v_dig (hs_verifier hs)) m body) w of (rs, w') \<Rightarrow> (with_id i rs, s\<lparr>st_world := w'\<rparr>))"
proof -
  have "\<not> should_handle bo rq" for bo using assms(1) by (auto simp: should_handle_def s3_request_def)
  then show ?thesis using assms(2) by (simp add: serve_http_def on_world_def s3_http_def split: option.split prod.split)
qed

abbreviation "demo_w0 \<equiv> snd (new_request_id demo1)"
abbreviation "demo_w1 \<equiv> snd (dispatch demo_at (demo_rq ''PUT'' ''/abc/k'' 2) ([5, 6], Eof) demo_w0)"

lemma demo_put_dispatch: "rs_body (fst (dispatch demo_at (demo_rq ''PUT'' ''/abc/k'' 2) ([5, 6], Eof) demo_w0)) = Empty"
  by code_simp

fun is_data :: "payload \<Rightarrow> bool" where
  "is_data (Data bs err) = True" | "is_data _ = False"

lemma demo_get_dispatch:
  "is_data (rs_body (fst (dispatch demo_at (demo_rq ''GET'' ''/abc/k'' 0) ([], Eof) (snd (new_request_id demo_w1)))))"
  by code_simp

lemma demo_put_answer: "rs_body (fst demo_http_put) = Empty" "st_world (snd demo_http_put) = demo_w1"
  using demo_put_dispatch unfolding serve_s3_eq [OF demo_requests(1) demo_put_verified]
  by (simp_all add: demo_site_def decoded_body_def with_id_def split_beta)

lemma demo_get_answer: "is_data (rs_body (fst demo_http_get))"
  using demo_get_dispatch demo_put_answer(2) unfolding serve_s3_eq [OF demo_requests(2) demo_get_verified]
  by (simp add: decoded_body_def with_id_def split_beta)

text \<open>A \<^verbatim>\<open>PUT\<close> that is answered without an error was signed, and its body is held.\<close>

lemma put_answered:
  assumes "server_laws hs held" "0 \<le> be_max (sv_backend (hs_service hs))" "world_inv (hs_service hs) held (st_world s)"
    and "s3_request b key rq" "rq_method rq = ''PUT''" "query_get (rq_raw_query rq) ''uploadId'' = []"
    and "serve_http (at_time t hs) rq body s = (rs, s1)" "rs_body rs = Empty"
  shows "\<exists>m ob. verify ((hs_verifier hs)\<lparr>v_now := t * second\<rparr>) rq = Inr m \<and> world_inv (hs_service hs) held (st_world s1) \<and>
    (let p = uploaded rq (decoded_body (v_dig (hs_verifier hs)) m body) in
       holds (hs_service hs) held (ObjId b key) ob p (st_world s1) \<and> o_etag ob = hex_encode (sv_md5 (hs_service hs) p) \<and>
       (''ETag'', Txt (quote (o_etag ob))) \<in> set (rs_headers rs))"
proof -
  let ?sv = "hs_service hs" and ?i = "ObjId b key"
  have sound: "sound (hs_service (at_time t hs)) held" using now_laws [OF assms(1)] by (simp add: server_laws_def sound_def)
  have inv: "world_inv (hs_service (at_time t hs)) held (st_world s)" using assms(3) by simp
  obtain w1 rs1 w2 where p: "keeping (hs_service (at_time t hs)) held UNIV (st_world s) w1" "s3_http (at_time t hs) rq body w1 = (rs1, w2)"
    "rs_body rs = rs_body rs1" "rs_status rs = rs_status rs1" "set (rs_headers rs1) \<subseteq> set (rs_headers rs)" "st_world s1 = w2"
    by (rule serve_s3 [OF assms(4,7) inv])
  have "\<not> (\<exists>c m x. rs_body rs1 = ErrorDoc c m x)" using p(3) assms(8) by simp
  then obtain m where m: "verify (hs_verifier (at_time t hs)) rq = Inr m"
    and d: "dispatch (at_time t hs) rq (decoded_body (v_dig (hs_verifier (at_time t hs))) m body) w1 = (rs1, w2)"
    by (rule s3_http_verified [OF p(2)])
  let ?body = "decoded_body (v_dig (hs_verifier hs)) m body" and ?p = "uploaded rq (decoded_body (v_dig (hs_verifier hs)) m body)"
  have "h_put_object (hs_service (at_time t hs)) rq ?body b key w1 = (rs1, w2)"
    using d p(3) assms(8) s3_doc(4) [of rq] unfolding dispatch_object(1) [OF assms(4-6)] by (auto simp: answer_def split: if_splits)
  from h_put_holds [OF sound _ this] p(1,3) assms(2,8)
  obtain ob where ob: "holds (hs_service (at_time t hs)) held ?i ob ?p w2" "rs1 = plain 200 [(''ETag'', Txt (quote (o_etag ob)))]"
    "o_etag ob = hex_encode (sv_md5 (hs_service (at_time t hs)) ?p)" by (auto simp: keeping_def)
  have "keeping ?sv held {} (st_world s) (st_world s1)" by (rule serve_keeping [OF assms(1,3) _ assms(7)]) simp
  then have inv1: "world_inv ?sv held (st_world s1)" by (simp add: keeping_def)
  have v: "verify ((hs_verifier hs)\<lparr>v_now := t * second\<rparr>) rq = Inr m" using m by simp
  have "holds ?sv held ?i ob ?p (st_world s1)" "o_etag ob = hex_encode (sv_md5 ?sv ?p)" using ob(1,3) p(6) by simp_all
  moreover have "(''ETag'', Txt (quote (o_etag ob))) \<in> set (rs_headers rs)" using ob(2) p(5) by (auto simp: plain_def)
  ultimately show ?thesis using v inv1 by (intro exI [of _ m] exI [of _ ob]) (simp add: Let_def)
qed

text \<open>A \<^verbatim>\<open>GET\<close> that is answered with data delivers what is held.\<close>

lemma get_answered:
  assumes "server_laws hs held" "reliable (hs_service hs)" "world_inv (hs_service hs) held (st_world s)"
    and "holds (hs_service hs) held (ObjId b key) ob p (st_world s)"
    and "s3_request b key rq" "rq_method rq = ''GET''" "header_get ''Range'' rq = []"
    and "serve_http (at_time t hs) rq body s = (rs, s')" "rs_body rs = Data bs err"
  shows "rs_status rs = 200 \<and> rs_body rs = Data p None \<and> (''ETag'', Txt (quote (o_etag ob))) \<in> set (rs_headers rs) \<and>
    (''Content-Length'', Txt (format_int (int (length p)))) \<in> set (rs_headers rs)"
proof -
  let ?sv = "hs_service hs" and ?i = "ObjId b key"
  have sound: "sound (hs_service (at_time t hs)) held" using now_laws [OF assms(1)] by (simp add: server_laws_def sound_def)
  have inv: "world_inv (hs_service (at_time t hs)) held (st_world s)" using assms(3) by simp
  obtain w1 rs1 w2 where g: "keeping (hs_service (at_time t hs)) held UNIV (st_world s) w1"
    "s3_http (at_time t hs) rq body w1 = (rs1, w2)"
    "rs_body rs = rs_body rs1" "rs_status rs = rs_status rs1" "set (rs_headers rs1) \<subseteq> set (rs_headers rs)" "st_world s' = w2"
    by (rule serve_s3 [OF assms(5,8) inv])
  have data: "rs_body rs1 = Data bs err" using g(3) assms(9) by simp
  then have "\<not> (\<exists>c m x. rs_body rs1 = ErrorDoc c m x)" by simp
  then obtain m where d: "dispatch (at_time t hs) rq (decoded_body (v_dig (hs_verifier (at_time t hs))) m body) w1 = (rs1, w2)"
    by (rule s3_http_verified [OF g(2)])
  have get: "h_get_object (hs_service (at_time t hs)) rq b key w1 = (rs1, w2)"
    using d data unfolding dispatch_object(2) [OF assms(5,6)]
    by (auto simp: answer_def write_err_def S3NotImplemented_def split: if_splits)
  have rel: "reliable (hs_service (at_time t hs))" using now_reliable [OF assms(2)] by simp
  have "holds (hs_service (at_time t hs)) held ?i ob p w1" "world_inv (hs_service (at_time t hs)) held w1"
    using g(1) assms(4) by (simp_all add: keeping_def)
  from h_get_holds [OF sound this(2) rel this(1) get assms(7) data]
  show ?thesis using g(3-5) by auto
qed

text \<open>
  C27: read your writes, over HTTP.  When a \<^verbatim>\<open>PUT\<close> of an object is answered without an error,
  its signature was valid; and after any further requests by anyone, at any times, that do not
  write this object, a \<^verbatim>\<open>GET\<close> that is answered with data delivers exactly the decoded body (the
  declared part of it), with its length and the ETag that the \<^verbatim>\<open>PUT\<close> returned, which is the MD5
  of these bytes, unless a download breaks off.
\<close>

theorem http_read_your_writes:
  assumes "server_laws hs held" "reliable (hs_service hs)" "0 \<le> be_max (sv_backend (hs_service hs))"
    and "world_inv (hs_service hs) held (st_world s)" "s3_request b key rq" "rq_method rq = ''PUT''"
    and "query_get (rq_raw_query rq) ''uploadId'' = []" "serve_http (at_time t hs) rq body s = (rs, s1)" "rs_body rs = Empty"
    and "\<forall>(t', rq', body')\<in>set es. ObjId b key \<notin> targets rq'"
    and "s3_request b key rq2" "rq_method rq2 = ''GET''" "header_get ''Range'' rq2 = []"
    and "serve_http (at_time t2 hs) rq2 body2 (run_http hs es s1) = (rs2, s2)" "rs_body rs2 = Data bs err"
  shows "\<exists>m etag. verify ((hs_verifier hs)\<lparr>v_now := t * second\<rparr>) rq = Inr m \<and>
    (let p = uploaded rq (decoded_body (v_dig (hs_verifier hs)) m body) in
       etag = Txt (quote (hex_encode (sv_md5 (hs_service hs) p))) \<and> (''ETag'', etag) \<in> set (rs_headers rs) \<and>
       rs_status rs2 = 200 \<and> rs_body rs2 = Data p None \<and> (''ETag'', etag) \<in> set (rs_headers rs2) \<and>
       (''Content-Length'', Txt (format_int (int (length p)))) \<in> set (rs_headers rs2))"
proof -
  let ?sv = "hs_service hs" and ?i = "ObjId b key"
  from put_answered [OF assms(1,3-9)] obtain m ob where m: "verify ((hs_verifier hs)\<lparr>v_now := t * second\<rparr>) rq = Inr m"
    and inv: "world_inv ?sv held (st_world s1)"
    and ob: "holds ?sv held ?i ob (uploaded rq (decoded_body (v_dig (hs_verifier hs)) m body)) (st_world s1)"
      "o_etag ob = hex_encode (sv_md5 ?sv (uploaded rq (decoded_body (v_dig (hs_verifier hs)) m body)))"
      "(''ETag'', Txt (quote (o_etag ob))) \<in> set (rs_headers rs)"
    by (auto simp: Let_def)
  have "keeping ?sv held {?i} (st_world s1) (st_world (run_http hs es s1))"
    by (rule run_http_keeping [OF assms(1) inv]) (use assms(10) in auto)
  then have "world_inv ?sv held (st_world (run_http hs es s1))"
    and "holds ?sv held ?i ob (uploaded rq (decoded_body (v_dig (hs_verifier hs)) m body)) (st_world (run_http hs es s1))"
    using ob(1) by (simp_all add: keeping_def)
  from get_answered [OF assms(1,2) this assms(11-15)] show ?thesis using m ob(2,3) by (auto simp: Let_def)
qed

theorem http_read_your_writes_witness:
  "rs_status (fst demo_http_get) = 200 \<and> rs_body (fst demo_http_get) = Data [5, 6] None"
proof -
  let ?put = "demo_rq ''PUT'' ''/abc/k'' 2" and ?get = "demo_rq ''GET'' ''/abc/k'' 0"
  obtain bs err where data: "rs_body (fst demo_http_get) = Data bs err"
    using demo_get_answer by (cases "rs_body (fst demo_http_get)") auto
  have put: "demo_http_put = (fst demo_http_put, snd demo_http_put)" and get: "demo_http_get = (fst demo_http_get, snd demo_http_get)" by simp_all
  have rq: "rq_method ?put = ''PUT''" "query_get (rq_raw_query ?put) ''uploadId'' = []" "rq_method ?get = ''GET''"
    "header_get ''Range'' ?get = []" "put_body_size ?put = Inr (Some 2)" by code_simp+
  have max: "0 \<le> be_max (sv_backend (hs_service demo_server))" by code_simp
  have "\<exists>m etag. verify ((hs_verifier demo_server)\<lparr>v_now := 1369353600 * second\<rparr>) ?put = Inr m \<and>
    (let p = uploaded ?put (decoded_body (v_dig (hs_verifier demo_server)) m ([5, 6], Eof)) in
       etag = Txt (quote (hex_encode (sv_md5 (hs_service demo_server) p))) \<and> (''ETag'', etag) \<in> set (rs_headers (fst demo_http_put)) \<and>
       rs_status (fst demo_http_get) = 200 \<and> rs_body (fst demo_http_get) = Data p None \<and>
       (''ETag'', etag) \<in> set (rs_headers (fst demo_http_get)) \<and>
       (''Content-Length'', Txt (format_int (int (length p)))) \<in> set (rs_headers (fst demo_http_get)))"
    by (rule http_read_your_writes [OF demo_server_laws demo_reliable max demo_site_inv demo_requests(1) rq(1,2) put demo_put_answer(1) _
        demo_requests(2) rq(3,4) _ data, of "[]" _ _ "snd demo_http_get"]) (use get in simp_all)
  moreover have "verify ((hs_verifier demo_server)\<lparr>v_now := 1369353600 * second\<rparr>) ?put = Inr RawBody"
    using demo_put_verified unfolding at_time_simps .
  ultimately show ?thesis by (auto simp: Let_def decoded_body_def uploaded_def rq(5))
qed

end
