(* ===== verification/Bot.thy ===== *)
theory Bot
  imports Storage SigCanonical Keys
begin

text \<open>
  The Bot API adapter: \<^verbatim>\<open>internal/storage/bot/bot.go\<close>.  The HTTP client, the clock behind
  \<^verbatim>\<open>time.After\<close> with the cancellation of the context, the boundary that \<^verbatim>\<open>mime/multipart\<close> draws
  and the JSON decoder are the fields of \<open>net\<close> and \<open>json_codec\<close>, over the state \<open>'h\<close> of the network and
  of Telegram.  A call tells how many bytes of the request body the transport has taken, because a
  body that is sent again is what an earlier attempt has left of it.  Requests can be built from
  the URLs of the adapter (\<^verbatim>\<open>http.NewRequestWithContext\<close> does not fail on them).
\<close>

section \<open>The network\<close>

record hrequest =
  hr_method :: string
  hr_url :: string
  hr_ctype :: string
  hr_body :: reader

record hresponse =
  hp_status :: int
  hp_body :: reader

record 'h net =
  nt_do :: "hrequest \<Rightarrow> 'h \<Rightarrow> (goerr + hresponse) \<times> nat \<times> 'h"
  nt_wait :: "int \<Rightarrow> 'h \<Rightarrow> goerr option \<times> 'h"
  nt_boundary :: "'h \<Rightarrow> string \<times> 'h"

text \<open>The envelope of a reply, its result still encoded.\<close>

record envelope =
  en_ok :: bool
  en_description :: string
  en_code :: int
  en_retry :: "int option"
  en_result :: bytes

record bot_message =
  bm_id :: int
  bm_document :: "string option"

record json_codec =
  cd_envelope :: "bytes \<Rightarrow> goerr + envelope"
  cd_user :: "bytes \<Rightarrow> goerr + bool"
  cd_chat :: "bytes \<Rightarrow> goerr + string"
  cd_message :: "bytes \<Rightarrow> goerr + bot_message"
  cd_file :: "bytes \<Rightarrow> goerr + string"
  cd_bool :: "bytes \<Rightarrow> goerr + bool"

section \<open>The adapter\<close>

definition bot_max_object_size :: int where "bot_max_object_size = 20 * 1024 * 1024"
definition default_endpoint :: string where "default_endpoint = ''https://api.telegram.org''"

record 'h bot =
  bt_token :: string
  bt_chat :: int
  bt_endpoint :: string
  bt_http :: "'h net"
  bt_max_retry :: int
  bt_codec :: json_codec

datatype 'h bot_option = WithEndpoint string | WithHTTPClient "'h net" | WithMaxRetries int

fun apply_option :: "'h bot_option \<Rightarrow> 'h bot \<Rightarrow> 'h bot" where
  "apply_option (WithEndpoint u) b = b\<lparr>bt_endpoint := u\<rparr>"
| "apply_option (WithHTTPClient c) b = b\<lparr>bt_http := c\<rparr>"
| "apply_option (WithMaxRetries n) b = b\<lparr>bt_max_retry := n\<rparr>"

definition new_bot :: "'h net \<Rightarrow> json_codec \<Rightarrow> string \<Rightarrow> int \<Rightarrow> 'h bot_option list \<Rightarrow> goerr + 'h bot" where
  "new_bot client cd token chat opts =
     (if token = [] then Inl (New ''bot: empty token'')
      else if chat = 0 then Inl (New ''bot: chat_id is zero'')
      else Inr (fold apply_option opts
        \<lparr>bt_token = token, bt_chat = chat, bt_endpoint = default_endpoint, bt_http = client, bt_max_retry = 3, bt_codec = cd\<rparr>))"

section \<open>Errors and delays\<close>

definition is_retryable :: "goerr \<Rightarrow> bool" where
  "is_retryable e = (case as_api e of
       Some (c, _, _) \<Rightarrow> c = 429 \<or> c \<ge> 500 \<and> c < 600
     | None \<Rightarrow> True)"

definition classify :: "goerr \<Rightarrow> goerr" where
  "classify e = (case as_api e of
       None \<Rightarrow> e
     | Some (c, _, _) \<Rightarrow>
         if c = 429 then Wrap [] [ErrThrottled, e]
         else if c \<ge> 500 \<and> c < 600 then Wrap [] [ErrUnavailable, e] else e)"

text \<open>\<^verbatim>\<open>time.Second << (attempt - 1)\<close> is cut to 64 bits.\<close>

definition backoff :: "int \<Rightarrow> int" where
  "backoff n = (let d = i64 (second * 2 ^ nat (n - 1)) in if d > 15 * second then 15 * second else d)"

fun retry_delay :: "int \<Rightarrow> goerr option \<Rightarrow> int" where
  "retry_delay n (Some (APIErr m c d r)) = (if r > 0 then i64 (r * second) else backoff n)"
| "retry_delay n e = backoff n"

section \<open>One call\<close>

definition api_url :: "'h bot \<Rightarrow> string \<Rightarrow> string" where
  "api_url b m = bt_endpoint b @ ''/bot'' @ bt_token b @ ''/'' @ m"

definition decode_reply :: "json_codec \<Rightarrow> string \<Rightarrow> (bytes \<Rightarrow> goerr + 'a) \<Rightarrow> hresponse \<Rightarrow> goerr + 'a" where
  "decode_reply cd m dec rs = (case read_all (limit_reader (2 ^ 20) (hp_body rs)) of
       (_, Some e) \<Rightarrow> Inl e
     | (raw, None) \<Rightarrow> (case cd_envelope cd raw of
           Inl e \<Rightarrow> Inl (Wrap (''bot '' @ m @ '': decode'') [e])
         | Inr env \<Rightarrow>
             if \<not> en_ok env then Inl (APIErr m (if en_code env = 0 then hp_status rs else en_code env)
               (en_description env) (case en_retry env of None \<Rightarrow> 0 | Some r \<Rightarrow> r))
             else (case dec (en_result env) of
                 Inl e \<Rightarrow> Inl (Wrap (''bot '' @ m @ '': decode result'') [e])
               | Inr x \<Rightarrow> Inr x)))"

definition api_request :: "'h bot \<Rightarrow> string \<Rightarrow> string \<Rightarrow> reader \<Rightarrow> hrequest" where
  "api_request b m ctype body = \<lparr>hr_method = ''POST'', hr_url = api_url b m, hr_ctype = ctype, hr_body = body\<rparr>"

text \<open>The result, the number of body bytes that the transport took, the new state.\<close>

definition call_once ::
    "'h bot \<Rightarrow> string \<Rightarrow> string \<Rightarrow> (bytes \<Rightarrow> goerr + 'a) \<Rightarrow> reader \<Rightarrow> 'h \<Rightarrow> (goerr + 'a) \<times> nat \<times> 'h" where
  "call_once b m ctype dec body s =
     (case nt_do (bt_http b) (api_request b m ctype body) s of
        (Inl e, k, s') \<Rightarrow> (Inl e, k, s')
      | (Inr rs, k, s') \<Rightarrow> (decode_reply (bt_codec b) m dec rs, k, s'))"

section \<open>Retries\<close>

text \<open>The attempts from \<open>attempt\<close> on.  \<open>zero\<close> is the value of \<^verbatim>\<open>out\<close> before any call and \<open>last\<close> is
  \<^verbatim>\<open>lastErr\<close>.  The result comes with what the transport took of the body in the latest call.\<close>

definition after_taken :: "nat \<Rightarrow> reader \<Rightarrow> reader" where
  "after_taken k r = (drop k (fst r), snd r)"

function call_loop ::
    "'h bot \<Rightarrow> (reader \<Rightarrow> 'h \<Rightarrow> (goerr + 'a) \<times> nat \<times> 'h) \<Rightarrow> bool \<Rightarrow> 'a \<Rightarrow> int \<Rightarrow> goerr option \<Rightarrow> reader \<Rightarrow> 'h
     \<Rightarrow> (goerr + 'a) \<times> reader \<times> 'h" where
  "call_loop b once can_retry zero attempt lst body s =
     (if attempt > bt_max_retry b \<or> attempt > 0 \<and> \<not> can_retry
      then (case lst of None \<Rightarrow> Inr zero | Some e \<Rightarrow> Inl e, body, s)
      else case (if attempt > 0 then nt_wait (bt_http b) (retry_delay attempt lst) s else (None, s)) of
          (Some e, s') \<Rightarrow> (Inl e, body, s')
        | (None, s') \<Rightarrow> (case once body s' of
              (Inr x, k, s'') \<Rightarrow> (Inr x, after_taken k body, s'')
            | (Inl e, k, s'') \<Rightarrow>
                if \<not> is_retryable e then (Inl e, after_taken k body, s'')
                else call_loop b once can_retry zero (attempt + 1) (Some e) (after_taken k body) s''))"
  by pat_completeness auto
termination
  by (relation "measure (\<lambda>(b, once, can_retry, zero, attempt, lst, body, s). nat (bt_max_retry b + 1 - attempt))") auto

declare call_loop.simps [simp del]

definition call_with_retry ::
    "'h bot \<Rightarrow> string \<Rightarrow> string \<Rightarrow> bool \<Rightarrow> 'a \<Rightarrow> (bytes \<Rightarrow> goerr + 'a) \<Rightarrow> reader \<Rightarrow> 'h \<Rightarrow> (goerr + 'a) \<times> reader \<times> 'h" where
  "call_with_retry b m ctype can_retry zero dec body s =
     call_loop b (call_once b m ctype dec) can_retry zero 0 None body s"

section \<open>Forms\<close>

text \<open>\<^verbatim>\<open>url.Values.Encode\<close>: sorted by name, both sides escaped.\<close>

definition query_escape :: "string \<Rightarrow> string" where
  "query_escape s = concat (map (\<lambda>c. if c = CHR '' '' then ''+'' else aws_escape_char True c) s)"

definition form_encode :: "(string \<times> string) list \<Rightarrow> string" where
  "form_encode kvs = join_with ''&'' (map (\<lambda>(k, v). query_escape k @ ''='' @ query_escape v) (sort_key fst kvs))"

definition form_type :: string where "form_type = ''application/x-www-form-urlencoded''"

definition call_form ::
    "'h bot \<Rightarrow> string \<Rightarrow> (string \<times> string) list \<Rightarrow> 'a \<Rightarrow> (bytes \<Rightarrow> goerr + 'a) \<Rightarrow> ('h, 'a) step" where
  "call_form b m form zero dec s =
     (case call_with_retry b m form_type True zero dec (bytes_of (form_encode form), Eof) s of
        (r, body, s') \<Rightarrow> (r, s'))"

section \<open>Probe\<close>

definition chat_form :: "'h bot \<Rightarrow> (string \<times> string) list" where
  "chat_form b = [(''chat_id'', format_int (bt_chat b))]"

definition bot_probe :: "'h bot \<Rightarrow> ('h, unit) step" where
  "bot_probe b =
     ecatch (call_form b ''getMe'' [] False (cd_user (bt_codec b))) (\<lambda>e. efail (Wrap ''bot: getMe'' [e])) (\<lambda>is_bot.
       if \<not> is_bot then efail (New ''bot: configured token does not belong to a bot account'')
       else ecatch (call_form b ''getChat'' (chat_form b) [] (cd_chat (bt_codec b))) (\<lambda>e. efail (Wrap ''bot: getChat'' [e])) (\<lambda>typ.
         if typ \<notin> {''channel'', ''supergroup'', ''group''}
         then efail (New (''bot: chat '' @ format_int (bt_chat b) @ '' is a '' @ go_quote typ @ '', want a channel or group''))
         else eret ()))"

section \<open>Put\<close>

text \<open>
  The multipart body.  Its producer copies \<open>sz\<close> bytes of the encrypter into a pipe: what the
  pipe holds is the header, those bytes and the closing boundary, or it ends in the error of a
  source that is too short.
\<close>

definition upload_head :: "'h bot \<Rightarrow> string \<Rightarrow> string \<Rightarrow> bytes" where
  "upload_head b bd name = bytes_of (''--'' @ bd @ crlf @ ''Content-Disposition: form-data; name='' @ go_quote ''chat_id'' @ crlf @ crlf
     @ format_int (bt_chat b) @ crlf @ ''--'' @ bd @ crlf
     @ ''Content-Disposition: form-data; name='' @ go_quote ''document'' @ ''; filename='' @ go_quote name @ crlf
     @ ''Content-Type: application/octet-stream'' @ crlf @ crlf)"

definition upload_tail :: "string \<Rightarrow> bytes" where
  "upload_tail bd = bytes_of (crlf @ ''--'' @ bd @ ''--'' @ crlf)"

definition upload_body :: "'h bot \<Rightarrow> string \<Rightarrow> string \<Rightarrow> int \<Rightarrow> reader \<Rightarrow> reader" where
  "upload_body b bd name sz src = (case copy_n sz src of
       (d, None) \<Rightarrow> (upload_head b bd name @ d @ upload_tail bd, Eof)
     | (d, Some e) \<Rightarrow> (upload_head b bd name @ d, Fail e))"

text \<open>The source as \<^verbatim>\<open>io.CopyN\<close> leaves it when the pipe accepts \<open>room\<close> bytes of it: reads of at
  most 32 KiB, each written before the next; \<open>n\<close> bounds their number.\<close>

fun pump :: "nat \<Rightarrow> nat \<Rightarrow> nat \<Rightarrow> encrypter \<Rightarrow> encrypter" where
  "pump 0 left room e = e"
| "pump (Suc n) left room e =
     (if left = 0 then e
      else case enc_rd (min 32768 left) e of (bs, err, e') \<Rightarrow>
        if err \<noteq> None \<or> room < length bs then e'
        else pump n (left - length bs) (room - length bs) e')"

definition ErrClosedPipe :: goerr where "ErrClosedPipe = New ''io: read/write on closed pipe''"

text \<open>What the producer reports when the transport took \<open>k\<close> bytes.\<close>

definition producer_err :: "nat \<Rightarrow> reader \<Rightarrow> goerr option" where
  "producer_err k body =
     (if k < length (fst body) then Some ErrClosedPipe
      else case snd body of Eof \<Rightarrow> None | Fail e \<Rightarrow> Some e)"

definition producer_left :: "'h bot \<Rightarrow> string \<Rightarrow> string \<Rightarrow> int \<Rightarrow> nat \<Rightarrow> encrypter \<Rightarrow> encrypter" where
  "producer_left b bd name sz k e =
     (if k < length (upload_head b bd name) then e
      else pump (nat sz) (nat sz) (k - length (upload_head b bd name)) e)"

definition multipart_type :: "string \<Rightarrow> string" where
  "multipart_type bd = ''multipart/form-data; boundary='' @ bd"

definition bot_put :: "'h bot \<Rightarrow> string \<Rightarrow> int \<Rightarrow> encrypter \<Rightarrow> 'h \<Rightarrow> (goerr + blobref) \<times> encrypter \<times> 'h" where
  "bot_put b name sz e s =
     (if sz > bot_max_object_size then (Inl ErrTooLarge, e, s)
      else case nt_boundary (bt_http b) s of (bd, s1) \<Rightarrow>
        let nm = (if name = [] then ''blob'' else name);
            body = upload_body b bd nm sz (enc_pend e)
        in case call_with_retry b ''sendDocument'' (multipart_type bd) False
               \<lparr>bm_id = 0, bm_document = None\<rparr> (cd_message (bt_codec b)) body s1 of
          (r, rest, s2) \<Rightarrow>
            let k = length (fst body) - length (fst rest);
                e' = producer_left b bd nm sz k e
            in (case r of
                  Inl err \<Rightarrow> Inl (classify err)
                | Inr m \<Rightarrow> (case producer_err k body of
                      Some err \<Rightarrow> Inl (classify err)
                    | None \<Rightarrow> (case bm_document m of
                          None \<Rightarrow> Inl (New ''bot: response missing document'')
                        | Some f \<Rightarrow> Inr (bm_id m, f))), e', s2))"

section \<open>Get, Exists, Delete\<close>

definition file_form :: "blobref \<Rightarrow> (string \<times> string) list" where
  "file_form ref = [(''file_id'', snd ref)]"

definition file_url :: "'h bot \<Rightarrow> string \<Rightarrow> string" where
  "file_url b path = bt_endpoint b @ ''/file/bot'' @ bt_token b @ ''/'' @ path"

definition file_request :: "'h bot \<Rightarrow> string \<Rightarrow> hrequest" where
  "file_request b path = \<lparr>hr_method = ''GET'', hr_url = file_url b path, hr_ctype = [], hr_body = ([], Eof)\<rparr>"

definition download_reply :: "hresponse \<Rightarrow> goerr + reader" where
  "download_reply rs = (let c = hp_status rs in
     if c = 404 then Inl ErrBlobNotFound
     else if c = 429 then Inl (Wrap '': download 429'' [ErrThrottled])
     else if c \<ge> 500 \<and> c < 600 then Inl (Wrap ('': download '' @ format_int c) [ErrUnavailable])
     else if c \<noteq> 200 then Inl (New (''bot: download status '' @ format_int c @ '': '' @
       trim_space (string_of (fst (read_all (limit_reader 2048 (hp_body rs)))))))
     else Inr (hp_body rs))"

definition bot_download :: "'h bot \<Rightarrow> string \<Rightarrow> ('h, reader) step" where
  "bot_download b path s =
     (case nt_do (bt_http b) (file_request b path) s of
        (Inl e, k, s') \<Rightarrow> (Inl (Wrap [] [ErrUnavailable, e]), s')
      | (Inr rs, k, s') \<Rightarrow> (download_reply rs, s'))"

definition bot_get :: "'h bot \<Rightarrow> blobref \<Rightarrow> ('h, reader) step" where
  "bot_get b ref =
     (if snd ref = [] then efail (New ''bot: empty file_id; message_id-only resolution is not supported in bot mode'')
      else ecatch (call_form b ''getFile'' (file_form ref) [] (cd_file (bt_codec b))) (\<lambda>e. efail (classify e)) (\<lambda>path.
        if path = [] then efail (New ''bot: getFile returned empty file_path'')
        else bot_download b path))"

definition gone :: "string list \<Rightarrow> goerr \<Rightarrow> bool" where
  "gone marks e = (case as_api e of
       Some (c, d, _) \<Rightarrow> c = 400 \<and> list_ex (contains_str (to_lower d)) marks
     | None \<Rightarrow> False)"

definition bot_exists :: "'h bot \<Rightarrow> blobref \<Rightarrow> ('h, bool) step" where
  "bot_exists b ref =
     (if snd ref = [] then eret False
      else ecatch (call_form b ''getFile'' (file_form ref) [] (cd_file (bt_codec b)))
        (\<lambda>e. if gone [''not found'', ''invalid'', ''wrong''] e then eret False else efail e)
        (\<lambda>path. eret (path \<noteq> [])))"

definition message_form :: "'h bot \<Rightarrow> blobref \<Rightarrow> (string \<times> string) list" where
  "message_form b ref = [(''chat_id'', format_int (bt_chat b)), (''message_id'', format_int (fst ref))]"

definition bot_delete :: "'h bot \<Rightarrow> blobref \<Rightarrow> ('h, unit) step" where
  "bot_delete b ref =
     ecatch (call_form b ''deleteMessage'' (message_form b ref) False (cd_bool (bt_codec b)))
       (\<lambda>e. if gone [''not found''] e then eret () else efail e) (\<lambda>_. eret ())"

text \<open>The storage interface.\<close>

definition bot_backend :: "'h bot \<Rightarrow> 'h backend" where
  "bot_backend b = \<lparr>be_max = bot_max_object_size, be_put = bot_put b, be_get = bot_get b,
     be_delete = (\<lambda>ref s. case bot_delete b ref s of (Inl e, s') \<Rightarrow> (Some e, s') | (Inr _, s') \<Rightarrow> (None, s')),
     be_exists = bot_exists b\<rparr>"

end
