(* ===== verification/BotProperties.thy ===== *)
theory BotProperties
  imports Bot UploadReads
begin

text \<open>
  What is assumed of Telegram and of the HTTP transport (\<open>telegram_laws\<close>), and the lemmas by which
  the Bot API adapter meets the contract of the storage interface: a rule for the retry loop, the
  producer of the upload stream, and one lemma for each operation.
\<close>

section \<open>Assumptions\<close>

definition upload_request :: "'h bot \<Rightarrow> string \<Rightarrow> string \<Rightarrow> bytes \<Rightarrow> hrequest" where
  "upload_request b bd name d = api_request b ''sendDocument'' (multipart_type bd) (upload_head b bd name @ d @ upload_tail bd, Eof)"

definition form_body :: "(string \<times> string) list \<Rightarrow> reader" where
  "form_body form = (bytes_of (form_encode form), Eof)"

text \<open>\<^verbatim>\<open>sendDocument\<close> adds at most one document, under a new message; when it answers with that
  message, the document is the one sent (the boundary, 60 random digits, does not occur in it).\<close>

definition send_law :: "'h bot \<Rightarrow> ('h \<Rightarrow> blobref \<Rightarrow> bytes option) \<Rightarrow> bool" where
  "send_law b held \<longleftrightarrow>
     (\<forall>bd body s r k s'. nt_do (bt_http b) (api_request b ''sendDocument'' (multipart_type bd) body) s = (r, k, s') \<longrightarrow>
        (\<exists>ref d. held s' = held s \<or> held s ref = None \<and> held s' = (held s)(ref \<mapsto> d))) \<and>
     (\<forall>t bd name d s rs k s' m f. bd = fst (nt_boundary (bt_http b) t) \<longrightarrow>
        nt_do (bt_http b) (upload_request b bd name d) s = (Inr rs, k, s') \<longrightarrow>
        decode_reply (bt_codec b) ''sendDocument'' (cd_message (bt_codec b)) rs = Inr m \<longrightarrow> bm_document m = Some f \<longrightarrow>
        no_message (held s) (bm_id m) \<and> held s' = (held s)((bm_id m, f) \<mapsto> d))"

text \<open>A form is sent whole or not at all.\<close>

definition form_law :: "'h bot \<Rightarrow> bool" where
  "form_law b \<longleftrightarrow> (\<forall>m form s r k s'. nt_do (bt_http b) (api_request b m form_type (form_body form)) s = (r, k, s') \<longrightarrow>
     k = 0 \<or> length (fst (form_body form)) \<le> k)"

text \<open>\<^verbatim>\<open>getFile\<close> answers a path to the contents of the file it was asked for, and none without a
  file; downloading a path yields what it leads to.\<close>

definition file_law :: "'h bot \<Rightarrow> ('h \<Rightarrow> blobref \<Rightarrow> bytes option) \<Rightarrow> ('h \<Rightarrow> string \<Rightarrow> bytes option) \<Rightarrow> bool" where
  "file_law b held served \<longleftrightarrow>
     (\<forall>ref s r k s'. nt_do (bt_http b) (api_request b ''getFile'' form_type (form_body (file_form ref))) s = (r, k, s') \<longrightarrow>
        held s' = held s \<and> (\<forall>rs p d. r = Inr rs \<longrightarrow> decode_reply (bt_codec b) ''getFile'' (cd_file (bt_codec b)) rs = Inr p \<longrightarrow>
          p \<noteq> [] \<longrightarrow> held s ref = Some d \<longrightarrow> served s' p = Some d)) \<and>
     (\<forall>s r k s'. nt_do (bt_http b) (api_request b ''getFile'' form_type ([], Eof)) s = (r, k, s') \<longrightarrow>
        held s' = held s \<and> (\<forall>rs p. r = Inr rs \<longrightarrow> decode_reply (bt_codec b) ''getFile'' (cd_file (bt_codec b)) rs = Inr p \<longrightarrow> p = [])) \<and>
     (\<forall>p s r k s'. nt_do (bt_http b) (file_request b p) s = (r, k, s') \<longrightarrow>
        held s' = held s \<and> (\<forall>rs d d'. r = Inr rs \<longrightarrow> hp_status rs = 200 \<longrightarrow> hp_body rs = (d, Eof) \<longrightarrow> served s p = Some d' \<longrightarrow> d = d'))"

text \<open>\<^verbatim>\<open>deleteMessage\<close> touches no other message and nothing without one; waiting and drawing a
  boundary touch nothing.\<close>

definition erase_law :: "'h bot \<Rightarrow> ('h \<Rightarrow> blobref \<Rightarrow> bytes option) \<Rightarrow> bool" where
  "erase_law b held \<longleftrightarrow>
     (\<forall>ref s r k s'. nt_do (bt_http b) (api_request b ''deleteMessage'' form_type (form_body (message_form b ref))) s = (r, k, s') \<longrightarrow>
        (\<forall>ref'. fst ref' \<noteq> fst ref \<longrightarrow> held s' ref' = held s ref')) \<and>
     (\<forall>s r k s'. nt_do (bt_http b) (api_request b ''deleteMessage'' form_type ([], Eof)) s = (r, k, s') \<longrightarrow> held s' = held s)"

definition idle_law :: "'h bot \<Rightarrow> ('h \<Rightarrow> blobref \<Rightarrow> bytes option) \<Rightarrow> bool" where
  "idle_law b held \<longleftrightarrow> (\<forall>d s e s'. nt_wait (bt_http b) d s = (e, s') \<longrightarrow> held s' = held s) \<and>
     (\<forall>s bd s'. nt_boundary (bt_http b) s = (bd, s') \<longrightarrow> held s' = held s)"

definition telegram_laws ::
    "'h bot \<Rightarrow> ('h \<Rightarrow> blobref \<Rightarrow> bytes option) \<Rightarrow> ('h \<Rightarrow> string \<Rightarrow> bytes option) \<Rightarrow> bool" where
  "telegram_laws b held served \<longleftrightarrow> send_law b held \<and> form_law b \<and> file_law b held served \<and> erase_law b held \<and> idle_law b held"

section \<open>The retry loop\<close>

text \<open>\<open>Q\<close> holds of the body and the state throughout, \<open>R\<close> of a result.\<close>

lemma call_loop_rule:
  assumes "call_loop b once can zero attempt lst body s = (r, body', s')" "Q body s"
    and "lst = None \<Longrightarrow> attempt \<le> 0 \<and> 0 \<le> bt_max_retry b"
    and wait: "\<And>d body s e s'. Q body s \<Longrightarrow> nt_wait (bt_http b) d s = (e, s') \<Longrightarrow> Q body s'"
    and once: "\<And>body s r k s'. Q body s \<Longrightarrow> once body s = (r, k, s') \<Longrightarrow>
      Q (after_taken k body) s' \<and> (\<forall>x. r = Inr x \<longrightarrow> R x s')"
  shows "Q body' s' \<and> (\<forall>x. r = Inr x \<longrightarrow> R x s')"
  using assms
proof (induction b once can zero attempt lst body s arbitrary: r body' s' rule: call_loop.induct)
  case (1 b once can zero attempt lst body s)
  note wait = 1(5) and once = 1(6)
  show ?case
  proof (cases "attempt > bt_max_retry b \<or> attempt > 0 \<and> \<not> can")
    case True
    then obtain e where "lst = Some e" using 1(4) by (cases lst) auto
    then show ?thesis using 1(2,3) True unfolding call_loop.simps [of _ _ _ _ attempt] by auto
  next
    case False
    obtain e s1 where w: "(if attempt > 0 then nt_wait (bt_http b) (retry_delay attempt lst) s else (None, s)) = (e, s1)" by fastforce
    have q1: "Q body s1" using w 1(3) wait [OF 1(3)] by (auto split: if_splits)
    obtain a k s2 where o: "once body s1 = (a, k, s2)" by (cases "once body s1") auto
    note run = 1(2) [unfolded call_loop.simps [of b once can zero attempt lst body s], unfolded w if_not_P [OF False]]
    show ?thesis
    proof (cases e)
      case (Some x)
      then show ?thesis using run q1 by auto
    next
      case e: None
      note q2 = once [OF q1 o]
      show ?thesis
      proof (cases a)
        case (Inr x)
        then show ?thesis using run e o q2 by auto
      next
        case (Inl x)
        show ?thesis
        proof (cases "is_retryable x")
          case True
          then have "call_loop b once can zero (attempt + 1) (Some x) (after_taken k body) s2 = (r, body', s')"
            using run e o Inl by simp
          from 1(1) [OF False w [symmetric] e o [symmetric] Inl refl _ this q2 [THEN conjunct1] _ wait once]
          show ?thesis using True q2 by simp
        qed (use run e o Inl q2 in auto)
      qed
    qed
  qed
qed

text \<open>A form is sent again as what the transport left of it: the whole form or nothing.\<close>

lemma call_form_rule:
  assumes "call_form b m form zero dec s = (r, s')" "form_law b" "0 \<le> bt_max_retry b" "P s"
    and wait: "\<And>d s e s'. P s \<Longrightarrow> nt_wait (bt_http b) d s = (e, s') \<Longrightarrow> P s'"
    and send: "\<And>body s a k s'. body \<in> {form_body form, ([], Eof)} \<Longrightarrow> P s \<Longrightarrow>
      nt_do (bt_http b) (api_request b m form_type body) s = (a, k, s') \<Longrightarrow>
      P s' \<and> (\<forall>rs x. a = Inr rs \<longrightarrow> decode_reply (bt_codec b) m dec rs = Inr x \<longrightarrow> R x s')"
  shows "P s' \<and> (\<forall>x. r = Inr x \<longrightarrow> R x s')"
proof -
  let ?Q = "\<lambda>body s. P s \<and> body \<in> {form_body form, ([], Eof)}"
  obtain body' where run: "call_loop b (call_once b m form_type dec) True zero 0 None (form_body form) s = (r, body', s')"
    using assms(1) by (auto simp: call_form_def call_with_retry_def form_body_def split: prod.splits)
  have "?Q body' s' \<and> (\<forall>x. r = Inr x \<longrightarrow> R x s')"
  proof (rule call_loop_rule [OF run])
    show "?Q (form_body form) s" using assms(4) by simp
    fix body s r k s' assume q: "?Q body s" and o: "call_once b m form_type dec body s = (r, k, s')"
    obtain a where a: "nt_do (bt_http b) (api_request b m form_type body) s = (a, k, s')"
      and r: "r = (case a of Inl e \<Rightarrow> Inl e | Inr rs \<Rightarrow> decode_reply (bt_codec b) m dec rs)"
      using o by (auto simp: call_once_def split: prod.splits sum.splits)
    have "after_taken k body \<in> {form_body form, ([], Eof)}"
      using q a assms(2) unfolding form_law_def by (fastforce simp: after_taken_def form_body_def)
    then show "?Q (after_taken k body) s' \<and> (\<forall>x. r = Inr x \<longrightarrow> R x s')"
      using send [OF _ _ a] q r by (auto split: sum.splits)
  qed (use assms(3) wait in auto)
  then show ?thesis by blast
qed

section \<open>The upload stream\<close>

lemma pump_spec:
  assumes "enc_ok e"
  shows "(\<exists>ns. (\<forall>n\<in>set ns. 0 < n) \<and> pump n left room e = enc_after ns e) \<and>
    (left \<le> n \<longrightarrow> left \<le> room \<longrightarrow> left \<le> length (fst (enc_pend e)) \<longrightarrow>
       fst (enc_pend (pump n left room e)) = drop left (fst (enc_pend e)))"
  using assms
proof (induction n arbitrary: left room e)
  case 0
  then show ?case by (auto intro: exI [of _ "[]"])
next
  case (Suc n)
  show ?case
  proof (cases "left = 0")
    case True
    then show ?thesis by (auto intro: exI [of _ "[]"])
  next
    case False
    obtain bs err e' where r: "enc_rd (min 32768 left) e = (bs, err, e')" by (cases "enc_rd (min 32768 left) e") auto
    note c = enc_rd_cases [OF Suc.prems _ r]
    have pos: "0 < min 32768 left" using False by simp
    show ?thesis
    proof (cases "err \<noteq> None \<or> room < length bs")
      case True
      then have p: "pump (Suc n) left room e = e'" using False r by simp
      have "e' = enc_after [min 32768 left] e" using r by simp
      moreover have "fst (enc_pend e') = drop left (fst (enc_pend e))"
        if "left \<le> room" "left \<le> length (fst (enc_pend e))"
        using c [OF pos] True that by (cases err) auto
      ultimately show ?thesis unfolding p using pos by (metis empty_iff insert_iff list.set(1) list.simps(15))
    next
      case no: False
      then have p: "pump (Suc n) left room e = pump n (left - length bs) (room - length bs) e'" using False r by simp
      have bs: "bs \<noteq> []" "length bs \<le> left" "enc_ok e'" "fst (enc_pend e) = bs @ fst (enc_pend e')"
        using c [OF pos] no by auto
      note ih = Suc.IH [OF bs(3), of "left - length bs" "room - length bs"]
      then obtain ns where ns: "\<forall>n\<in>set ns. 0 < n" "pump n (left - length bs) (room - length bs) e' = enc_after ns e'" by blast
      then have "pump (Suc n) left room e = enc_after (min 32768 left # ns) e \<and> (\<forall>n\<in>set (min 32768 left # ns). 0 < n)"
        using p r pos by simp
      moreover have "fst (enc_pend (pump (Suc n) left room e)) = drop left (fst (enc_pend e))"
        if "left \<le> Suc n" "left \<le> room" "left \<le> length (fst (enc_pend e))"
      proof -
        have "0 < length bs" using bs(1) by simp
        then have "left - length bs \<le> n" using that(1) by linarith
        then show ?thesis using ih that bs p by simp
      qed
      ultimately show ?thesis by blast
    qed
  qed
qed

lemma producer_left_after:
  assumes "enc_ok e"
  shows "\<exists>ns. (\<forall>n\<in>set ns. 0 < n) \<and> producer_left b bd name sz k e = enc_after ns e"
proof (cases "k < length (upload_head b bd name)")
  case True
  then show ?thesis by (auto simp: producer_left_def intro: exI [of _ "[]"])
next
  case False
  then show ?thesis using pump_spec [OF assms] by (simp add: producer_left_def)
qed

lemma producer_left_all:
  assumes "enc_ok e" "copy_n sz (enc_pend e) = (d, None)" "length (upload_head b bd name @ d) \<le> k"
  shows "fst (enc_pend (producer_left b bd name sz k e)) = drop (nat sz) (fst (enc_pend e))"
proof -
  have d: "sz \<le> int (length (fst (enc_pend e)))" "d = take (nat sz) (fst (enc_pend e))"
    using assms(2) by (auto simp: copy_n_def split: prod.splits if_splits)
  then have "nat sz \<le> length (fst (enc_pend e))" "length d = nat sz" by auto
  then show ?thesis using pump_spec [OF assms(1)] assms(3) by (simp add: producer_left_def)
qed

section \<open>The operations\<close>

text \<open>An upload is sent once: its stream cannot be sent again.\<close>

lemma upload_call:
  assumes "call_with_retry b m ctype False zero dec body s = (r, rest, s')" "0 \<le> bt_max_retry b"
  shows "\<exists>k. call_once b m ctype dec body s = (r, k, s') \<and> rest = after_taken k body"
proof -
  obtain a k s1 where o: "call_once b m ctype dec body s = (a, k, s1)" by (cases "call_once b m ctype dec body s") auto
  have again: "call_loop b (call_once b m ctype dec) False zero (0 + 1) (Some e) body' t = (Inl e, body', t)" for e body' t
    by (subst call_loop.simps) simp
  show ?thesis using assms o unfolding call_with_retry_def call_loop.simps [of b _ False zero 0 None body s] again
    by (auto split: sum.splits if_splits)
qed

lemma bot_put_law:
  assumes "telegram_laws b held served" "0 \<le> bt_max_retry b"
  shows "put_law (bot_backend b) held"
  unfolding put_law_def
proof (intro allI impI)
  fix name sz e s r e' s'
  assume e: "enc_ok e" and "be_put (bot_backend b) name sz e s = (r, e', s')"
  then have p: "bot_put b name sz e s = (r, e', s')" by (simp add: bot_backend_def)
  let ?d = "fst (enc_pend e)"
  show "(\<exists>ns. (\<forall>n\<in>set ns. 0 < n) \<and> e' = enc_after ns e) \<and>
     (case r of
        Inl err \<Rightarrow> \<exists>ref d. held s' = held s \<or> held s ref = None \<and> held s' = (held s)(ref \<mapsto> d)
      | Inr ref \<Rightarrow> no_message (held s) (fst ref) \<and> sz \<le> int (length ?d) \<and>
          fst (enc_pend e') = drop (nat sz) ?d \<and> held s' = (held s)(ref \<mapsto> take (nat sz) ?d))"
  proof (cases "sz > bot_max_object_size")
    case True
    then show ?thesis using p by (auto simp: bot_put_def intro: exI [of _ "[]"])
  next
    case False
    define nm where "nm = (if name = [] then ''blob'' else name)"
    obtain bd s1 where bd: "nt_boundary (bt_http b) s = (bd, s1)" by fastforce
    define body where "body = upload_body b bd nm sz (enc_pend e)"
    obtain a rest s2 where c: "call_with_retry b ''sendDocument'' (multipart_type bd) False \<lparr>bm_id = 0, bm_document = None\<rparr>
        (cd_message (bt_codec b)) body s1 = (a, rest, s2)" by (metis prod_cases3)
    then obtain k where o: "call_once b ''sendDocument'' (multipart_type bd) (cd_message (bt_codec b)) body s1 = (a, k, s2)"
      and rest: "rest = after_taken k body" using upload_call [OF c assms(2)] by blast
    define taken where "taken = length (fst body) - length (fst rest)"
    have res: "r = (case a of Inl err \<Rightarrow> Inl (classify err)
        | Inr m \<Rightarrow> (case producer_err taken body of Some err \<Rightarrow> Inl (classify err)
            | None \<Rightarrow> (case bm_document m of None \<Rightarrow> Inl (New ''bot: response missing document'') | Some f \<Rightarrow> Inr (bm_id m, f))))"
      and e': "e' = producer_left b bd nm sz taken e" and s': "s' = s2"
      using p [unfolded bot_put_def if_not_P [OF False] bd prod.case Let_def, folded nm_def, folded body_def, unfolded c prod.case, folded taken_def]
      by simp_all
    have h1: "held s1 = held s" using assms(1) bd unfolding telegram_laws_def idle_law_def by blast
    obtain x where x: "nt_do (bt_http b) (api_request b ''sendDocument'' (multipart_type bd) body) s1 = (x, k, s2)"
      and a: "a = (case x of Inl err \<Rightarrow> Inl err | Inr rs \<Rightarrow> decode_reply (bt_codec b) ''sendDocument'' (cd_message (bt_codec b)) rs)"
      using o by (auto simp: call_once_def split: prod.splits sum.splits)
    have "send_law b held" using assms(1) by (simp add: telegram_laws_def)
    note send = this [unfolded send_law_def, THEN conjunct1, rule_format, OF x]
      this [unfolded send_law_def, THEN conjunct2, rule_format]
    show ?thesis
    proof (intro conjI)
      show "\<exists>ns. (\<forall>n\<in>set ns. 0 < n) \<and> e' = enc_after ns e" unfolding e' using producer_left_after [OF e] by blast
      show "case r of Inl err \<Rightarrow> \<exists>ref d. held s' = held s \<or> held s ref = None \<and> held s' = (held s)(ref \<mapsto> d)
        | Inr ref \<Rightarrow> no_message (held s) (fst ref) \<and> sz \<le> int (length ?d) \<and>
          fst (enc_pend e') = drop (nat sz) ?d \<and> held s' = (held s)(ref \<mapsto> take (nat sz) ?d)"
      proof (cases r)
        case (Inl err)
        then show ?thesis using send(1) h1 s' by simp
      next
        case (Inr ref)
        then obtain m f where m: "a = Inr m" "producer_err taken body = None" "bm_document m = Some f" "ref = (bm_id m, f)"
          using res by (auto split: sum.splits option.splits)
        obtain rs where rs: "x = Inr rs" "decode_reply (bt_codec b) ''sendDocument'' (cd_message (bt_codec b)) rs = Inr m"
          using m(1) a by (auto split: sum.splits)
        have full: "length (fst body) \<le> taken" "snd body = Eof" using m(2) by (auto simp: producer_err_def split: if_splits ending.splits)
        then obtain d where d: "copy_n sz (enc_pend e) = (d, None)"
          using body_def by (auto simp: upload_body_def split: prod.splits option.splits)
        then have body: "body = (upload_head b bd nm @ d @ upload_tail bd, Eof)" by (simp add: body_def upload_body_def)
        have cp: "sz \<le> int (length ?d)" "d = take (nat sz) ?d" using d by (auto simp: copy_n_def split: prod.splits if_splits)
        have "nt_do (bt_http b) (upload_request b bd nm d) s1 = (Inr rs, k, s2)" using x rs(1) body by (simp add: upload_request_def)
        from send(2) [OF _ this rs(2) m(3), of s] have "no_message (held s) (bm_id m)" "held s2 = (held s)((bm_id m, f) \<mapsto> d)"
          using h1 bd by simp_all
        moreover have "fst (enc_pend e') = drop (nat sz) ?d"
          unfolding e' by (rule producer_left_all [OF e d]) (use full body in simp)
        ultimately show ?thesis using Inr m(4) s' cp by simp
      qed
    qed
  qed
qed

lemma bot_get_law:
  assumes "telegram_laws b held served" "0 \<le> bt_max_retry b"
  shows "get_law (bot_backend b) held"
  unfolding get_law_def
proof (intro allI impI)
  fix ref s r s' assume "be_get (bot_backend b) ref s = (r, s')"
  then have g: "bot_get b ref s = (r, s')" by (simp add: bot_backend_def)
  show "held s' = held s \<and> (\<forall>d d'. r = Inr (d, Eof) \<longrightarrow> held s ref = Some d' \<longrightarrow> d = d')"
  proof (cases "snd ref = []")
    case True
    then show ?thesis using g by (auto simp: bot_get_def efail_def)
  next
    case False
    have laws: "file_law b held served" "form_law b" "idle_law b held" using assms(1) by (simp_all add: telegram_laws_def)
    obtain a s1 where f: "call_form b ''getFile'' (file_form ref) [] (cd_file (bt_codec b)) s = (a, s1)" by fastforce
    note fl = laws(1) [unfolded file_law_def]
    have f1: "held s1 = held s \<and> (\<forall>p. a = Inr p \<longrightarrow> p \<noteq> [] \<longrightarrow> (\<forall>d. held s ref = Some d \<longrightarrow> served s1 p = Some d))"
    proof (rule call_form_rule [OF f laws(2) assms(2), where P = "\<lambda>t. held t = held s"])
      fix t d e t' assume "held t = held s" "nt_wait (bt_http b) d t = (e, t')"
      then show "held t' = held s" using laws(3) unfolding idle_law_def by metis
    next
      fix body t x k t' assume body: "body \<in> {form_body (file_form ref), ([], Eof)}" and t: "held t = held s"
        and x: "nt_do (bt_http b) (api_request b ''getFile'' form_type body) t = (x, k, t')"
      show "held t' = held s \<and> (\<forall>rs p. x = Inr rs \<longrightarrow> decode_reply (bt_codec b) ''getFile'' (cd_file (bt_codec b)) rs = Inr p \<longrightarrow>
          p \<noteq> [] \<longrightarrow> (\<forall>d. held s ref = Some d \<longrightarrow> served t' p = Some d))"
      proof (cases "body = ([], Eof)")
        case True
        from fl [THEN conjunct2, THEN conjunct1, rule_format, OF x [unfolded True]] show ?thesis using t by simp
      next
        case False
        then have "body = form_body (file_form ref)" using body by simp
        from fl [THEN conjunct1, rule_format, OF x [unfolded this]] show ?thesis using t by metis
      qed
    qed simp
    show ?thesis
    proof (cases "\<exists>p. a = Inr p \<and> p \<noteq> []")
      case True
      then obtain p where p: "a = Inr p" "p \<noteq> []" by blast
      then have d: "bot_download b p s1 = (r, s')" using g f False by (simp add: bot_get_def ecatch_def)
      obtain x k where x: "nt_do (bt_http b) (file_request b p) s1 = (x, k, s')"
        and r: "r = (case x of Inl e \<Rightarrow> Inl (Wrap [] [ErrUnavailable, e]) | Inr rs \<Rightarrow> download_reply rs)"
        using d by (auto simp: bot_download_def split: prod.splits sum.splits)
      note dl = fl [THEN conjunct2, THEN conjunct2, rule_format, OF x]
      have "held s1 ref = held s ref" "held s' = held s" using f1 dl by simp_all
      moreover have "d = d'" if eq: "r = Inr (d, Eof)" "held s ref = Some d'" for d d'
      proof -
        obtain rs where rs: "x = Inr rs" "hp_status rs = 200" "hp_body rs = (d, Eof)"
          using eq(1) r by (auto simp: download_reply_def Let_def split: sum.splits if_splits)
        have "served s1 p = Some d'" using f1 p eq(2) by blast
        then show ?thesis using dl [THEN conjunct2, rule_format, OF rs] by blast
      qed
      ultimately show ?thesis by blast
    next
      case np: False
      then have "s' = s1 \<and> (\<exists>e. r = Inl e)" using g f False by (auto simp: bot_get_def ecatch_def efail_def split: sum.splits)
      then show ?thesis using f1 by auto
    qed
  qed
qed

lemma bot_delete_law:
  assumes "telegram_laws b held served" "0 \<le> bt_max_retry b"
  shows "delete_law (bot_backend b) held"
  unfolding delete_law_def
proof (intro allI impI)
  fix ref s r s' and ref' :: blobref assume "be_delete (bot_backend b) ref s = (r, s')" and ref': "fst ref' \<noteq> fst ref"
  then obtain a where g: "bot_delete b ref s = (a, s')" by (auto simp: bot_backend_def split: prod.splits sum.splits)
  have laws: "erase_law b held" "form_law b" "idle_law b held" using assms(1) by (simp_all add: telegram_laws_def)
  obtain c where f: "call_form b ''deleteMessage'' (message_form b ref) False (cd_bool (bt_codec b)) s = (c, s')"
    using g by (auto simp: bot_delete_def ecatch_def efail_def eret_def split: prod.splits sum.splits if_splits)
  note erase = laws(1) [unfolded erase_law_def]
  have "held s' ref' = held s ref' \<and> (\<forall>x. c = Inr x \<longrightarrow> True)"
  proof (rule call_form_rule [OF f laws(2) assms(2), where P = "\<lambda>t. held t ref' = held s ref'"])
    fix t d e t' assume "held t ref' = held s ref'" "nt_wait (bt_http b) d t = (e, t')"
    then show "held t' ref' = held s ref'" using laws(3) unfolding idle_law_def by metis
  next
    fix body t x k t' assume body: "body \<in> {form_body (message_form b ref), ([], Eof)}" and t: "held t ref' = held s ref'"
      and x: "nt_do (bt_http b) (api_request b ''deleteMessage'' form_type body) t = (x, k, t')"
    have "held t' ref' = held t ref'"
    proof (cases "body = ([], Eof)")
      case True
      from erase [THEN conjunct2, rule_format, OF x [unfolded True]] show ?thesis by simp
    next
      case False
      then have "body = form_body (message_form b ref)" using body by simp
      from erase [THEN conjunct1, rule_format, OF x [unfolded this] ref'] show ?thesis .
    qed
    then show "held t' ref' = held s ref' \<and> (\<forall>rs x'. x = Inr rs \<longrightarrow> decode_reply (bt_codec b) ''deleteMessage'' (cd_bool (bt_codec b)) rs = Inr x' \<longrightarrow> True)"
      using t by simp
  qed simp
  then show "held s' ref' = held s ref'" by blast
qed

section \<open>How often it calls\<close>

text \<open>The adapter over a network that counts calls and waits.\<close>

definition metered :: "'h bot \<Rightarrow> ('h \<times> nat \<times> nat) bot" where
  "metered b = \<lparr>bt_token = bt_token b, bt_chat = bt_chat b, bt_endpoint = bt_endpoint b,
     bt_http = \<lparr>nt_do = (\<lambda>rq (s, n, w). case nt_do (bt_http b) rq s of (r, k, s') \<Rightarrow> (r, k, s', Suc n, w)),
       nt_wait = (\<lambda>d (s, n, w). case nt_wait (bt_http b) d s of (e, s') \<Rightarrow> (e, s', n, Suc w)),
       nt_boundary = (\<lambda>(s, n, w). case nt_boundary (bt_http b) s of (bd, s') \<Rightarrow> (bd, s', n, w))\<rparr>,
     bt_max_retry = bt_max_retry b, bt_codec = bt_codec b\<rparr>"

lemma metered_once:
  "call_once (metered b) m ctype dec body (s, n, w) = (case call_once b m ctype dec body s of (r, k, s') \<Rightarrow> (r, k, s', Suc n, w))"
  by (simp add: call_once_def metered_def api_request_def api_url_def split: prod.split sum.split)

lemma metered_loop:
  assumes "call_loop (metered b) once' can zero attempt lst body (s, n, w) = (r, body', s', n', w')"
    and "\<And>body s n w. once' body (s, n, w) = (case once body s of (r, k, s') \<Rightarrow> (r, k, s', Suc n, w))"
    and "0 \<le> attempt"
  shows "call_loop b once can zero attempt lst body s = (r, body', s') \<and> n \<le> n' \<and> w \<le> w' \<and>
    (bt_max_retry b < attempt \<or> attempt > 0 \<and> \<not> can \<longrightarrow> n' = n) \<and>
    (\<not> (bt_max_retry b < attempt \<or> attempt > 0 \<and> \<not> can) \<longrightarrow> n' \<le> n + nat (bt_max_retry b + 1 - attempt)) \<and>
    (\<not> can \<longrightarrow> n' \<le> Suc n)"
  using assms(1,3)
proof (induction "nat (bt_max_retry b + 1 - attempt)" arbitrary: attempt lst body s n w rule: less_induct)
  case less
  let ?stop = "bt_max_retry b < attempt \<or> attempt > 0 \<and> \<not> can"
  have m: "bt_max_retry (metered b) = bt_max_retry b" by (simp add: metered_def)
  show ?case
  proof (cases ?stop)
    case True
    then show ?thesis using less(2) unfolding call_loop.simps [of _ _ _ _ attempt] m by auto
  next
    case False
    obtain e s1 where wt: "(if attempt > 0 then nt_wait (bt_http b) (retry_delay attempt lst) s else (None, s)) = (e, s1)" by fastforce
    define w1 where "w1 = (if attempt > 0 then Suc w else w)"
    have wt': "(if attempt > 0 then nt_wait (bt_http (metered b)) (retry_delay attempt lst) (s, n, w) else (None, s, n, w)) = (e, s1, n, w1)"
      using wt by (auto simp: metered_def w1_def split: prod.splits if_splits)
    obtain a k s2 where o: "once body s1 = (a, k, s2)" by (cases "once body s1") auto
    have o': "once' body (s1, n, w1) = (a, k, s2, Suc n, w1)" using o assms(2) by simp
    note run = less(2) [unfolded call_loop.simps [of "metered b" once' can zero attempt lst body], unfolded m wt' if_not_P [OF False] prod.case]
    note run' = call_loop.simps [of b once can zero attempt lst body s, unfolded wt if_not_P [OF False] prod.case]
    have lt: "nat (bt_max_retry b + 1 - (attempt + 1)) < nat (bt_max_retry b + 1 - attempt)" using False by simp
    have w1: "w \<le> w1" by (simp add: w1_def)
    show ?thesis
    proof (cases "e = None \<and> (\<exists>x. a = Inl x \<and> is_retryable x)")
      case True
      then obtain x where x: "e = None" "a = Inl x" "is_retryable x" by blast
      have "call_loop (metered b) once' can zero (attempt + 1) (Some x) (after_taken k body) (s2, Suc n, w1) = (r, body', s', n', w')"
        using run o' x by simp
      have "0 \<le> attempt + 1" using less(3) by simp
      note ih = less(1) [OF lt \<open>call_loop (metered b) _ _ _ (attempt + 1) _ _ _ = _\<close> this]
      have eq: "call_loop b once can zero attempt lst body s = (r, body', s')" unfolding run' using ih o x by simp
      have "n' \<le> n + nat (bt_max_retry b + 1 - attempt)"
        using ih False by (cases "bt_max_retry b < attempt + 1 \<or> attempt + 1 > 0 \<and> \<not> can") auto
      moreover have "n' \<le> Suc n" if "\<not> can" using ih that less(3) by auto
      ultimately show ?thesis using ih eq w1 False by auto
    next
      case stop: False
      then have "call_loop b once can zero attempt lst body s = (r, body', s') \<and> n \<le> n' \<and> n' \<le> Suc n \<and> w' = w1"
        unfolding run' using run o o' by (auto split: option.splits sum.splits)
      then show ?thesis using False w1 by auto
    qed
  qed
qed

text \<open>
  An outage: from attempt \<open>i\<close> on, calls fail in a way worth trying again, taking nothing of the body,
  and are waited for, until attempt \<open>j\<close> is about to call in the state \<open>s'\<close>.
\<close>

inductive outage :: "'h bot \<Rightarrow> (reader \<Rightarrow> 'h \<Rightarrow> (goerr + 'a) \<times> nat \<times> 'h) \<Rightarrow> reader \<Rightarrow> int \<Rightarrow> 'h \<Rightarrow> int \<Rightarrow> 'h \<Rightarrow> bool"
  for b once body where
  over: "outage b once body i s i s"
| failed: "once body s = (Inl e, 0, s1) \<Longrightarrow> is_retryable e \<Longrightarrow> nt_wait (bt_http b) (retry_delay (i + 1) (Some e)) s1 = (None, s2) \<Longrightarrow>
    outage b once body (i + 1) s2 j s' \<Longrightarrow> outage b once body i s j s'"

lemma outage_mono: "outage b once body i s j s' \<Longrightarrow> i \<le> j"
  by (induction rule: outage.induct) auto

lemma after_outage:
  assumes "outage b once body i s j s'" "0 \<le> i" "j \<le> bt_max_retry b" "once body s' = (Inr x, k, t)"
    and "if i > 0 then nt_wait (bt_http b) (retry_delay i lst) s0 = (None, s) else s0 = s"
  shows "call_loop b once True zero i lst body s0 = (Inr x, after_taken k body, t)"
  using assms
proof (induction arbitrary: lst s0 rule: outage.induct)
  case (over i s)
  then show ?case by (subst call_loop.simps) (auto split: if_splits)
next
  case (failed s e s1 i s2 j s')
  have "i \<le> j" using outage_mono [OF failed(4)] by simp
  then have go: "\<not> (bt_max_retry b < i \<or> 0 < i \<and> \<not> True)" using failed(7) by simp
  have "after_taken 0 body = body" by (simp add: after_taken_def)
  then have "call_loop b once True zero i lst body s0 = call_loop b once True zero (i + 1) (Some e) body s1"
    using failed(1,2,9) go by (subst call_loop.simps) (auto split: if_splits)
  also have "\<dots> = (Inr x, after_taken k body, t)"
    by (rule failed.IH) (use failed in simp_all)
  finally show ?case .
qed

end
