(* ===== verification/BotClaims.thy ===== *)
theory BotClaims
  imports BotProperties GoNumbers
begin

text \<open>
  Properties of the Bot API adapter, and a Telegram in memory on which they are witnessed: a list
  of documents, of at most 1000 messages, addressed by message number and by a file id in unary.
\<close>

section \<open>A Telegram in memory\<close>

type_synonym chat = "bytes option list"

definition file_name :: "nat \<Rightarrow> string" where
  "file_name i = replicate (Suc i) CHR ''f''"

definition chat_held :: "chat \<Rightarrow> blobref \<Rightarrow> bytes option" where
  "chat_held s ref = (if 0 \<le> fst ref \<and> nat (fst ref) < length s \<and> snd ref = file_name (nat (fst ref))
     then s ! nat (fst ref) else None)"

definition chat_served :: "chat \<Rightarrow> string \<Rightarrow> bytes option" where
  "chat_served s p = (if p \<noteq> [] \<and> length p \<le> length s \<and> p = file_name (length p - 1) then s ! (length p - 1) else None)"

text \<open>A reply is a byte 1 and the result; an empty reply is a refusal, any other a failure of the service.\<close>

definition chat_codec :: json_codec where
  "chat_codec = \<lparr>cd_envelope = (\<lambda>raw. Inr \<lparr>en_ok = (take 1 raw = [1]), en_description = ''Bad Request: not found'', en_code = (if raw = [] then 400 else 503),
       en_retry = None, en_result = tl raw\<rparr>),
     cd_user = (\<lambda>r. Inr True), cd_chat = (\<lambda>r. Inr ''channel''),
     cd_message = (\<lambda>r. Inr \<lparr>bm_id = int (length r), bm_document = Some (file_name (length r))\<rparr>),
     cd_file = (\<lambda>r. Inr (string_of r)), cd_bool = (\<lambda>r. Inr True)\<rparr>"

fun skip_lines :: "nat \<Rightarrow> bytes \<Rightarrow> bytes" where
  "skip_lines 0 d = d"
| "skip_lines (Suc n) d = skip_lines n (tl (dropWhile (\<lambda>x. x \<noteq> 10) d))"

definition sent_document :: "string \<Rightarrow> bytes \<Rightarrow> bytes" where
  "sent_document bd body = (let d = skip_lines 8 body in take (length d - length (upload_tail bd)) d)"

definition reply :: "bytes \<Rightarrow> hresponse" where
  "reply d = \<lparr>hp_status = 200, hp_body = (d, Eof)\<rparr>"

definition erase_message :: "string \<Rightarrow> chat \<Rightarrow> chat" where
  "erase_message m s = map (\<lambda>(i, d). if format_int (int i) = m then None else d) (enumerate 0 s)"

definition chat_do :: "hrequest \<Rightarrow> chat \<Rightarrow> (goerr + hresponse) \<times> nat \<times> chat" where
  "chat_do rq s = (case hr_body rq of
       (d, Fail e) \<Rightarrow> (Inl e, length d, s)
     | (d, Eof) \<Rightarrow>
         if hr_method rq = ''GET'' then (case chat_served s (drop 11 (hr_url rq)) of
             None \<Rightarrow> (Inr ((reply [])\<lparr>hp_status := 404\<rparr>), length d, s) | Some c \<Rightarrow> (Inr (reply c), length d, s))
         else if hr_url rq = ''/bott/sendDocument''
         then (if length s < 1000
           then (Inr (reply (1 # replicate (length s) 0)), length d, s @ [Some (sent_document (drop 30 (hr_ctype rq)) d)])
           else (Inr (reply []), length d, s))
         else if hr_url rq = ''/bott/getFile'' then (let f = string_of (drop 8 d) in 
             if chat_served s f \<noteq> None \<and> length f \<le> 1000 then (Inr (reply (1 # bytes_of f)), length d, s)
             else (Inr (reply []), length d, s))
         else if hr_url rq = ''/bott/deleteMessage''
         then (Inr (reply [1]), length d, erase_message (string_of (drop 21 d)) s)
         else (Inr (reply []), length d, s))"

definition chat_bot :: "chat bot" where
  "chat_bot = \<lparr>bt_token = ''t'', bt_chat = 7, bt_endpoint = [],
     bt_http = \<lparr>nt_do = chat_do, nt_wait = (\<lambda>d s. (None, s)), nt_boundary = (\<lambda>s. (''b'', s))\<rparr>,
     bt_max_retry = 3, bt_codec = chat_codec\<rparr>"

lemma chat_bot_simps [simp]:
  "bt_http chat_bot = \<lparr>nt_do = chat_do, nt_wait = (\<lambda>d s. (None, s)), nt_boundary = (\<lambda>s. (''b'', s))\<rparr>"
  "bt_max_retry chat_bot = 3" "bt_codec chat_bot = chat_codec"
  by (simp_all add: chat_bot_def)

text \<open>What is sent is what arrives.\<close>

lemma skip_line: "10 \<notin> set l \<Longrightarrow> skip_lines (Suc n) (l @ 10 # r) = skip_lines n r"
proof -
  assume "10 \<notin> set l"
  then have "dropWhile (\<lambda>x. x \<noteq> 10) (l @ 10 # r) = 10 # r" by (induction l) auto
  then show ?thesis by simp
qed

lemma newline_of_char: "of_char c = (10 :: byte) \<longleftrightarrow> c = CHR 0x0A"
proof
  assume "of_char c = (10 :: byte)"
  then have "unat (of_char c :: byte) = 10" by simp
  then have "of_char c = (of_char CHR 0x0A :: nat)" by simp
  then show "c = CHR 0x0A" by (simp only: of_char_eq_iff)
qed simp

lemma newline_hex_digit: "k < 16 \<Longrightarrow> CHR 0x0A \<noteq> hex_digit k"
proof
  assume k: "k < 16" and "CHR 0x0A = hex_digit k"
  then have "(of_char (hex_digit k) :: nat) = of_char CHR 0x0A" by simp
  then show False using k by (auto simp: hex_digit_def split: if_splits)
qed

lemma quote_char_line: "CHR 0x0A \<notin> set (quote_char c)"
  using newline_hex_digit [of "of_char c div 16"] newline_hex_digit [of "of_char c mod 16"]
    newline_hex_digit [of 7] newline_hex_digit [of 15] of_char_div_less [of c]
  by (auto simp: quote_char_def Let_def)

lemma newline_in_bytes: "(10 :: byte) \<in> set (bytes_of s) \<longleftrightarrow> CHR 0x0A \<in> set s"
  by (auto simp: bytes_of_def newline_of_char image_iff eq_commute [of "10 :: byte"])

lemma sent_document: "sent_document ''b'' (upload_head chat_bot ''b'' name @ d @ upload_tail ''b'') = d"
proof -
  let ?cr = "[CHR 0x0D]"
  define q where "q = go_quote name"
  have q: "CHR 0x0A \<notin> set q" using quote_char_line by (auto simp: q_def go_quote_def)
  define l1 l2 l5 l6 l7 where l: "l1 = bytes_of (''--b'' @ ?cr)"
    "l2 = bytes_of (''Content-Disposition: form-data; name='' @ go_quote ''chat_id'' @ ?cr)" "l5 = bytes_of (''7'' @ ?cr)"
    "l6 = bytes_of (''Content-Disposition: form-data; name='' @ go_quote ''document'' @ ''; filename='' @ q @ ?cr)"
    "l7 = bytes_of (''Content-Type: application/octet-stream'' @ ?cr)"
  have eight: "8 = Suc (Suc (Suc (Suc (Suc (Suc (Suc (Suc 0)))))))" by simp
  have seven: "format_int 7 = ''7''" by code_simp
  have head: "upload_head chat_bot ''b'' name @ r = l1 @ 10 # l2 @ 10 # bytes_of ?cr @ 10 # l5 @ 10 # l1 @ 10 # l6 @ 10 # l7 @ 10 # bytes_of ?cr @ 10 # r" for r
    unfolding upload_head_def l crlf_def q_def [symmetric]
    by (simp add: bytes_of_def chat_bot_def seven)
  have "10 \<notin> set l1" "10 \<notin> set l2" "10 \<notin> set l5" "10 \<notin> set l6" "10 \<notin> set l7" "(10 :: byte) \<notin> set (bytes_of ?cr)"
    using q quote_char_line unfolding l newline_in_bytes by (auto simp: go_quote_def)
  then have "skip_lines 8 (upload_head chat_bot ''b'' name @ r) = r" for r
    unfolding head eight by (simp only: skip_line skip_lines.simps(1) simp_thms)
  then show ?thesis by (simp add: sent_document_def)
qed

lemma erase_message_nth:
  "length (erase_message m s) = length s"
  "i < length s \<Longrightarrow> erase_message m s ! i = (if format_int (int i) = m then None else s ! i)"
  by (simp_all add: erase_message_def nth_enumerate_eq)

lemma format_int_inj: "format_int (int i) = format_int m \<Longrightarrow> int i = m"
proof -
  assume a: "format_int (int i) = format_int m"
  show "int i = m"
  proof (cases "m < 0")
    case True
    then have "nat_digits i = CHR ''-'' # nat_digits (nat (- m))" using a by (simp add: format_int_def)
    then have "list_all is_digit (CHR ''-'' # nat_digits (nat (- m)))" using nat_digits_ok [of i] by simp
    then show ?thesis by (simp add: is_digit_def)
  next
    case False
    then have "nat_digits i = nat_digits (nat m)" using a by (simp add: format_int_def)
    then have "int i = int (nat m)" by (metis digits_val_nat)
    then show ?thesis using False by simp
  qed
qed

text \<open>Numbers and file ids are not changed by the encoding of a form.\<close>

lemma query_escape_plain: "list_all (unreserved) s \<Longrightarrow> query_escape s = s"
  by (induction s) (auto simp: query_escape_def aws_escape_char_def unreserved_def)

lemma digit_unreserved: "is_digit c \<Longrightarrow> unreserved c"
  by (simp add: is_digit_def unreserved_def Let_def)

lemma query_escape_int: "query_escape (format_int m) = format_int m"
proof (rule query_escape_plain)
  have "list_all unreserved (nat_digits k)" for k
    using nat_digits_ok [of k] digit_unreserved by (auto simp: list_all_iff)
  then show "list_all unreserved (format_int m)" by (simp add: format_int_def unreserved_def)
qed

lemma query_escape_file: "query_escape (file_name i) = file_name i"
  by (rule query_escape_plain) (simp add: file_name_def list_all_iff unreserved_def)

lemma file_body:
  "form_body [(''file_id'', file_name i)] = (bytes_of (''file_id='' @ file_name i), Eof)"
  by (simp add: form_body_def form_encode_def query_escape_file)
    (simp add: query_escape_def aws_escape_char_def unreserved_def)

lemma message_body:
  "form_body (message_form chat_bot ref) = (bytes_of (''chat_id=7&message_id='' @ format_int (fst ref)), Eof)"
proof -
  have "format_int 7 = ''7''" "query_escape ''chat_id'' = ''chat_id''" "query_escape ''message_id'' = ''message_id''" by code_simp+
  then show ?thesis
    using query_escape_int [of 7] by (simp add: form_body_def form_encode_def message_form_def chat_bot_def query_escape_int)
qed

lemma file_name_inj [simp]: "file_name i = file_name j \<longleftrightarrow> i = j" "length (file_name i) = Suc i" "file_name i \<noteq> []"
  by (auto simp: file_name_def dest: arg_cong [where f = length])

text \<open>Requests of the bot, as the chat sees them.\<close>

lemma chat_requests:
  "hr_body (api_request b m ct body) = body" "hr_method (api_request b m ct body) = ''POST''"
  "hr_url (api_request chat_bot m ct body) = ''/bott/'' @ m" "hr_ctype (api_request b m ct body) = ct"
  "hr_body (file_request b p) = ([], Eof)" "hr_method (file_request b p) = ''GET''" "drop 11 (hr_url (file_request chat_bot p)) = p"
  by (simp_all add: api_request_def file_request_def api_url_def file_url_def chat_bot_def)

lemma chat_held_append: "chat_held (s @ [Some d]) = (chat_held s)((int (length s), file_name (length s)) \<mapsto> d)"
  by (auto simp: chat_held_def fun_eq_iff nth_append)

lemma reply_decode [simp]:
  "length r < 2 ^ 20 - 1 \<Longrightarrow> decode_reply chat_codec m dec (reply (1 # r)) =
    (case dec r of Inl e \<Rightarrow> Inl (Wrap (''bot '' @ m @ '': decode result'') [e]) | Inr x \<Rightarrow> Inr x)"
  "decode_reply chat_codec m dec (reply []) = Inl (APIErr m 400 ''Bad Request: not found'' 0)"
  by (simp_all add: decode_reply_def reply_def limit_reader_def read_all_def chat_codec_def)

lemma codec_results [simp]:
  "cd_message chat_codec r = Inr \<lparr>bm_id = int (length r), bm_document = Some (file_name (length r))\<rparr>"
  "cd_file chat_codec r = Inr (string_of r)" "cd_bool chat_codec r = Inr True"
  by (simp_all add: chat_codec_def)

lemma chat_send: "send_law chat_bot chat_held"
proof -
  have "chat_held s' = chat_held s \<or> (\<exists>ref d. chat_held s ref = None \<and> chat_held s' = (chat_held s)(ref \<mapsto> d))"
    if "chat_do (api_request chat_bot ''sendDocument'' ct body) s = (r, k, s')" for ct body s r k s'
  proof -
    have "s' = s \<or> (\<exists>d. s' = s @ [Some d])"
      using that unfolding chat_do_def by (auto simp: chat_requests split: prod.splits ending.splits if_splits)
    moreover have "chat_held s (int (length s), file_name (length s)) = None" by (simp add: chat_held_def)
    ultimately show ?thesis using chat_held_append by metis
  qed
  moreover have "no_message (chat_held s) (bm_id m) \<and> chat_held s' = (chat_held s)((bm_id m, f) \<mapsto> d)"
    if "chat_do (upload_request chat_bot ''b'' name d) s = (Inr rs, k, s')"
      "decode_reply chat_codec ''sendDocument'' (cd_message chat_codec) rs = Inr m" "bm_document m = Some f" for name d s rs k s' m f
  proof -
    have "drop 30 (multipart_type ''b'') = ''b''" by (simp add: multipart_type_def)
    then have run: "chat_do (upload_request chat_bot ''b'' name d) s = (if length s < 1000
        then (Inr (reply (1 # replicate (length s) 0)), length (upload_head chat_bot ''b'' name @ d @ upload_tail ''b''), s @ [Some d])
        else (Inr (reply []), length (upload_head chat_bot ''b'' name @ d @ upload_tail ''b''), s))"
      unfolding chat_do_def by (simp add: upload_request_def chat_requests sent_document)
    show ?thesis
    proof (cases "length s < 1000")
      case True
      then have "rs = reply (1 # replicate (length s) 0)" "s' = s @ [Some d]" using run that(1) by auto
      moreover from this have "m = \<lparr>bm_id = int (length s), bm_document = Some (file_name (length s))\<rparr>"
        using that(2) True by simp
      ultimately show ?thesis using that(3) chat_held_append by (simp add: no_message_def chat_held_def)
    next
      case False
      then have "rs = reply []" using run that(1) by auto
      then show ?thesis using that(2) by simp
    qed
  qed
  ultimately show ?thesis unfolding send_law_def by simp
qed

lemma chat_laws: "telegram_laws chat_bot chat_held chat_served"
proof -
  have form: "form_law chat_bot"
    unfolding form_law_def by (auto simp: chat_do_def chat_requests form_body_def Let_def split: option.splits if_splits)
  have get: "chat_held s' = chat_held s \<and> (\<forall>rs p d. r = Inr rs \<longrightarrow> decode_reply chat_codec ''getFile'' (cd_file chat_codec) rs = Inr p \<longrightarrow>
        p \<noteq> [] \<longrightarrow> chat_held s ref = Some d \<longrightarrow> chat_served s' p = Some d)"
    if "chat_do (api_request chat_bot ''getFile'' form_type (form_body (file_form ref))) s = (r, k, s')" for ref s r k s'
  proof -
    let ?b = "fst (form_body (file_form ref))"
    have run: "chat_do (api_request chat_bot ''getFile'' form_type (form_body (file_form ref))) s =
        (if chat_served s (string_of (drop 8 ?b)) \<noteq> None \<and> length (string_of (drop 8 ?b)) \<le> 1000
         then (Inr (reply (1 # bytes_of (string_of (drop 8 ?b)))), length ?b, s) else (Inr (reply []), length ?b, s))"
      by (simp add: chat_do_def chat_requests form_body_def Let_def)
    have "chat_served s p = Some d" if r: "r = Inr rs" and p: "decode_reply chat_codec ''getFile'' (cd_file chat_codec) rs = Inr p"
      "p \<noteq> []" and h: "chat_held s ref = Some d" for rs p d
    proof -
      have ref: "snd ref = file_name (nat (fst ref))" "chat_served s (snd ref) = Some d"
        using h by (auto simp: chat_held_def chat_served_def split: if_splits)
      have f: "string_of (drop 8 ?b) = snd ref"
        using file_body [of "nat (fst ref)"] ref(1) by (simp add: file_form_def bytes_of_def string_of_def comp_def drop_map [symmetric])
      then have "rs = reply (1 # bytes_of (snd ref)) \<and> length (snd ref) \<le> 1000 \<or> rs = reply []"
        using run \<open>chat_do _ s = (r, k, s')\<close> [unfolded r] by (auto split: if_splits)
      then show ?thesis using p ref(2) by auto
    qed
    moreover have "s' = s" using run that by (auto split: if_splits)
    ultimately show ?thesis by blast
  qed
  have empty: "chat_held s' = chat_held s \<and> (\<forall>rs p. r = Inr rs \<longrightarrow> decode_reply chat_codec ''getFile'' (cd_file chat_codec) rs = Inr p \<longrightarrow> p = [])"
    if "chat_do (api_request chat_bot ''getFile'' form_type ([], Eof)) s = (r, k, s')" for s r k s'
    using that by (auto simp: chat_do_def chat_requests chat_served_def Let_def string_of_def split: if_splits)
  have down: "chat_held s' = chat_held s \<and> (\<forall>rs d d'. r = Inr rs \<longrightarrow> hp_status rs = 200 \<longrightarrow> hp_body rs = (d, Eof) \<longrightarrow> chat_served s p = Some d' \<longrightarrow> d = d')"
    if "chat_do (file_request chat_bot p) s = (r, k, s')" for p s r k s'
    using that by (auto simp: chat_do_def chat_requests reply_def split: option.splits)
  have files: "file_law chat_bot chat_held chat_served"
    unfolding file_law_def chat_bot_simps net.simps using get empty down by blast
  have erase: "chat_held s' ref' = chat_held s ref'"
    if "chat_do (api_request chat_bot ''deleteMessage'' form_type (form_body (message_form chat_bot ref))) s = (r, k, s')"
      and "fst ref' \<noteq> fst ref" for ref ref' :: blobref and s r k s'
  proof -
    have "s' = erase_message (format_int (fst ref)) s"
      using that(1) unfolding message_body by (simp add: chat_do_def chat_requests bytes_of_def string_of_def comp_def drop_map [symmetric])
    moreover have "format_int (int (nat (fst ref'))) \<noteq> format_int (fst ref)" if "0 \<le> fst ref'"
      using format_int_inj [of "nat (fst ref')" "fst ref"] that \<open>fst ref' \<noteq> fst ref\<close> by auto
    ultimately show ?thesis by (simp add: chat_held_def erase_message_nth)
  qed
  have idle: "chat_held s' = chat_held s" if "chat_do (api_request chat_bot ''deleteMessage'' form_type ([], Eof)) s = (r, k, s')" for s r k s'
  proof -
    have "nat_digits n \<noteq> []" for n using nat_digits_ok by blast
    then have "erase_message [] s = s" by (intro nth_equalityI) (auto simp: erase_message_nth format_int_def)
    then show ?thesis using that by (simp add: chat_do_def chat_requests string_of_def)
  qed
  have "erase_law chat_bot chat_held" unfolding erase_law_def chat_bot_simps net.simps
  proof (intro conjI allI impI, goal_cases)
    case (1 ref s r k s' ref')
    from erase [OF 1] show ?case .
  next
    case (2 s r k s')
    show ?case using idle [OF 2] .
  qed
  moreover have "idle_law chat_bot chat_held" by (simp add: idle_law_def)
  ultimately show ?thesis using chat_send form files by (simp add: telegram_laws_def)
qed

text \<open>
  C32: the adapter meets the contract.  If Telegram and the transport behave as documented, the Bot API
  adapter satisfies the contract of the storage interface, on which the properties of the service
  rest: an upload that succeeds has read exactly the declared bytes and holds them under a new
  message, one that fails leaves at most one blob behind, a download that ends without an error
  yields the contents of its blob, and a deletion touches no other message, whatever fails and
  is tried again.
\<close>

theorem bot_meets_contract:
  assumes "telegram_laws b held served" "0 \<le> bt_max_retry b"
  shows "backend_laws (bot_backend b) held"
  using bot_put_law [OF assms] bot_get_law [OF assms] bot_delete_law [OF assms] by (simp add: backend_laws_def)

theorem bot_meets_contract_witness:
  "telegram_laws chat_bot chat_held chat_served \<and> backend_laws (bot_backend chat_bot) chat_held"
  using bot_meets_contract [OF chat_laws] chat_laws by simp

section \<open>Retries\<close>

text \<open>
  C34: the retry loop ends.  Every call of the Bot API returns, after at most one request more than
  the configured number of retries; an upload, whose stream cannot be sent again, makes at most
  one request.  Counting the requests does not change the result.
\<close>

theorem bot_calls_bounded:
  "case call_with_retry (metered b) m ctype can_retry zero dec body (s, 0, 0) of (r, body', s', calls, waits) \<Rightarrow>
     call_with_retry b m ctype can_retry zero dec body s = (r, body', s') \<and>
     calls \<le> (if can_retry then nat (bt_max_retry b + 1) else 1)"
proof -
  obtain r body' s' n w where run: "call_with_retry (metered b) m ctype can_retry zero dec body (s, 0, 0) = (r, body', s', n, w)"
    by (metis prod_cases5)
  note loop = metered_loop [OF run [unfolded call_with_retry_def] metered_once order.refl]
  have "n \<le> nat (bt_max_retry b + 1)" using loop by (cases "bt_max_retry b < 0") auto
  then show ?thesis using run loop by (simp add: call_with_retry_def)
qed

text \<open>A network that fails for a while: before a request is sent, or when it has been taken.\<close>

definition flaky_do :: "bool \<Rightarrow> hrequest \<Rightarrow> nat \<times> chat \<Rightarrow> (goerr + hresponse) \<times> nat \<times> nat \<times> chat" where
  "flaky_do taken rq s = (case s of
       (0, c) \<Rightarrow> (case chat_do rq c of (r, k, c') \<Rightarrow> (r, k, 0, c'))
     | (Suc n, c) \<Rightarrow> (if taken then (Inr ((reply [0])\<lparr>hp_status := 503\<rparr>), length (fst (hr_body rq)), n, c)
         else (Inl (New ''connection refused''), 0, n, c)))"

definition flaky_bot :: "bool \<Rightarrow> (nat \<times> chat) bot" where
  "flaky_bot taken = \<lparr>bt_token = ''t'', bt_chat = 7, bt_endpoint = [],
     bt_http = \<lparr>nt_do = flaky_do taken, nt_wait = (\<lambda>d s. (None, s)), nt_boundary = (\<lambda>s. (''b'', s))\<rparr>,
     bt_max_retry = 3, bt_codec = chat_codec\<rparr>"


abbreviation flaky_call :: "reader \<Rightarrow> nat \<times> chat \<Rightarrow> (goerr + string) \<times> nat \<times> nat \<times> chat" where
  "flaky_call \<equiv> call_once (flaky_bot False) ''getFile'' form_type (cd_file chat_codec)"

lemma flaky_calls:
  "flaky_call (form_body (file_form (0, ''f''))) (2, [Some [5]]) = (Inl (New ''connection refused''), 0, 1, [Some [5]])"
  "flaky_call (form_body (file_form (0, ''f''))) (1, [Some [5]]) = (Inl (New ''connection refused''), 0, 0, [Some [5]])"
  "flaky_call (form_body (file_form (0, ''f''))) (0, [Some [5]]) = (Inr ''f'', 9, 0, [Some [5]])"
  "nt_wait (bt_http (flaky_bot t)) d s = (None, s)" "is_retryable (New ''connection refused'')" "bt_max_retry (flaky_bot t) = 3"
  by (code_simp | simp add: flaky_bot_def)+


text \<open>
  C36: a retry sends an empty form.  When the service takes the form and answers the first attempt of
  \<^verbatim>\<open>Exists\<close> with a failure worth trying again, the second attempt has no form left to send; if
  that is refused as a wrong file id, \<^verbatim>\<open>Exists\<close> reports that the file is gone, whatever the
  service holds.
\<close>

theorem exists_forgets_the_file:
  assumes "snd ref \<noteq> []" "1 \<le> bt_max_retry b"
    and "call_once b ''getFile'' form_type (cd_file (bt_codec b)) (form_body (file_form ref)) s = (Inl e, k, s1)"
    and "is_retryable e" "length (fst (form_body (file_form ref))) \<le> k"
    and "nt_wait (bt_http b) (retry_delay 1 (Some e)) s1 = (None, s2)"
    and "call_once b ''getFile'' form_type (cd_file (bt_codec b)) ([], Eof) s2 = (Inl (APIErr m 400 d r), k', s3)"
    and "contains_str (to_lower d) ''not found'' \<or> contains_str (to_lower d) ''invalid'' \<or> contains_str (to_lower d) ''wrong''"
  shows "bot_exists b ref s = (Inr False, s3)"
proof -
  let ?once = "call_once b ''getFile'' form_type (cd_file (bt_codec b))"
  have taken: "after_taken k (form_body (file_form ref)) = ([], Eof)" using assms(5) by (simp add: after_taken_def form_body_def)
  have final: "\<not> is_retryable (APIErr m 400 d r)" by (simp add: is_retryable_def)
  have "call_loop b ?once True [] 0 None (form_body (file_form ref)) s = call_loop b ?once True [] (0 + 1) (Some e) ([], Eof) s1"
    using assms(2-4) taken by (subst call_loop.simps) simp
  also have "\<dots> = (Inl (APIErr m 400 d r), after_taken k' ([], Eof), s3)"
    using assms(2,6,7) final by (subst call_loop.simps) simp
  finally have "call_form b ''getFile'' (file_form ref) [] (cd_file (bt_codec b)) s = (Inl (APIErr m 400 d r), s3)"
    by (simp add: call_form_def call_with_retry_def form_body_def)
  then show ?thesis using assms(1,8) by (auto simp: bot_exists_def ecatch_def gone_def eret_def)
qed

theorem exists_forgets_the_file_witness:
  "bot_exists (flaky_bot True) (0, ''f'') (1, [Some [5]]) = (Inr False, 0, [Some [5]]) \<and> chat_held [Some [5]] (0, ''f'') = Some [5]"
proof
  have once: "call_once (flaky_bot True) ''getFile'' form_type (cd_file (bt_codec (flaky_bot True))) (form_body (file_form (0, ''f''))) (1, [Some [5]]) =
      (Inl (APIErr ''getFile'' 503 ''Bad Request: not found'' 0), 9, 0, [Some [5]])"
    "call_once (flaky_bot True) ''getFile'' form_type (cd_file (bt_codec (flaky_bot True))) ([], Eof) (0, [Some [5]]) =
      (Inl (APIErr ''getFile'' 400 ''Bad Request: not found'' 0), 0, 0, [Some [5]])"
    "length (fst (form_body (file_form (0, ''f'')))) \<le> 9" "is_retryable (APIErr ''getFile'' 503 ''Bad Request: not found'' 0)"
    "contains_str (to_lower ''Bad Request: not found'') ''not found''"
    by code_simp+
  show "bot_exists (flaky_bot True) (0, ''f'') (1, [Some [5]]) = (Inr False, 0, [Some [5]])"
    by (rule exists_forgets_the_file [OF _ _ once(1,4,3) flaky_calls(4) once(2)]) (use once(5) in \<open>simp_all add: flaky_calls(6)\<close>)
  show "chat_held [Some [5]] (0, ''f'') = Some [5]" by code_simp
qed

end
