(* ===== verification/Config.thy ===== *)
theory Config
  imports Complex_Main Keys GoNumbers "HOL-Library.Log_Nat"
begin

text \<open>
  The configuration file: \<^verbatim>\<open>internal/config/config.go\<close>.  The TOML decoder is a parameter that
  yields the structure with zero values for what the file leaves out.  \<^verbatim>\<open>ParseSize\<close> computes in
  \<^verbatim>\<open>float64\<close>: a non-negative float is the rational it stands for, and every operation rounds to 53
  bits, ties to even.  The reduced precision below \<open>2 ^ -1022\<close> is left out, as the result is cut to
  an integer; digits beyond ASCII are an error either way.
\<close>

section \<open>Floating-point sizes\<close>

definition round_even :: "rat \<Rightarrow> int" where
  "round_even x = (let f = \<lfloor>x\<rfloor>; d = x - of_int f in
     if d < 1 / 2 then f else if d > 1 / 2 then f + 1 else if even f then f else f + 1)"

text \<open>The exponent \<open>e\<close> with \<open>2 ^ 52 \<le> x / 2 ^ e < 2 ^ 53\<close>.\<close>

definition float_exponent :: "rat \<Rightarrow> int" where
  "float_exponent x = (case quotient_of x of (a, b) \<Rightarrow>
     let e = int (floorlog 2 (nat a)) - int (floorlog 2 (nat b)) - 53
     in if x / 2 powi e \<ge> 2 ^ 53 then e + 1 else e)"

definition fround :: "rat \<Rightarrow> rat" where
  "fround x = (if x = 0 then 0 else of_int (round_even (x / 2 powi float_exponent x)) * 2 powi float_exponent x)"

text \<open>\<^verbatim>\<open>strconv.ParseFloat\<close> of a text of digits and dots.\<close>

definition parse_decimal :: "string \<Rightarrow> rat option" where
  "parse_decimal s = (case cut_at CHR ''.'' s of
       None \<Rightarrow> if s = [] then None else Some (of_int (digits_val s))
     | Some (a, b) \<Rightarrow> if a = [] \<and> b = [] \<or> CHR ''.'' \<in> set b then None
         else Some (of_int (digits_val (a @ b)) / 10 ^ length b))"

definition parse_float :: "string \<Rightarrow> goerr + rat" where
  "parse_float s = (case parse_decimal s of
       None \<Rightarrow> Inl (Wrap ''strconv.ParseFloat'' [New ''invalid syntax''])
     | Some x \<Rightarrow> if fround x \<ge> 2 ^ 1024 then Inl (Wrap ''strconv.ParseFloat'' [New ''value out of range'']) else Inr (fround x))"

definition size_unit :: "string \<Rightarrow> int option" where
  "size_unit u =
     (if u \<in> {[], ''b''} then Some 1
      else if u \<in> {''k'', ''kb''} then Some (10 ^ 3)
      else if u \<in> {''m'', ''mb''} then Some (10 ^ 6)
      else if u \<in> {''g'', ''gb''} then Some (10 ^ 9)
      else if u \<in> {''t'', ''tb''} then Some (10 ^ 12)
      else if u = ''kib'' then Some (2 ^ 10)
      else if u = ''mib'' then Some (2 ^ 20)
      else if u = ''gib'' then Some (2 ^ 30)
      else if u = ''tib'' then Some (2 ^ 40)
      else None)"

definition size_byte :: "char \<Rightarrow> bool" where
  "size_byte c \<longleftrightarrow> is_digit c \<or> c = CHR ''.''"

definition parse_size :: "string \<Rightarrow> goerr + int" where
  "parse_size s0 = (let s = trim_space s0 in
     if s = [] then Inl (New ''empty size'')
     else let num = trim_space (takeWhile size_byte s); u = trim_space (to_lower (dropWhile size_byte s)) in
       if num = [] then Inl (New (''size '' @ go_quote s @ '' has no numeric component''))
       else case parse_float num of
           Inl e \<Rightarrow> Inl (Wrap (''size '' @ go_quote s) [e])
         | Inr n \<Rightarrow>
             if n < 0 then Inl (New (''size '' @ go_quote s @ '' must be non-negative''))
             else case size_unit u of
                 None \<Rightarrow> Inl (New (''size '' @ go_quote s @ '' has unknown unit '' @ go_quote u))
               | Some k \<Rightarrow> (let out = fround (n * of_int k) in
                   if out > 2 ^ 62 then Inl (New (''size '' @ go_quote s @ '' overflows int64'')) else Inr \<lfloor>out\<rfloor>))"

section \<open>The configuration\<close>

record server_config = sc_listen :: string

record s3_config =
  s3_access_key :: string
  s3_secret_key :: string
  s3_region :: string

record telegram_config =
  tc_mode :: string
  tc_bot_token :: string
  tc_channel_id :: int
  tc_session_file :: string
  tc_api_id :: int
  tc_api_hash :: string
  tc_channel_access_hash :: int

record storage_config =
  st_cache_dir :: string
  st_cache_size :: string
  st_staging_dir :: string
  st_db_path :: string

record config =
  cf_server :: server_config
  cf_s3 :: s3_config
  cf_telegram :: telegram_config
  cf_storage :: storage_config
  cf_keys_file :: string
  cf_ui_enabled :: bool
  cf_ui_password :: string

definition or_default :: "string \<Rightarrow> string \<Rightarrow> string" where
  "or_default v d = (if v = [] then d else v)"

definition apply_defaults :: "config \<Rightarrow> config" where
  "apply_defaults c = (let sv = cf_server c; s3 = cf_s3 c; st = cf_storage c in
     c\<lparr>cf_server := sv\<lparr>sc_listen := or_default (sc_listen sv) '':9000''\<rparr>,
       cf_s3 := s3\<lparr>s3_region := or_default (s3_region s3) ''tg-1''\<rparr>,
       cf_storage := st\<lparr>
         st_cache_dir := or_default (st_cache_dir st) ''/var/lib/telang/cache'',
         st_staging_dir := or_default (st_staging_dir st) ''/var/lib/telang/staging'',
         st_db_path := or_default (st_db_path st) ''/var/lib/telang/telang.db'',
         st_cache_size := or_default (st_cache_size st) ''5GB''\<rparr>,
       cf_keys_file := or_default (cf_keys_file c) ''/etc/telang/keys.toml'',
       cf_ui_enabled := (if \<not> cf_ui_enabled c \<and> cf_ui_password c = [] then True else cf_ui_enabled c)\<rparr>)"

definition check_telegram :: "telegram_config \<Rightarrow> goerr option" where
  "check_telegram t =
     (if tc_mode t = ''bot'' then
        if tc_bot_token t = [] then Some (New ''config: telegram.bot_token required in bot mode'')
        else if tc_channel_id t = 0 then Some (New ''config: telegram.channel_id required in bot mode'')
        else None
      else if tc_mode t = ''mtproto'' then
        if tc_session_file t = [] then Some (New ''config: telegram.session_file required in mtproto mode'')
        else if tc_api_id t = 0 \<or> tc_api_hash t = [] then Some (New ''config: telegram.api_id and api_hash required in mtproto mode'')
        else if tc_channel_id t = 0 then Some (New ''config: telegram.channel_id required in mtproto mode'')
        else if tc_channel_access_hash t = 0
        then Some (New ''config: telegram.channel_access_hash required in mtproto mode (set during `telang init`)'')
        else None
      else if tc_mode t = [] then Some (New (''config: telegram.mode is required ('' @ go_quote ''bot'' @ '' or '' @ go_quote ''mtproto'' @ '')''))
      else Some (New (''config: telegram.mode '' @ go_quote (tc_mode t) @ '' is not supported'')))"

definition validate :: "config \<Rightarrow> goerr option" where
  "validate c =
     (if s3_access_key (cf_s3 c) = [] \<or> s3_secret_key (cf_s3 c) = []
      then Some (New ''config: s3.access_key and s3.secret_key are required'')
      else case check_telegram (cf_telegram c) of
          Some e \<Rightarrow> Some e
        | None \<Rightarrow> (case parse_size (st_cache_size (cf_storage c)) of
              Inl e \<Rightarrow> Some (Wrap ''config: storage.cache_size'' [e])
            | Inr n \<Rightarrow> None))"

definition load_config :: "(string \<Rightarrow> goerr + config) \<Rightarrow> string \<Rightarrow> goerr + config" where
  "load_config decode path = (case decode path of
       Inl e \<Rightarrow> Inl (Wrap (''config: read '' @ path) [e])
     | Inr c0 \<Rightarrow> (let c = apply_defaults c0 in case validate c of Some e \<Rightarrow> Inl e | None \<Rightarrow> Inr c))"

text \<open>\<^verbatim>\<open>LoadKeys\<close>: \<^verbatim>\<open>os.Stat\<close> yields the permission bits.\<close>

definition load_keys :: "(string \<Rightarrow> goerr + int) \<Rightarrow> (string \<Rightarrow> goerr + (string \<times> string) list) \<Rightarrow> string \<Rightarrow> goerr + (string \<times> string) list" where
  "load_keys stat decode path = (case stat path of
       Inl e \<Rightarrow> Inl (Wrap (''keys: stat '' @ path) [e])
     | Inr mode \<Rightarrow>
         if mode mod 64 \<noteq> 0 then Inl (New (''keys: '' @ path @ '' must be chmod 600''))
         else case decode path of Inl e \<Rightarrow> Inl (Wrap (''keys: read '' @ path) [e]) | Inr m \<Rightarrow> Inr m)"

section \<open>Lemmas\<close>

lemma round_even_int: "round_even (of_int k) = k"
  by (simp add: round_even_def)

lemma float_exponent_int:
  assumes "0 < k" "k < 2 ^ 53"
  shows "float_exponent (of_int k) \<le> 0"
proof -
  have "floorlog 2 (nat k) \<le> 53" using assms by (intro floorlog_leI) (simp_all add: nat_less_iff)
  moreover have "floorlog 2 1 = 1" by (simp add: floorlog_def)
  ultimately show ?thesis using assms by (simp add: float_exponent_def quotient_of_int Let_def)
qed

lemma fround_int:
  assumes "0 \<le> k" "k < 2 ^ 53"
  shows "fround (of_int k) = of_int k"
proof (cases "k = 0")
  case False
  then obtain n where e: "float_exponent (of_int k) = - int n" using float_exponent_int [of k] assms by (metis int_cases4 nonpos_int_cases order_le_less zero_le_imp_eq_int)
  have "of_int k / 2 powi (- int n) = (of_int (k * 2 ^ n) :: rat)" by (simp add: power_int_minus divide_inverse)
  then show ?thesis using False unfolding fround_def e
    by (simp only: round_even_int) (simp add: power_int_minus)
qed (simp add: fround_def)

end
