(* ===== verification/ConfigClaims.thy ===== *)
theory ConfigClaims
  imports Config
begin

text \<open>
  Properties of the configuration: what \<^verbatim>\<open>Load\<close> accepts and what \<^verbatim>\<open>ParseSize\<close> computes.
\<close>

section \<open>Sizes\<close>

lemma fround_nonneg: "0 \<le> x \<Longrightarrow> 0 \<le> fround x"
proof -
  assume "0 \<le> x"
  then have "0 \<le> x / 2 powi float_exponent x" by simp
  then have "0 \<le> \<lfloor>x / 2 powi float_exponent x\<rfloor>" by simp
  then have "0 \<le> round_even (x / 2 powi float_exponent x)" by (auto simp: round_even_def Let_def)
  then show ?thesis by (simp add: fround_def)
qed

lemma size_unit_pos: "size_unit u = Some k \<Longrightarrow> 0 < k"
  by (auto simp: size_unit_def split: if_splits)

lemma parse_size_range:
  assumes "parse_size s = Inr v"
  shows "0 \<le> v \<and> v \<le> 2 ^ 62"
proof -
  obtain n u k where n: "\<not> n < 0" "size_unit u = Some k" "\<not> fround (n * of_int k) > 2 ^ 62" "v = \<lfloor>fround (n * of_int k)\<rfloor>"
    using assms by (auto simp: parse_size_def Let_def split: if_splits sum.splits option.splits)
  have "0 \<le> fround (n * of_int k)" using n(1) size_unit_pos [OF n(2)] by (intro fround_nonneg mult_nonneg_nonneg) simp_all
  moreover have "fround (n * of_int k) \<le> of_int (2 ^ 62)" using n(3) by simp
  ultimately show ?thesis using n(4) by (simp add: floor_le_iff)
qed

lemma trim_space_id: "s = [] \<or> \<not> is_space (hd s) \<and> \<not> is_space (last s) \<Longrightarrow> trim_space s = s"
proof -
  assume a: "s = [] \<or> \<not> is_space (hd s) \<and> \<not> is_space (last s)"
  then have "dropWhile is_space s = s" "dropWhile is_space (rev s) = rev s" by (auto simp: dropWhile_eq_self_iff hd_rev)
  then show ?thesis by (simp add: trim_space_def)
qed

lemma trim_space_left: "list_all is_space sp \<Longrightarrow> trim_space (sp @ s) = trim_space s"
  by (induction sp) (auto simp: trim_space_def)

lemma trim_space_right: "list_all is_space sp \<Longrightarrow> trim_space (s @ sp) = trim_space s"
proof (induction sp arbitrary: s rule: rev_induct)
  case (snoc x xs)
  have "is_space x" using snoc.prems by simp
  then have "trim_space ((s @ xs) @ [x]) = trim_space (s @ xs)"
  proof (cases "\<forall>y\<in>set (s @ xs). is_space y")
    case True
    then have "dropWhile is_space ((s @ xs) @ [x]) = []" "dropWhile is_space (s @ xs) = []"
      using \<open>is_space x\<close> unfolding dropWhile_eq_Nil_conv by auto
    then show ?thesis by (simp only: trim_space_def)
  next
    case False
    then have "dropWhile is_space ((s @ xs) @ [x]) = dropWhile is_space (s @ xs) @ [x]" by (auto simp: dropWhile_append)
    then show ?thesis using \<open>is_space x\<close> by (simp add: trim_space_def del: append_assoc)
  qed
  then show ?case using snoc by simp
qed simp

lemma unit_letters:
  assumes "size_unit (to_lower u) = Some k" "c \<in> set u"
  shows "\<not> is_space c \<and> \<not> size_byte c"
proof -
  have "set (to_lower u) \<subseteq> set ''bkmgti''" using assms(1) by (auto simp: size_unit_def split: if_splits)
  then have "char_lower c \<in> set ''bkmgti''" using assms(2) by (auto simp: to_lower_def)
  then show ?thesis by (auto simp: char_lower_def is_space_def size_byte_def is_digit_def split: if_splits)
qed

lemma format_int_digits: "0 \<le> n \<Longrightarrow> format_int n \<noteq> [] \<and> list_all is_digit (format_int n) \<and> digits_val (format_int n) = n"
  using nat_digits_ok [of "nat n"] digits_val_nat [of "nat n"] by (simp add: format_int_def)

lemma digit_not_space: "is_digit c \<Longrightarrow> \<not> is_space c \<and> size_byte c \<and> c \<noteq> CHR ''.''"
  by (auto simp: is_digit_def is_space_def size_byte_def)

lemma space_not_size: "is_space c \<Longrightarrow> \<not> size_byte c \<and> is_space (char_lower c)"
  unfolding is_space_def by (elim insertE emptyE) (simp_all add: size_byte_def is_digit_def char_lower_def)

lemma parse_float_int: "0 \<le> n \<Longrightarrow> n < 2 ^ 53 \<Longrightarrow> parse_float (format_int n) = Inr (of_int n)"
proof -
  assume n: "0 \<le> n" "n < 2 ^ 53"
  note d = format_int_digits [OF n(1)]
  have "CHR ''.'' \<notin> set (format_int n)" using d digit_not_space by (auto simp: list_all_iff)
  then have "parse_decimal (format_int n) = Some (of_int n)" using d cut_at_None [THEN iffD2] by (simp add: parse_decimal_def)
  moreover have "(of_int n :: rat) < of_int (2 ^ 1024)" using n(2) by (simp only: of_int_less_iff) simp
  ultimately show ?thesis using fround_int [OF n] by (simp add: parse_float_def)
qed

text \<open>The text of a size after its number: \<open>sp\<close> blanks before the unit \<open>u\<close>.\<close>

definition unit_text :: "string \<Rightarrow> string \<Rightarrow> string" where
  "unit_text sp u = (if u = [] then [] else sp @ u)"

lemma trim_size_text:
  assumes "size_unit (to_lower u) = Some k" "0 \<le> n" "list_all is_space left" "list_all is_space sp" "list_all is_space right"
  shows "trim_space (left @ format_int n @ sp @ u @ right) = format_int n @ unit_text sp u"
proof -
  note d = format_int_digits [OF assms(2)]
  have h: "\<not> is_space (hd (format_int n @ x))" for x using d digit_not_space by (cases "format_int n") auto
  have l: "\<not> is_space (last (format_int n))" using d digit_not_space by (metis last_in_set list_all_iff)
  show ?thesis
  proof (cases "u = []")
    case True
    have "trim_space (left @ format_int n @ sp @ u @ right) = trim_space (format_int n @ (sp @ right))"
      using trim_space_left [OF assms(3)] True by simp
    also have "\<dots> = trim_space (format_int n)" by (rule trim_space_right) (use assms(4,5) in simp)
    finally show ?thesis using trim_space_id [of "format_int n"] h [of "[]"] l True by (simp add: unit_text_def)
  next
    case False
    have "trim_space (left @ format_int n @ sp @ u @ right) = trim_space ((format_int n @ sp @ u) @ right)"
      using trim_space_left [OF assms(3)] by simp
    also have "\<dots> = trim_space (format_int n @ sp @ u)" by (rule trim_space_right [OF assms(5)])
    also have "\<dots> = format_int n @ sp @ u"
      by (rule trim_space_id) (use h False unit_letters [OF assms(1), of "last u"] in simp)
    finally show ?thesis using False by (simp add: unit_text_def)
  qed
qed

lemma split_size_text:
  assumes "size_unit (to_lower u) = Some k" "0 \<le> n" "list_all is_space sp"
  shows "takeWhile size_byte (format_int n @ unit_text sp u) = format_int n"
    "dropWhile size_byte (format_int n @ unit_text sp u) = unit_text sp u"
proof -
  have "\<not> size_byte c" if "c \<in> set (unit_text sp u)" for c
  proof -
    have "c \<in> set sp \<or> c \<in> set u" using that by (auto simp: unit_text_def split: if_splits)
    then show ?thesis using unit_letters [OF assms(1)] assms(3) space_not_size by (auto simp: list_all_iff)
  qed
  then have "takeWhile size_byte (unit_text sp u) = []" "dropWhile size_byte (unit_text sp u) = unit_text sp u"
    by (cases "unit_text sp u"; simp)+
  moreover have "\<forall>c\<in>set (format_int n). size_byte c" using format_int_digits [OF assms(2)] digit_not_space by (simp add: list_all_iff)
  ultimately show "takeWhile size_byte (format_int n @ unit_text sp u) = format_int n"
    "dropWhile size_byte (format_int n @ unit_text sp u) = unit_text sp u"
    by (simp_all add: takeWhile_append2 dropWhile_append2)
qed

lemma trim_unit_text:
  assumes "size_unit (to_lower u) = Some k" "list_all is_space sp"
  shows "trim_space (to_lower (unit_text sp u)) = to_lower u"
proof (cases "u = []")
  case False
  have "list_all is_space (to_lower sp)" using assms(2) space_not_size by (auto simp: to_lower_def list_all_iff)
  then have "trim_space (to_lower (unit_text sp u)) = trim_space (to_lower u)" using False trim_space_left by (simp add: unit_text_def to_lower_def)
  moreover have "\<not> is_space c" if "c \<in> set (to_lower u)" for c
  proof -
    have "set (to_lower u) \<subseteq> set ''bkmgti''" using assms(1) by (auto simp: size_unit_def split: if_splits)
    then show ?thesis using that by (auto simp: is_space_def)
  qed
  then have "trim_space (to_lower u) = to_lower u"
    by (intro trim_space_id) (metis hd_in_set last_in_set)
  ultimately show ?thesis by simp
qed (simp add: unit_text_def to_lower_def trim_space_def)

lemma parse_size_text:
  assumes "size_unit (to_lower u) = Some k" "0 \<le> n" "n * k < 2 ^ 53"
    and "list_all is_space left" "list_all is_space sp" "list_all is_space right"
  shows "parse_size (left @ format_int n @ sp @ u @ right) = Inr (n * k)"
proof -
  have k: "0 < k" by (rule size_unit_pos [OF assms(1)])
  then have "n * 1 \<le> n * k" using assms(2) by (intro mult_left_mono) simp_all
  then have n: "n < 2 ^ 53" using assms(3) by simp
  note d = format_int_digits [OF assms(2)]
  have t: "trim_space (format_int n) = format_int n"
    using d digit_not_space by (intro trim_space_id) (metis hd_in_set last_in_set list_all_iff)
  have "fround (of_int (n * k)) = of_int (n * k)" by (rule fround_int) (use assms(2,3) k in simp_all)
  moreover have "\<not> of_int (n * k) > (2 ^ 62 :: rat)"
  proof -
    have "of_int (n * k) \<le> (of_int (2 ^ 62) :: rat)" using assms(3) by (simp only: of_int_le_iff) simp
    then show ?thesis by simp
  qed
  ultimately show ?thesis
    unfolding parse_size_def trim_size_text [OF assms(1,2,4,5,6)] Let_def split_size_text [OF assms(1,2,5)] t trim_unit_text [OF assms(1,5)]
    using d parse_float_int [OF assms(2) n] assms(1,2) by (simp del: of_int_mult add: of_int_mult [symmetric])
qed



section \<open>Loading\<close>

text \<open>What a loaded configuration is.\<close>

definition config_ok :: "config \<Rightarrow> bool" where
  "config_ok c \<longleftrightarrow> s3_access_key (cf_s3 c) \<noteq> [] \<and> s3_secret_key (cf_s3 c) \<noteq> [] \<and> s3_region (cf_s3 c) \<noteq> [] \<and>
     (let t = cf_telegram c in tc_channel_id t \<noteq> 0 \<and>
        (tc_mode t = ''bot'' \<and> tc_bot_token t \<noteq> [] \<or>
         tc_mode t = ''mtproto'' \<and> tc_session_file t \<noteq> [] \<and> tc_api_id t \<noteq> 0 \<and> tc_api_hash t \<noteq> [] \<and> tc_channel_access_hash t \<noteq> 0)) \<and>
     (\<exists>n. parse_size (st_cache_size (cf_storage c)) = Inr n \<and> 0 \<le> n \<and> n \<le> 2 ^ 62) \<and>
     sc_listen (cf_server c) \<noteq> [] \<and> st_cache_dir (cf_storage c) \<noteq> [] \<and> st_staging_dir (cf_storage c) \<noteq> [] \<and>
     st_db_path (cf_storage c) \<noteq> [] \<and> cf_keys_file c \<noteq> [] \<and> (cf_ui_enabled c \<or> cf_ui_password c \<noteq> [])"

lemma or_default_nonempty [simp]: "d \<noteq> [] \<Longrightarrow> or_default v d \<noteq> []"
  by (simp add: or_default_def)

lemma defaults_idempotent: "apply_defaults (apply_defaults c) = apply_defaults c"
  by (simp add: apply_defaults_def or_default_def Let_def)

lemma check_telegram_None:
  "check_telegram t = None \<longleftrightarrow> tc_channel_id t \<noteq> 0 \<and>
     (tc_mode t = ''bot'' \<and> tc_bot_token t \<noteq> [] \<or>
      tc_mode t = ''mtproto'' \<and> tc_session_file t \<noteq> [] \<and> tc_api_id t \<noteq> 0 \<and> tc_api_hash t \<noteq> [] \<and> tc_channel_access_hash t \<noteq> 0)"
  by (auto simp: check_telegram_def)

lemma validate_None:
  "validate c = None \<longleftrightarrow> s3_access_key (cf_s3 c) \<noteq> [] \<and> s3_secret_key (cf_s3 c) \<noteq> [] \<and> check_telegram (cf_telegram c) = None \<and>
     (\<exists>n. parse_size (st_cache_size (cf_storage c)) = Inr n)"
  by (auto simp: validate_def split: option.splits sum.splits)

text \<open>
  C38: \<^verbatim>\<open>Load\<close> returns well-formed configurations only, and every one that can be completed to such:
  the result is the file's structure with the defaults filled in, it has credentials, a region,
  a supported Telegram mode with all that the mode needs, a cache size between 0 and \<open>2 ^ 62\<close>, and
  all paths; and the browser interface is enabled unless a password is set.
\<close>

theorem load_config_ok:
  "load_config decode path = Inr c \<longleftrightarrow> (\<exists>c0. decode path = Inr c0 \<and> c = apply_defaults c0 \<and> config_ok c)"
proof -
  have "validate (apply_defaults c0) = None \<longleftrightarrow> config_ok (apply_defaults c0)" for c0
  proof -
    let ?c = "apply_defaults c0"
    have "s3_region (cf_s3 ?c) \<noteq> []" "sc_listen (cf_server ?c) \<noteq> []" "st_cache_dir (cf_storage ?c) \<noteq> []"
      "st_staging_dir (cf_storage ?c) \<noteq> []" "st_db_path (cf_storage ?c) \<noteq> []" "cf_keys_file ?c \<noteq> []"
      "cf_ui_enabled ?c \<or> cf_ui_password ?c \<noteq> []"
      by (simp_all add: apply_defaults_def Let_def)
    then show ?thesis unfolding config_ok_def validate_None check_telegram_None Let_def using parse_size_range by blast
  qed
  note ok = this
  have "load_config decode path = Inr c \<longleftrightarrow> (\<exists>c0. decode path = Inr c0 \<and> c = apply_defaults c0 \<and> validate (apply_defaults c0) = None)"
    by (auto simp: load_config_def Let_def split: sum.splits option.splits)
  then show ?thesis unfolding ok by blast
qed

end
