(* ===== verification/Mtproto.thy ===== *)
theory Mtproto
  imports Storage GoNumbers
begin

text \<open>
  The adapter over a user session: \<^verbatim>\<open>internal/storage/mtproto/mtproto.go\<close>.  The client library is a
  parameter: the record \<open>client\<close> has the calls that the adapter makes, over the state \<open>'s\<close> of the
  session and of Telegram, and \<open>'f\<close> is the library's type of uploaded files.  Of the library's
  message types the datatypes have the constructors that the code distinguishes.
\<close>

section \<open>Messages\<close>

record tg_document =
  td_id :: int
  td_access :: int
  td_reference :: bytes

text \<open>What a message carries: a document, a document that is empty or missing, or something else.\<close>

datatype tg_media = MediaDocument "tg_document option" | OtherMedia
datatype tg_message = Message int tg_media | OtherMessage
datatype tg_messages = MessagesMessages "tg_message list" | MessagesSlice "tg_message list"
  | ChannelMessages "tg_message list" | OtherMessages
datatype tg_update = NewChannelMessage tg_message | OtherUpdate
datatype tg_updates = Updates "tg_update list" | UpdatesCombined "tg_update list" | UpdateShort tg_update | OtherUpdates

fun message_document :: "tg_message \<Rightarrow> (int \<times> tg_document) option" where
  "message_document (Message i (MediaDocument (Some d))) = Some (i, d)"
| "message_document m = None"

fun messages_of :: "tg_messages \<Rightarrow> tg_message list option" where
  "messages_of (MessagesMessages ms) = Some ms"
| "messages_of (MessagesSlice ms) = Some ms"
| "messages_of (ChannelMessages ms) = Some ms"
| "messages_of OtherMessages = None"

fun updates_of :: "tg_updates \<Rightarrow> tg_update list option" where
  "updates_of (Updates us) = Some us"
| "updates_of (UpdatesCombined us) = Some us"
| "updates_of (UpdateShort u) = Some [u]"
| "updates_of OtherUpdates = None"

fun update_document :: "tg_update \<Rightarrow> (int \<times> tg_document) option" where
  "update_document (NewChannelMessage m) = message_document m"
| "update_document OtherUpdate = None"

text \<open>\<^verbatim>\<open>extractDocumentMessage\<close>: the message id and the document id.\<close>

definition extract_document_message :: "tg_updates \<Rightarrow> (int \<times> int) option" where
  "extract_document_message u = (case updates_of u of
       None \<Rightarrow> None
     | Some us \<Rightarrow> map_option (\<lambda>(i, d). (i, td_id d)) (first_some update_document us))"

section \<open>The client library\<close>

text \<open>A channel is its id and access hash.\<close>

type_synonym channel = "int \<times> int"

record ('s, 'f) client =
  cl_start :: "'s \<Rightarrow> goerr option \<times> 's"   \<comment> \<open>\<^verbatim>\<open>Run\<close> up to its callback, or the error it stops with before\<close>
  cl_status :: "('s, bool) step"
  cl_upload :: "string \<Rightarrow> int \<Rightarrow> encrypter \<Rightarrow> 's \<Rightarrow> (goerr + 'f) \<times> encrypter \<times> 's"
  cl_random :: "('s, bytes) step"   \<comment> \<open>\<^verbatim>\<open>rand.Read\<close> of 8 bytes\<close>
  cl_send :: "channel \<Rightarrow> 'f \<Rightarrow> string \<Rightarrow> int \<Rightarrow> ('s, tg_updates) step"
  cl_get :: "channel \<Rightarrow> int \<Rightarrow> ('s, tg_messages) step"
  cl_delete :: "channel \<Rightarrow> int \<Rightarrow> ('s, unit) step"
  cl_stream :: "tg_document \<Rightarrow> 's \<Rightarrow> reader \<times> 's"

section \<open>The session\<close>

record mt_options =
  mo_api_id :: int
  mo_api_hash :: string
  mo_session_file :: string
  mo_channel_id :: int
  mo_access_hash :: int

text \<open>\<open>mt_ready\<close>: the callback has set \<^verbatim>\<open>api\<close>, \<^verbatim>\<open>up\<close>, \<^verbatim>\<open>dl\<close>, \<^verbatim>\<open>channel\<close> and \<^verbatim>\<open>peer\<close>, which are nil before.\<close>

record ('s, 'f) mtproto =
  mt_opts :: mt_options
  mt_client :: "('s, 'f) client"
  mt_ready :: bool

definition mt_max_object_size :: int where "mt_max_object_size = 2000 * 1024 * 1024"

definition mt_channel :: "('s, 'f) mtproto \<Rightarrow> channel" where
  "mt_channel b = (mo_channel_id (mt_opts b), mo_access_hash (mt_opts b))"

definition check_options :: "mt_options \<Rightarrow> goerr option" where
  "check_options o1 =
     (if mo_api_id o1 = 0 \<or> mo_api_hash o1 = [] then Some (New ''mtproto: api_id and api_hash are required'')
      else if mo_session_file o1 = [] then Some (New ''mtproto: session_file is required'')
      else if mo_channel_id o1 = 0 then Some (New ''mtproto: channel_id is required'')
      else None)"

text \<open>
  The callback of \<^verbatim>\<open>Run\<close> up to the point where it waits for the end: what it sends on \<^verbatim>\<open>ready\<close>.
  When \<^verbatim>\<open>Run\<close> stops before it calls back, nothing is sent, \<^verbatim>\<open>ready\<close> is closed and receiving from
  it yields nil.
\<close>

definition ErrNotAuthorized :: goerr where
  "ErrNotAuthorized = New (''mtproto: session is not authorized '' @ [CHR 0xE2, CHR 0x80, CHR 0x94] @ '' run `telang reauth`'')"

definition run_callback :: "('s, 'f) client \<Rightarrow> 's \<Rightarrow> goerr option \<times> 's" where
  "run_callback c s = (case cl_status c s of
       (Inl e, s') \<Rightarrow> (Some (Wrap ''mtproto: auth status'' [e]), s')
     | (Inr authorized, s') \<Rightarrow>
         (if authorized then None else Some (ErrNotAuthorized), s'))"

text \<open>\<open>parent\<close> is the error of the parent context when \<^verbatim>\<open>select\<close> takes that branch.\<close>

definition mt_open :: "('s, 'f) client \<Rightarrow> goerr option \<Rightarrow> mt_options \<Rightarrow> ('s, ('s, 'f) mtproto) step" where
  "mt_open c parent o1 s = (case check_options o1 of
       Some e \<Rightarrow> (Inl e, s)
     | None \<Rightarrow> (case cl_start c s of
           (stopped, s1) \<Rightarrow>
             let (ready, s2) = (if stopped = None then run_callback c s1 else (None, s1)) in
             (case parent of
                Some e \<Rightarrow> (Inl e, s2)
              | None \<Rightarrow> (case ready of
                    Some e \<Rightarrow> (Inl e, s2)
                  | None \<Rightarrow> (Inr \<lparr>mt_opts = o1, mt_client = c, mt_ready = (stopped = None)\<rparr>, s2)))))"

text \<open>\<^verbatim>\<open>Close\<close>: \<open>ended\<close> is what \<^verbatim>\<open>Run\<close> has returned.\<close>

definition ErrCanceled :: goerr where "ErrCanceled = New ''context canceled''"

definition mt_close :: "goerr option \<Rightarrow> goerr option" where
  "mt_close ended = (case ended of None \<Rightarrow> None | Some e \<Rightarrow> if errors_is e ErrCanceled then None else Some e)"

section \<open>Operations\<close>

definition nil_deref :: goerr where
  "nil_deref = Panic ''runtime error: invalid memory address or nil pointer dereference''"

definition random_id :: "bytes \<Rightarrow> int" where
  "random_id bs = i64 (int (uint_be bs))"

definition mt_send :: "('s, 'f) mtproto \<Rightarrow> string \<Rightarrow> 'f \<Rightarrow> ('s, blobref) step" where
  "mt_send b name f =
     ebind (cl_random (mt_client b)) (\<lambda>rnd.
     ecatch (cl_send (mt_client b) (mt_channel b) f name (random_id rnd)) (\<lambda>e. efail (Wrap ''mtproto: send media'' [e])) (\<lambda>u.
       case extract_document_message u of
         None \<Rightarrow> efail (New ''mtproto: response did not contain a document message'')
       | Some (i, d) \<Rightarrow> eret (i, format_int d)))"

definition mt_put :: "('s, 'f) mtproto \<Rightarrow> string \<Rightarrow> int \<Rightarrow> encrypter \<Rightarrow> 's \<Rightarrow> (goerr + blobref) \<times> encrypter \<times> 's" where
  "mt_put b name sz e s =
     (if sz > mt_max_object_size then (Inl ErrTooLarge, e, s)
      else if \<not> mt_ready b then (Inl nil_deref, e, s)
      else let nm = (if name = [] then ''blob'' else name) in
        (case cl_upload (mt_client b) nm sz e s of
           (Inl err, e', s1) \<Rightarrow> (Inl (Wrap ''mtproto: upload'' [err]), e', s1)
         | (Inr f, e', s1) \<Rightarrow> (case mt_send b nm f s1 of (r, s2) \<Rightarrow> (r, e', s2))))"

definition resolve_document :: "('s, 'f) mtproto \<Rightarrow> int \<Rightarrow> ('s, tg_document) step" where
  "resolve_document b i =
     (if \<not> mt_ready b then efail nil_deref
      else ecatch (cl_get (mt_client b) (mt_channel b) i) (\<lambda>e. efail (Wrap ''mtproto: get message'' [e])) (\<lambda>ms.
        case messages_of ms of
          None \<Rightarrow> efail (New ''mtproto: unexpected messages.getMessages response'')
        | Some l \<Rightarrow> (case first_some message_document l of
              None \<Rightarrow> efail ErrBlobNotFound
            | Some (j, d) \<Rightarrow> eret d)))"

definition mt_get :: "('s, 'f) mtproto \<Rightarrow> blobref \<Rightarrow> ('s, reader) step" where
  "mt_get b ref = ebind (resolve_document b (fst ref)) (\<lambda>d s. case cl_stream (mt_client b) d s of (r, s') \<Rightarrow> (Inr r, s'))"

definition mt_exists :: "('s, 'f) mtproto \<Rightarrow> blobref \<Rightarrow> ('s, bool) step" where
  "mt_exists b ref = ecatch (resolve_document b (fst ref))
     (\<lambda>e. if errors_is e ErrBlobNotFound then eret False else efail e) (\<lambda>_. eret True)"

definition mt_delete :: "('s, 'f) mtproto \<Rightarrow> blobref \<Rightarrow> ('s, unit) step" where
  "mt_delete b ref =
     (if \<not> mt_ready b then efail nil_deref
      else ecatch (cl_delete (mt_client b) (mt_channel b) (fst ref))
        (\<lambda>e. if contains_str (err_text e) ''MESSAGE_ID_INVALID'' then eret () else efail e) eret)"

definition mt_backend :: "('s, 'f) mtproto \<Rightarrow> 's backend" where
  "mt_backend b = \<lparr>be_max = mt_max_object_size, be_put = mt_put b, be_get = mt_get b,
     be_delete = (\<lambda>ref s. case mt_delete b ref s of (Inl e, s') \<Rightarrow> (Some e, s') | (Inr _, s') \<Rightarrow> (None, s')),
     be_exists = mt_exists b\<rparr>"

end
