(* ===== verification/MtprotoClaims.thy ===== *)
theory MtprotoClaims
  imports Mtproto BotProperties
begin

text \<open>
  Properties of the adapter over a user session: with a client library and a Telegram as described
  by \<open>session_laws\<close> it meets the contract of the storage interface; and what \<^verbatim>\<open>Open\<close> returns when the
  session never starts.  The witnesses run on a library in memory.
\<close>

section \<open>Assumptions\<close>

text \<open>\<open>held\<close> are the documents of the channel, \<open>uploaded\<close> the files that are uploaded but not sent yet,
  \<open>content\<close> what a document of a message leads to.\<close>

record ('s, 'f) view =
  vw_held :: "'s \<Rightarrow> blobref \<Rightarrow> bytes option"
  vw_uploaded :: "'s \<Rightarrow> 'f \<Rightarrow> bytes option"
  vw_content :: "'s \<Rightarrow> tg_document \<Rightarrow> bytes option"

text \<open>The uploader reads the encrypter and takes as many bytes as it is told.\<close>

definition upload_call_law :: "('s, 'f) client \<Rightarrow> ('s, 'f) view \<Rightarrow> bool" where
  "upload_call_law c v \<longleftrightarrow> (\<forall>name sz e s r e' s'. enc_ok e \<longrightarrow> cl_upload c name sz e s = (r, e', s') \<longrightarrow>
     (\<exists>ns. (\<forall>n\<in>set ns. 0 < n) \<and> e' = enc_after ns e) \<and> vw_held v s' = vw_held v s \<and>
     (\<forall>f. r = Inr f \<longrightarrow> sz \<le> int (length (fst (enc_pend e))) \<and> fst (enc_pend e') = drop (nat sz) (fst (enc_pend e)) \<and>
        vw_uploaded v s' f = Some (take (nat sz) (fst (enc_pend e)))))"

text \<open>Sending a file adds at most one document; when the answer names its message, that is new and
  holds the file.  Drawing random bytes touches nothing.\<close>

definition send_call_law :: "('s, 'f) client \<Rightarrow> ('s, 'f) view \<Rightarrow> channel \<Rightarrow> bool" where
  "send_call_law c v ch \<longleftrightarrow>
     (\<forall>s r s'. cl_random c s = (r, s') \<longrightarrow> vw_held v s' = vw_held v s \<and> vw_uploaded v s' = vw_uploaded v s) \<and>
     (\<forall>f name i s r s'. cl_send c ch f name i s = (r, s') \<longrightarrow>
        (\<exists>ref d. vw_held v s' = vw_held v s \<or> vw_held v s ref = None \<and> vw_held v s' = (vw_held v s)(ref \<mapsto> d)) \<and>
        (\<forall>u m td d. r = Inr u \<longrightarrow> extract_document_message u = Some (m, td) \<longrightarrow> vw_uploaded v s f = Some d \<longrightarrow>
           no_message (vw_held v s) m \<and> vw_held v s' = (vw_held v s)((m, format_int td) \<mapsto> d)))"

text \<open>Asked for a message, the service answers with that message; its document leads to the contents,
  which a download that does not break off yields.\<close>

definition get_call_law :: "('s, 'f) client \<Rightarrow> ('s, 'f) view \<Rightarrow> channel \<Rightarrow> bool" where
  "get_call_law c v ch \<longleftrightarrow>
     (\<forall>i s r s'. cl_get c ch i s = (r, s') \<longrightarrow> vw_held v s' = vw_held v s \<and>
        (\<forall>ms l j td f d. r = Inr ms \<longrightarrow> messages_of ms = Some l \<longrightarrow> first_some message_document l = Some (j, td) \<longrightarrow>
           vw_held v s (i, f) = Some d \<longrightarrow> vw_content v s' td = Some d)) \<and>
     (\<forall>td s d t s'. cl_stream c td s = ((d, t), s') \<longrightarrow> vw_held v s' = vw_held v s \<and>
        (\<forall>d'. t = Eof \<longrightarrow> vw_content v s td = Some d' \<longrightarrow> d = d'))"

definition delete_call_law :: "('s, 'f) client \<Rightarrow> ('s, 'f) view \<Rightarrow> channel \<Rightarrow> bool" where
  "delete_call_law c v ch \<longleftrightarrow> (\<forall>i s r s'. cl_delete c ch i s = (r, s') \<longrightarrow>
     (\<forall>ref. fst ref \<noteq> i \<longrightarrow> vw_held v s' ref = vw_held v s ref))"

definition session_laws :: "('s, 'f) mtproto \<Rightarrow> ('s, 'f) view \<Rightarrow> bool" where
  "session_laws b v \<longleftrightarrow> upload_call_law (mt_client b) v \<and> send_call_law (mt_client b) v (mt_channel b) \<and>
     get_call_law (mt_client b) v (mt_channel b) \<and> delete_call_law (mt_client b) v (mt_channel b)"

section \<open>The contract\<close>

lemma mt_send_spec:
  assumes "send_call_law (mt_client b) v (mt_channel b)" "mt_send b name f s = (r, s')"
  shows "(case r of
      Inl e \<Rightarrow> \<exists>ref d. vw_held v s' = vw_held v s \<or> vw_held v s ref = None \<and> vw_held v s' = (vw_held v s)(ref \<mapsto> d)
    | Inr ref \<Rightarrow> \<forall>d. vw_uploaded v s f = Some d \<longrightarrow> no_message (vw_held v s) (fst ref) \<and> vw_held v s' = (vw_held v s)(ref \<mapsto> d))"
proof -
  obtain a s1 where a: "cl_random (mt_client b) s = (a, s1)" by fastforce
  have s1: "vw_held v s1 = vw_held v s" "vw_uploaded v s1 = vw_uploaded v s" using assms(1) a unfolding send_call_law_def by blast+
  show ?thesis
  proof (cases a)
    case (Inl e)
    then show ?thesis using assms(2) a s1 by (auto simp: mt_send_def ebind_def)
  next
    case (Inr rnd)
    obtain u s2 where u: "cl_send (mt_client b) (mt_channel b) f name (random_id rnd) s1 = (u, s2)" by fastforce
    have sent: "\<exists>ref d. vw_held v s2 = vw_held v s1 \<or> vw_held v s1 ref = None \<and> vw_held v s2 = (vw_held v s1)(ref \<mapsto> d)"
      "\<And>x m td d. u = Inr x \<Longrightarrow> extract_document_message x = Some (m, td) \<Longrightarrow> vw_uploaded v s1 f = Some d \<Longrightarrow>
         no_message (vw_held v s1) m \<and> vw_held v s2 = (vw_held v s1)((m, format_int td) \<mapsto> d)"
      using assms(1) u unfolding send_call_law_def by blast+
    have "s' = s2" "r = (case u of Inl e \<Rightarrow> Inl (Wrap ''mtproto: send media'' [e])
        | Inr x \<Rightarrow> (case extract_document_message x of
             None \<Rightarrow> Inl (New ''mtproto: response did not contain a document message'') | Some (m, td) \<Rightarrow> Inr (m, format_int td)))"
      using assms(2) a Inr u by (auto simp: mt_send_def ebind_def ecatch_def eret_def efail_def split: sum.splits option.splits prod.splits)
    then show ?thesis using sent s1 by (auto split: sum.splits option.splits)
  qed
qed

lemma mt_put_law:
  assumes "session_laws b v"
  shows "put_law (mt_backend b) (vw_held v)"
  unfolding put_law_def
proof (intro allI impI)
  fix name sz e s r e' s'
  assume e: "enc_ok e" and "be_put (mt_backend b) name sz e s = (r, e', s')"
  then have p: "mt_put b name sz e s = (r, e', s')" by (simp add: mt_backend_def)
  let ?d = "fst (enc_pend e)" and ?h = "vw_held v"
  show "(\<exists>ns. (\<forall>n\<in>set ns. 0 < n) \<and> e' = enc_after ns e) \<and>
     (case r of
        Inl err \<Rightarrow> \<exists>ref d. ?h s' = ?h s \<or> ?h s ref = None \<and> ?h s' = (?h s)(ref \<mapsto> d)
      | Inr ref \<Rightarrow> no_message (?h s) (fst ref) \<and> sz \<le> int (length ?d) \<and>
          fst (enc_pend e') = drop (nat sz) ?d \<and> ?h s' = (?h s)(ref \<mapsto> take (nat sz) ?d))"
  proof (cases "sz > mt_max_object_size \<or> \<not> mt_ready b")
    case True
    then show ?thesis using p by (auto simp: mt_put_def intro: exI [of _ "[]"] split: if_splits)
  next
    case False
    define nm where "nm = (if name = [] then ''blob'' else name)"
    obtain a e1 s1 where u: "cl_upload (mt_client b) nm sz e s = (a, e1, s1)" by (metis prod_cases3)
    have up: "\<exists>ns. (\<forall>n\<in>set ns. 0 < n) \<and> e1 = enc_after ns e" "?h s1 = ?h s"
      "\<And>f. a = Inr f \<Longrightarrow> sz \<le> int (length ?d) \<and> fst (enc_pend e1) = drop (nat sz) ?d \<and> vw_uploaded v s1 f = Some (take (nat sz) ?d)"
      using assms e u unfolding session_laws_def upload_call_law_def by blast+
    show ?thesis
    proof (cases a)
      case (Inl x)
      then show ?thesis using p False u up by (auto simp: mt_put_def Let_def nm_def)
    next
      case (Inr f)
      obtain x s2 where m: "mt_send b nm f s1 = (x, s2)" by fastforce
      have "send_call_law (mt_client b) v (mt_channel b)" using assms by (simp add: session_laws_def)
      note sent = mt_send_spec [OF this m]
      have "r = x" "e' = e1" "s' = s2" using p False u Inr m by (auto simp: mt_put_def Let_def nm_def)
      then show ?thesis using sent up Inr by (auto split: sum.splits)
    qed
  qed
qed

lemma resolve_spec:
  assumes "get_call_law (mt_client b) v (mt_channel b)" "resolve_document b i s = (r, s')"
  shows "vw_held v s' = vw_held v s \<and> (\<forall>td f d. r = Inr td \<longrightarrow> vw_held v s (i, f) = Some d \<longrightarrow> vw_content v s' td = Some d)"
proof (cases "mt_ready b")
  case False
  then show ?thesis using assms(2) by (auto simp: resolve_document_def efail_def)
next
  case True
  obtain a s1 where a: "cl_get (mt_client b) (mt_channel b) i s = (a, s1)" by fastforce
  have g: "vw_held v s1 = vw_held v s"
    "\<And>ms l j td f d. a = Inr ms \<Longrightarrow> messages_of ms = Some l \<Longrightarrow> first_some message_document l = Some (j, td) \<Longrightarrow>
       vw_held v s (i, f) = Some d \<Longrightarrow> vw_content v s1 td = Some d"
    using assms(1) a unfolding get_call_law_def by blast+
  show ?thesis using assms(2) a True g
    by (auto simp: resolve_document_def ecatch_def eret_def efail_def split: sum.splits option.splits prod.splits)
qed

lemma mt_get_law:
  assumes "session_laws b v"
  shows "get_law (mt_backend b) (vw_held v)"
  unfolding get_law_def
proof (intro allI impI)
  fix ref s r s' assume "be_get (mt_backend b) ref s = (r, s')"
  then have g: "mt_get b ref s = (r, s')" by (simp add: mt_backend_def)
  obtain a s1 where a: "resolve_document b (fst ref) s = (a, s1)" by fastforce
  have law: "get_call_law (mt_client b) v (mt_channel b)" using assms by (simp add: session_laws_def)
  note res = resolve_spec [OF law a]
  show "vw_held v s' = vw_held v s \<and> (\<forall>d d'. r = Inr (d, Eof) \<longrightarrow> vw_held v s ref = Some d' \<longrightarrow> d = d')"
  proof (cases a)
    case (Inl e)
    then show ?thesis using g a res by (auto simp: mt_get_def ebind_def)
  next
    case (Inr td)
    obtain d t s2 where c: "cl_stream (mt_client b) td s1 = ((d, t), s2)" by (metis prod.collapse)
    have "vw_held v s2 = vw_held v s1 \<and> (\<forall>d'. t = Eof \<longrightarrow> vw_content v s1 td = Some d' \<longrightarrow> d = d')"
      using law c unfolding get_call_law_def by blast
    moreover have "r = Inr (d, t)" "s' = s2" using g a Inr c by (auto simp: mt_get_def ebind_def)
    moreover have "vw_content v s1 td = Some d'" if "vw_held v s ref = Some d'" for d' using res Inr that by (metis prod.collapse)
    ultimately show ?thesis using res by auto
  qed
qed

lemma mt_delete_law:
  assumes "session_laws b v"
  shows "delete_law (mt_backend b) (vw_held v)"
  unfolding delete_law_def
proof (intro allI impI)
  fix ref ref' :: blobref and s r s' assume "be_delete (mt_backend b) ref s = (r, s')" and ne: "fst ref' \<noteq> fst ref"
  then obtain a where d: "mt_delete b ref s = (a, s')" by (auto simp: mt_backend_def split: prod.splits sum.splits)
  obtain x s1 where x: "cl_delete (mt_client b) (mt_channel b) (fst ref) s = (x, s1)" by fastforce
  have "vw_held v s1 ref' = vw_held v s ref'" using assms x ne unfolding session_laws_def delete_call_law_def by blast
  moreover have "s' = s \<or> s' = s1" using d x
    by (auto simp: mt_delete_def ecatch_def eret_def efail_def split: sum.splits if_splits)
  ultimately show "vw_held v s' ref' = vw_held v s ref'" by auto
qed

section \<open>A library in memory\<close>

type_synonym mem_session = "bytes option list \<times> bytes list"

definition mem_document :: "int \<Rightarrow> tg_document" where
  "mem_document i = \<lparr>td_id = i, td_access = 0, td_reference = []\<rparr>"

definition at_index :: "int \<Rightarrow> bytes option list \<Rightarrow> bytes option" where
  "at_index i ms = (if 0 \<le> i \<and> nat i < length ms then ms ! nat i else None)"

definition mem_message :: "int \<Rightarrow> tg_message" where
  "mem_message i = Message i (MediaDocument (Some (mem_document i)))"

definition mem_client :: "(mem_session, nat) client" where
  "mem_client = \<lparr>cl_start = (\<lambda>s. (None, s)), cl_status = eret True,
     cl_upload = (\<lambda>name sz e (ms, us). let d = fst (enc_pend e) in
       if sz \<le> int (length d) then (Inr (length us), pump (nat sz) (nat sz) (nat sz) e, (ms, us @ [take (nat sz) d]))
       else (Inl IoUnexpectedEOF, e, (ms, us))),
     cl_random = eret (replicate 8 0),
     cl_send = (\<lambda>ch f name i (ms, us).
       if f < length us then (Inr (Updates [OtherUpdate, NewChannelMessage (mem_message (int (length ms)))]), (ms @ [Some (us ! f)], us))
       else (Inl (New ''FILE_PARTS_INVALID''), (ms, us))),
     cl_get = (\<lambda>ch i (ms, us). (Inr (ChannelMessages [if at_index i ms = None then OtherMessage else mem_message i]), (ms, us))),
     cl_delete = (\<lambda>ch i (ms, us). (Inr (), (if 0 \<le> i then ms[nat i := None] else ms, us))),
     cl_stream = (\<lambda>td (ms, us). (case at_index (td_id td) ms of Some d \<Rightarrow> (d, Eof) | None \<Rightarrow> ([], Fail IoUnexpectedEOF), (ms, us)))\<rparr>"

definition mem_view :: "(mem_session, nat) view" where
  "mem_view = \<lparr>vw_held = (\<lambda>(ms, us) (m, f). if f = format_int m then at_index m ms else None),
     vw_uploaded = (\<lambda>(ms, us) k. if k < length us then Some (us ! k) else None),
     vw_content = (\<lambda>(ms, us) td. at_index (td_id td) ms)\<rparr>"

definition mem_mtproto :: "(mem_session, nat) mtproto" where
  "mem_mtproto = \<lparr>mt_opts = \<lparr>mo_api_id = 1, mo_api_hash = ''h'', mo_session_file = ''s'', mo_channel_id = 2, mo_access_hash = 3\<rparr>,
     mt_client = mem_client, mt_ready = True\<rparr>"

lemma at_index_snoc: "at_index i (ms @ [x]) = (if i = int (length ms) then x else at_index i ms)"
  by (auto simp: at_index_def nth_append)

lemma mem_client_laws: "mt_client b = mem_client \<Longrightarrow> session_laws b mem_view"
proof -
  assume b: "mt_client b = mem_client"
  have "upload_call_law mem_client mem_view" unfolding upload_call_law_def
  proof (intro allI impI)
    fix name sz e s r e' s' assume e: "enc_ok e" and u: "cl_upload mem_client name sz e s = (r, e', s')"
    obtain ms us where s: "s = (ms, us)" by (cases s)
    show "(\<exists>ns. (\<forall>n\<in>set ns. 0 < n) \<and> e' = enc_after ns e) \<and> vw_held mem_view s' = vw_held mem_view s \<and>
     (\<forall>f. r = Inr f \<longrightarrow> sz \<le> int (length (fst (enc_pend e))) \<and> fst (enc_pend e') = drop (nat sz) (fst (enc_pend e)) \<and>
        vw_uploaded mem_view s' f = Some (take (nat sz) (fst (enc_pend e))))"
    proof (cases "sz \<le> int (length (fst (enc_pend e)))")
      case True
      then have "r = Inr (length us)" "e' = pump (nat sz) (nat sz) (nat sz) e" "s' = (ms, us @ [take (nat sz) (fst (enc_pend e))])"
        using u s by (simp_all add: mem_client_def Let_def)
      then show ?thesis using True s pump_spec [OF e, of "nat sz" "nat sz" "nat sz"] by (auto simp: mem_view_def)
    next
      case False
      then show ?thesis using u s by (auto simp: mem_client_def Let_def intro!: exI [of _ "[]"])
    qed
  qed
  moreover have "send_call_law mem_client mem_view ch" for ch
    unfolding send_call_law_def
  proof (intro conjI allI impI, goal_cases)
    case (3 f name i s r s')
    obtain ms us where s: "s = (ms, us)" by (cases s)
    have "vw_held mem_view (ms @ [Some d], us) = (vw_held mem_view (ms, us))((int (length ms), format_int (int (length ms))) \<mapsto> d)" for d
      by (auto simp: mem_view_def fun_eq_iff at_index_snoc)
    moreover have "vw_held mem_view (ms, us) (int (length ms), format_int (int (length ms))) = None" by (simp add: mem_view_def at_index_def)
    ultimately show ?case using 3 s by (auto simp: mem_client_def split: if_splits)
  next
    case (4 f name i s r s' u m td d)
    then show ?case by (cases s) (auto simp: mem_client_def mem_view_def mem_message_def mem_document_def no_message_def fun_eq_iff
      extract_document_message_def at_index_snoc at_index_def split: if_splits)
  next
    case (5 f name i s r s' u m td d)
    then show ?case by (cases s) (auto simp: mem_client_def mem_view_def mem_message_def mem_document_def fun_eq_iff
      extract_document_message_def at_index_snoc split: if_splits)
  qed (auto simp: mem_client_def eret_def)
  moreover have "get_call_law mem_client mem_view ch" for ch
    by (auto simp: get_call_law_def mem_client_def mem_view_def mem_message_def mem_document_def split: option.splits if_splits)
  moreover have "delete_call_law mem_client mem_view ch" for ch
    by (auto simp: delete_call_law_def mem_client_def mem_view_def at_index_def nth_list_update)
  ultimately show ?thesis using b by (simp add: session_laws_def)
qed

lemma mem_session_laws: "session_laws mem_mtproto mem_view"
  by (rule mem_client_laws) (simp add: mem_mtproto_def)



text \<open>
  C37: \<^verbatim>\<open>Open\<close> succeeds without a session.  When the client stops before it calls back (it cannot read
  its session file, or cannot connect), the channel \<^verbatim>\<open>ready\<close> is closed without a value, and \<^verbatim>\<open>Open\<close>
  returns an adapter and no error; every operation on it dereferences a nil pointer.
\<close>

theorem open_without_session:
  assumes "check_options o1 = None" "cl_start c s = (Some e, s1)"
  shows "\<exists>b. mt_open c None o1 s = (Inr b, s1) \<and>
    (\<forall>name sz enc t. sz \<le> mt_max_object_size \<longrightarrow> mt_put b name sz enc t = (Inl nil_deref, enc, t)) \<and>
    (\<forall>ref t. mt_get b ref t = (Inl nil_deref, t) \<and> mt_exists b ref t = (Inl nil_deref, t) \<and> mt_delete b ref t = (Inl nil_deref, t))"
proof -
  have "\<not> errors_is nil_deref ErrBlobNotFound" by (simp add: nil_deref_def ErrBlobNotFound_def)
  then show ?thesis using assms
    by (simp add: mt_open_def mt_put_def mt_get_def mt_exists_def mt_delete_def resolve_document_def ebind_def ecatch_def efail_def)
qed

theorem open_without_session_witness:
  "\<exists>b. mt_open (mem_client\<lparr>cl_start := (\<lambda>s. (Some (New ''load session''), s))\<rparr>) None (mt_opts mem_mtproto) ([], []) = (Inr b, ([], [])) \<and>
    mt_get b (0, []) ([], []) = (Inl nil_deref, ([], []))"
proof -
  let ?c = "mem_client\<lparr>cl_start := (\<lambda>s. (Some (New ''load session''), s))\<rparr>"
  have o1: "check_options (mt_opts mem_mtproto) = None" by code_simp
  have c: "cl_start ?c ([], []) = (Some (New ''load session''), ([], []))" by simp
  obtain b where b: "mt_open ?c None (mt_opts mem_mtproto) ([], []) = (Inr b, ([], []))"
    "\<forall>ref t. mt_get b ref t = (Inl nil_deref, t) \<and> mt_exists b ref t = (Inl nil_deref, t) \<and> mt_delete b ref t = (Inl nil_deref, t)"
    using open_without_session [OF o1 c] by (elim exE conjE) (rule that)
  have "mt_get b (0, []) ([], []) = (Inl nil_deref, ([], []))" by (rule b(2) [THEN spec, THEN spec, THEN conjunct1])
  then show ?thesis using b(1) by (intro exI [of _ b] conjI)
qed

end
