(* ===== verification/Daemon.thy ===== *)
theory Daemon
  imports Bot Mtproto Config Router
begin

text \<open>
  The command \<^verbatim>\<open>serve\<close> of \<^verbatim>\<open>cmd/telang/main.go\<close>: from the configuration to the handler of requests.
  What it calls outside the repository is the record \<open>host\<close>: the file system, SQLite, the two ways to
  Telegram over the state \<open>'h\<close>, the cache package and the libraries.  The arguments are parsed; what
  follows the start, listening until a signal, is not part of the model.
\<close>

section \<open>Paths\<close>

text \<open>\<^verbatim>\<open>filepath.Clean\<close>, \<^verbatim>\<open>filepath.Dir\<close> and \<^verbatim>\<open>filepath.Join\<close> of two elements.\<close>

fun clean_elems :: "bool \<Rightarrow> string list \<Rightarrow> string list \<Rightarrow> string list" where
  "clean_elems rooted st [] = rev st"
| "clean_elems rooted st (e # es) =
     (if e = [] \<or> e = ''.'' then clean_elems rooted st es
      else if e = ''..'' then
        (case st of
           [] \<Rightarrow> clean_elems rooted (if rooted then [] else [''..'']) es
         | t # ts \<Rightarrow> clean_elems rooted (if t = ''..'' then ''..'' # st else ts) es)
      else clean_elems rooted (e # st) es)"

definition clean_path :: "string \<Rightarrow> string" where
  "clean_path p = (let rooted = has_prefix p ''/''; t = join_with ''/'' (clean_elems rooted [] (split_on CHR ''/'' p)) in
     if rooted then ''/'' @ t else if t = [] then ''.'' else t)"

definition dir_path :: "string \<Rightarrow> string" where
  "dir_path p = clean_path (rev (dropWhile (\<lambda>c. c \<noteq> CHR ''/'') (rev p)))"

definition join_paths :: "string \<Rightarrow> string \<Rightarrow> string" where
  "join_paths a b = (if a \<noteq> [] then clean_path (a @ ''/'' @ b) else if b \<noteq> [] then clean_path b else [])"

section \<open>The host\<close>

record ('h, 'f) host =
  ho_config :: "string \<Rightarrow> goerr + config"   \<comment> \<open>\<^verbatim>\<open>toml.DecodeFile\<close>\<close>
  ho_mkdir :: "string \<Rightarrow> goerr option"
  ho_meta :: "string \<Rightarrow> goerr + store"   \<comment> \<open>\<^verbatim>\<open>metadata.Open\<close>\<close>
  ho_net :: "'h net"
  ho_json :: json_codec
  ho_client :: "('h, 'f) client"
  ho_done :: "goerr option"   \<comment> \<open>a signal before the session is ready\<close>
  ho_keys_toml :: "string \<Rightarrow> goerr + (string \<times> string) list"
  ho_keys_stat :: "goerr option"
  ho_disk :: disk
  ho_cache :: "string \<Rightarrow> int \<Rightarrow> goerr + 'h cache"   \<comment> \<open>\<^verbatim>\<open>cache.Open\<close>\<close>
  ho_digests :: digests
  ho_libs :: "'h service"   \<comment> \<open>AES-GCM, MD5, the clock and the names of temporary files\<close>
  ho_now :: int
  ho_world :: "'h world"   \<comment> \<open>the random source and the staging directory\<close>
  ho_forms :: forms
  ho_unmarshal :: "bytes \<Rightarrow> (int \<times> string) list option"

section \<open>The backend\<close>

datatype ('h, 'f) adapter = BotAdapter "'h bot" | SessionAdapter "('h, 'f) mtproto"

fun adapter_backend :: "('h, 'f) adapter \<Rightarrow> 'h backend" where
  "adapter_backend (BotAdapter b) = bot_backend b"
| "adapter_backend (SessionAdapter b) = mt_backend b"

definition build_backend :: "('h, 'f) host \<Rightarrow> config \<Rightarrow> ('h, ('h, 'f) adapter) step" where
  "build_backend h cfg = (let t = cf_telegram cfg in
     if tc_mode t = ''bot'' then
       (case new_bot (ho_net h) (ho_json h) (tc_bot_token t) (tc_channel_id t) [] of
          Inl e \<Rightarrow> efail e | Inr b \<Rightarrow> eret (BotAdapter b))
     else if tc_mode t = ''mtproto'' then
       ebind (mt_open (ho_client h) (ho_done h) \<lparr>mo_api_id = tc_api_id t, mo_api_hash = tc_api_hash t,
           mo_session_file = tc_session_file t, mo_channel_id = tc_channel_id t, mo_access_hash = tc_channel_access_hash t\<rparr>)
         (\<lambda>b. eret (SessionAdapter b))
     else efail (New (''telegram mode '' @ go_quote (tc_mode t) @ '' is not supported'')))"

text \<open>Only the Bot API adapter has a method \<^verbatim>\<open>Probe\<close>, only the other a method \<^verbatim>\<open>Close\<close>.\<close>

fun startup_probe :: "('h, 'f) adapter \<Rightarrow> ('h, unit) step" where
  "startup_probe (BotAdapter b) = ecatch (bot_probe b) (\<lambda>e. efail (Wrap ''startup probe'' [e])) eret"
| "startup_probe (SessionAdapter b) = eret ()"

fun close_backend :: "goerr option \<Rightarrow> ('h, 'f) adapter \<Rightarrow> goerr option" where
  "close_backend ended (SessionAdapter b) = mt_close ended"
| "close_backend ended (BotAdapter b) = None"

section \<open>Starting\<close>

fun make_dirs :: "('h, 'f) host \<Rightarrow> string list \<Rightarrow> goerr option" where
  "make_dirs h [] = None"
| "make_dirs h (d # ds) =
     (if d = [] then make_dirs h ds
      else case ho_mkdir h d of Some e \<Rightarrow> Some (Wrap (''mkdir '' @ d) [e]) | None \<Rightarrow> make_dirs h ds)"

definition credentials :: "s3_config \<Rightarrow> string \<Rightarrow> string option" where
  "credentials c ak = (if ak = s3_access_key c then Some (s3_secret_key c) else None)"

definition daemon_service :: "('h, 'f) host \<Rightarrow> config \<Rightarrow> 'h backend \<Rightarrow> 'h cache \<Rightarrow> 'h service" where
  "daemon_service h cfg be ca = (ho_libs h)\<lparr>sv_backend := be, sv_cache := Some ca,
     sv_staging := st_staging_dir (cf_storage cfg), sv_frame_size := 0\<rparr>"

definition daemon_server :: "('h, 'f) host \<Rightarrow> config \<Rightarrow> 'h service \<Rightarrow> 'h server" where
  "daemon_server h cfg sv =
     \<lparr>hs_verifier = \<lparr>v_region = s3_region (cf_s3 cfg), v_lookup = Some (credentials (cf_s3 cfg)), v_now = ho_now h, v_dig = ho_digests h\<rparr>,
      hs_service = sv, hs_browser = Some \<lparr>bo_enabled = cf_ui_enabled cfg, bo_password = cf_ui_password cfg\<rparr>,
      hs_forms = ho_forms h, hs_unmarshal = ho_unmarshal h\<rparr>"

definition daemon_site :: "('h, 'f) host \<Rightarrow> store \<Rightarrow> keyring \<Rightarrow> 'h \<Rightarrow> 'h site" where
  "daemon_site h meta ks s = \<lparr>st_world = (ho_world h)\<lparr>w_meta := meta, w_keys := ks, w_blobs := s, w_ciphers := Map.empty\<rparr>,
     st_sessions = Map.empty\<rparr>"

definition open_keys :: "('h, 'f) host \<Rightarrow> string \<Rightarrow> goerr + keyring" where
  "open_keys h path = fst (keys_load (ho_keys_toml h) (ho_keys_stat h) path (ho_disk h))"

definition lift_result :: "goerr + 'a \<Rightarrow> ('s, 'a) step" where
  "lift_result r s = (r, s)"

definition serve :: "('h, 'f) host \<Rightarrow> string \<Rightarrow> ('h, 'h server \<times> 'h site) step" where
  "serve h path =
     ebind (lift_result (load_config (ho_config h) path)) (\<lambda>cfg. let st = cf_storage cfg in
       case make_dirs h [dir_path (st_db_path st), st_staging_dir st] of
         Some e \<Rightarrow> efail e
       | None \<Rightarrow>
           ebind (lift_result (ho_meta h (st_db_path st))) (\<lambda>meta.
           ebind (build_backend h cfg) (\<lambda>a.
           ebind (startup_probe a) (\<lambda>_.
           ebind (lift_result (open_keys h (cf_keys_file cfg))) (\<lambda>ks.
           ebind (lift_result (parse_size (st_cache_size st))) (\<lambda>n.
           ebind (lift_result (ho_cache h (st_cache_dir st) n)) (\<lambda>ca s.
             (Inr (daemon_server h cfg (daemon_service h cfg (adapter_backend a) ca), daemon_site h meta ks s), s))))))))"

end
