(* ===== verification/DaemonClaims.thy ===== *)
theory DaemonClaims
  imports Daemon HttpClaims MtprotoClaims BotClaims ConfigClaims KeysProperties
begin

text \<open>
  Properties of a daemon that has started: it satisfies the assumptions under which the HTTP layer is
  proved, whichever way to Telegram is configured, and what an earlier daemon has stored survives.
\<close>

section \<open>Assumptions on the host\<close>

text \<open>\<^verbatim>\<open>getMe\<close> and \<^verbatim>\<open>getChat\<close> touch no document.\<close>

definition ask_law :: "'h bot \<Rightarrow> ('h \<Rightarrow> blobref \<Rightarrow> bytes option) \<Rightarrow> bool" where
  "ask_law b held \<longleftrightarrow> (\<forall>m body s r k s'. m \<in> {''getMe'', ''getChat''} \<longrightarrow>
     nt_do (bt_http b) (api_request b m form_type body) s = (r, k, s') \<longrightarrow> held s' = held s)"

definition bot_side_law :: "('h, 'f) host \<Rightarrow> ('h \<Rightarrow> blobref \<Rightarrow> bytes option) \<Rightarrow> bool" where
  "bot_side_law h held \<longleftrightarrow> (\<forall>token chat b. new_bot (ho_net h) (ho_json h) token chat [] = Inr b \<longrightarrow>
     (\<exists>served. telegram_laws b held served) \<and> ask_law b held)"

definition session_side_law :: "('h, 'f) host \<Rightarrow> ('h \<Rightarrow> blobref \<Rightarrow> bytes option) \<Rightarrow> bool" where
  "session_side_law h held \<longleftrightarrow>
     (\<forall>b. mt_client b = ho_client h \<longrightarrow> (\<exists>v. vw_held v = held \<and> session_laws b v)) \<and>
     (\<forall>s r s'. cl_start (ho_client h) s = (r, s') \<longrightarrow> held s' = held s) \<and>
     (\<forall>s r s'. cl_status (ho_client h) s = (r, s') \<longrightarrow> held s' = held s)"

definition host_laws :: "('h, 'f) host \<Rightarrow> ('h \<Rightarrow> blobref \<Rightarrow> bytes option) \<Rightarrow> bool" where
  "host_laws h held \<longleftrightarrow> bot_side_law h held \<and> session_side_law h held \<and> (\<forall>k. aead_laws (sv_gcm (ho_libs h) k)) \<and>
     (\<forall>dir n ca. ho_cache h dir n = Inr ca \<longrightarrow> cache_law ca held) \<and>
     (\<forall>doc req. ho_unmarshal h doc = Some req \<longrightarrow> length req \<le> length doc)"

section \<open>Starting\<close>

lemma call_form_quiet:
  assumes "telegram_laws b held served" "ask_law b held" "0 \<le> bt_max_retry b" "m \<in> {''getMe'', ''getChat''}"
    and "call_form b m form zero dec s = (r, s')"
  shows "held s' = held s"
proof -
  have form: "form_law b" using assms(1) by (simp add: telegram_laws_def)
  have "held s' = held s \<and> (\<forall>x. r = Inr x \<longrightarrow> True)"
  proof (rule call_form_rule [OF assms(5) form assms(3), where P = "\<lambda>t. held t = held s" and R = "\<lambda>_ _. True"])
    show "held t' = held s" if "held t = held s" "nt_wait (bt_http b) d t = (e, t')" for d t e t'
      using assms(1) that(2) unfolding telegram_laws_def idle_law_def that(1) [symmetric] by blast
    show "held t' = held s \<and> (\<forall>rs x. a = Inr rs \<longrightarrow> decode_reply (bt_codec b) m dec rs = Inr x \<longrightarrow> True)"
      if "held t = held s" "nt_do (bt_http b) (api_request b m form_type body) t = (a, k, t')" for body t a k t'
      using assms(2,4) that(2) unfolding ask_law_def that(1) [symmetric] by blast
  qed simp
  then show ?thesis by simp
qed

lemma bot_probe_quiet:
  assumes "telegram_laws b held served" "ask_law b held" "0 \<le> bt_max_retry b" "bot_probe b s = (r, s')"
  shows "held s' = held s"
proof -
  obtain x s1 where x: "call_form b ''getMe'' [] False (cd_user (bt_codec b)) s = (x, s1)" by fastforce
  obtain y s2 where y: "call_form b ''getChat'' (chat_form b) [] (cd_chat (bt_codec b)) s1 = (y, s2)" by fastforce
  have "s' \<in> {s1, s2}" using assms(4) x y
    by (auto simp: bot_probe_def ecatch_def efail_def eret_def split: sum.splits if_splits)
  moreover have "held s1 = held s" by (rule call_form_quiet [OF assms(1-3) _ x]) simp
  moreover have "held s2 = held s1" by (rule call_form_quiet [OF assms(1-3) _ y]) simp
  ultimately show ?thesis by auto
qed

lemma new_bot_Inr: "new_bot net j token chat [] = Inr b \<Longrightarrow> bt_max_retry b = 3"
  by (auto simp: new_bot_def split: if_splits)

lemma build_backend_cases:
  assumes "build_backend h cfg s = (Inr a, s1)"
  obtains (bot) token chat b where "new_bot (ho_net h) (ho_json h) token chat [] = Inr b" "a = BotAdapter b" "s1 = s"
  | (session) o1 b where "mt_open (ho_client h) (ho_done h) o1 s = (Inr b, s1)" "a = SessionAdapter b"
proof (cases "tc_mode (cf_telegram cfg) = ''bot''")
  case True
  then show ?thesis using assms bot by (auto simp: build_backend_def Let_def efail_def eret_def split: sum.splits)
next
  case False
  then show ?thesis using assms session
    by (auto simp: build_backend_def Let_def efail_def eret_def ebind_def split: sum.splits prod.splits if_splits)
qed

lemma mt_open_Inr:
  assumes "mt_open c parent o1 s = (Inr b, s')"
  shows "mt_client b = c \<and> (\<exists>x s1. cl_start c s = (x, s1) \<and> (s' = s1 \<or> (\<exists>y. cl_status c s1 = (y, s'))))"
  using assms by (auto simp: mt_open_def run_callback_def Let_def split: option.splits prod.splits sum.splits if_splits)

lemma adapter_laws:
  assumes "host_laws h held" "build_backend h cfg s = (Inr a, s1)" "startup_probe a s1 = (r, s2)"
  shows "backend_laws (adapter_backend a) held \<and> held s2 = held s \<and> be_max (adapter_backend a) \<le> 2 ^ 38 \<and> 0 \<le> be_max (adapter_backend a)"
  using assms(2)
proof (cases rule: build_backend_cases)
  case (bot token chat b)
  then obtain served where b: "telegram_laws b held served" "ask_law b held"
    using assms(1) unfolding host_laws_def bot_side_law_def by blast
  have retry: "0 \<le> bt_max_retry b" using new_bot_Inr [OF bot(1)] by simp
  obtain x where "bot_probe b s1 = (x, s2)" using assms(3) bot(2)
    by (auto simp: ecatch_def efail_def eret_def split: prod.splits sum.splits)
  then have "held s2 = held s1" by (rule bot_probe_quiet [OF b retry])
  moreover have "backend_laws (bot_backend b) held"
    using bot_put_law [OF b(1) retry] bot_get_law [OF b(1) retry] bot_delete_law [OF b(1) retry] by (simp add: backend_laws_def)
  ultimately show ?thesis using bot(2,3) by (simp add: bot_backend_def bot_max_object_size_def)
next
  case (session o1 b)
  note op = mt_open_Inr [OF session(1)]
  obtain v where v: "vw_held v = held" "session_laws b v" using assms(1) op unfolding host_laws_def session_side_law_def by blast
  have "held s1 = held s" using assms(1) op unfolding host_laws_def session_side_law_def by metis
  moreover have "s2 = s1" using assms(3) session(2) by (simp add: eret_def)
  moreover have "backend_laws (mt_backend b) held"
    using mt_put_law [OF v(2)] mt_get_law [OF v(2)] mt_delete_law [OF v(2)] v(1) by (simp add: backend_laws_def)
  ultimately show ?thesis using session(2) by (simp add: mt_backend_def mt_max_object_size_def)
qed

lemma serve_Inr:
  assumes "serve h path s = (Inr (hs, st), s')"
  obtains cfg meta a s1 ks ca where "load_config (ho_config h) path = Inr cfg" "ho_meta h (st_db_path (cf_storage cfg)) = Inr meta"
    "build_backend h cfg s = (Inr a, s1)" "startup_probe a s1 = (Inr (), s')" "open_keys h (cf_keys_file cfg) = Inr ks"
    "\<exists>dir n. ho_cache h dir n = Inr ca" "hs = daemon_server h cfg (daemon_service h cfg (adapter_backend a) ca)"
    "st = daemon_site h meta ks s'"
  using assms
  by (auto simp: serve_def Let_def ebind_Inr lift_result_def efail_def simp del: make_dirs.simps split: option.splits) (rule that; blast)

lemma started_laws:
  assumes "host_laws h held" "serve h path s = (Inr (hs, st), s')"
  shows "server_laws hs held \<and> held s' = held s \<and> 0 \<le> be_max (sv_backend (hs_service hs)) \<and> st_sessions st = Map.empty \<and>
    sv_gcm (hs_service hs) = sv_gcm (ho_libs h) \<and> sv_frame_size (hs_service hs) = 0 \<and>
    w_blobs (st_world st) = s' \<and> w_ciphers (st_world st) = Map.empty"
proof -
  obtain cfg meta a s1 ks ca where c: "build_backend h cfg s = (Inr a, s1)" "startup_probe a s1 = (Inr (), s')"
    "\<exists>dir n. ho_cache h dir n = Inr ca" "hs = daemon_server h cfg (daemon_service h cfg (adapter_backend a) ca)"
    "st = daemon_site h meta ks s'"
    by (rule serve_Inr [OF assms(2)])
  note b = adapter_laws [OF assms(1) c(1,2)]
  have "cache_law ca held" "\<And>k. aead_laws (sv_gcm (ho_libs h) k)"
    "\<And>doc req. ho_unmarshal h doc = Some req \<Longrightarrow> length req \<le> length doc"
    using assms(1) c(3) unfolding host_laws_def by blast+
  then show ?thesis using b c(4,5)
    by (simp add: server_laws_def service_laws_def small_backend_def daemon_server_def daemon_service_def daemon_site_def)
qed

section \<open>Restarting\<close>

text \<open>What a daemon over \<open>h\<close> finds of the world \<open>w\<close> that an earlier one has left: the rows in the database,
  the keys in their file, the documents at Telegram.\<close>

definition finds :: "('h, 'f) host \<Rightarrow> ('h \<Rightarrow> blobref \<Rightarrow> bytes option) \<Rightarrow> 'h \<Rightarrow> 'h site \<Rightarrow> 'h world \<Rightarrow> bool" where
  "finds h held s st w \<longleftrightarrow> tables (w_meta (st_world st)) = tables (w_meta w) \<and> held s = held (w_blobs w) \<and>
     keys_synced (w_keys w) \<and> toml_reads_back (ho_keys_toml h) \<and> ho_keys_stat h = None \<and> ho_disk h = ks_disk (w_keys w) \<and>
     ks_path (w_keys (st_world st)) = ks_path (w_keys w)"

lemma open_keys_path: "open_keys h path = Inr ks \<Longrightarrow> ks_path ks = path"
  by (auto simp: open_keys_def keys_load_def split: option.splits prod.splits sum.splits if_splits)

lemma restarted:
  assumes "host_laws h held" "serve h path s = (Inr (hs, st), s')" "finds h held s st w"
    and "world_inv sv held w" "sv_gcm sv = sv_gcm (ho_libs h)" "sv_frame_size sv = 0"
    and "be_max (sv_backend sv) \<le> be_max (sv_backend (hs_service hs))"
  shows "world_inv (hs_service hs) held (st_world st)"
    "holds sv held i ob p w \<Longrightarrow> holds (hs_service hs) held i ob p (st_world st)"
proof -
  let ?w = "st_world st" and ?sv = "hs_service hs"
  note l = started_laws [OF assms(1,2)]
  note f = assms(3) [unfolded finds_def]
  obtain cfg :: config and meta ks where c: "open_keys h (cf_keys_file cfg) = Inr ks" "st = daemon_site h meta ks s'"
    by (rule serve_Inr [OF assms(2)]) (rule that)
  have ks: "w_keys ?w = ks" using c(2) by (simp add: daemon_site_def)
  have path: "ks_path ks = ks_path (w_keys w)" "cf_keys_file cfg = ks_path (w_keys w)" using f ks open_keys_path [OF c(1)] by auto
  from synced_load [of "w_keys w" "ho_keys_toml h"] f obtain k where
    k: "keys_load (ho_keys_toml h) None (ks_path (w_keys w)) (ks_disk (w_keys w)) = (Inr k, ks_disk (w_keys w))"
      "\<forall>b. keys_get b k = keys_get b (w_keys w)" "ks_inv k" by blast
  have "k = ks" using c(1) k(1) path f by (simp add: open_keys_def)
  then have keys: "ks_inv (w_keys ?w)" "keys_get b (w_keys ?w) = keys_get b (w_keys w)" for b using k(2,3) ks by auto
  have cipher: "bucket_cipher ?sv (w_keys ?w) = bucket_cipher sv (w_keys w)"
  proof
    have same: "sv_gcm ?sv = sv_gcm sv" "sv_frame_size ?sv = sv_frame_size sv" using l assms(5,6) by simp_all
    show "bucket_cipher ?sv (w_keys ?w) b = bucket_cipher sv (w_keys w) b" for b
      unfolding bucket_cipher_def keys(2) same ..
  qed
  have blobs: "held (w_blobs ?w) = held (w_blobs w)" using l f by simp
  have st: "stored ?sv = stored sv" by (simp add: stored_def fun_eq_iff)
  have rows: "objects (w_meta ?w) = objects (w_meta w)" "parts (w_meta ?w) = parts (w_meta w)" "store_inv (w_meta ?w) = store_inv (w_meta w)"
    using f tables_find(5) [of "w_meta ?w" "w_meta w"] by (simp_all add: tables_def)
  show "world_inv ?sv held ?w"
    using assms(4,7) keys(1) l unfolding world_inv_def svc_inv_def parts_ok_def rows_ok_def cipher blobs st rows by force
  show "holds ?sv held i ob p ?w" if "holds sv held i ob p w"
    using that f tables_find(2) [of "w_meta ?w" "w_meta w" i] unfolding holds_def cipher blobs st by simp
qed

section \<open>A daemon in memory\<close>

text \<open>A host with the session library in memory, and a key file that its daemon finds again.\<close>

definition demo_config :: config where
  "demo_config = \<lparr>cf_server = \<lparr>sc_listen = []\<rparr>, cf_s3 = \<lparr>s3_access_key = ''AK'', s3_secret_key = ''S'', s3_region = []\<rparr>,
     cf_telegram = \<lparr>tc_mode = ''mtproto'', tc_bot_token = [], tc_channel_id = 2, tc_session_file = ''s'', tc_api_id = 1, tc_api_hash = ''h'', tc_channel_access_hash = 3\<rparr>,
     cf_storage = \<lparr>st_cache_dir = [], st_cache_size = ''5'', st_staging_dir = [], st_db_path = []\<rparr>,
     cf_keys_file = ''keys'', cf_ui_enabled = False, cf_ui_password = ''pw''\<rparr>"

definition demo_keys :: "(string \<times> bytes) list" where
  "demo_keys = [(''abc'', replicate 32 7)]"

definition restart_disk :: disk where
  "restart_disk = \<lparr>d_files = [''keys'' \<mapsto> (keys_text demo_keys, 0x180)], d_faults = [], d_tmp = (\<lambda>n. ''tmp'' @ replicate n CHR ''x''), d_next = 0\<rparr>"

definition demo_ring :: keyring where
  "demo_ring = \<lparr>ks_path = ''keys'', ks_keys = demo_keys, ks_disk = restart_disk\<rparr>"

definition mem_cache :: "mem_session cache" where
  "mem_cache = \<lparr>ca_evict = (\<lambda>m s. s),
     ca_stream = (\<lambda>ref s. (case vw_held mem_view s ref of Some d \<Rightarrow> Inr (d, Eof) | None \<Rightarrow> Inl ErrBlobNotFound, s)),
     ca_at = (\<lambda>ref s. (case vw_held mem_view s ref of Some d \<Rightarrow> Inr d | None \<Rightarrow> Inl ErrBlobNotFound, s))\<rparr>"

definition restart_host :: "store \<Rightarrow> (mem_session, nat) host" where
  "restart_host m = \<lparr>ho_config = (\<lambda>p. Inr demo_config), ho_mkdir = (\<lambda>d. None), ho_meta = (\<lambda>p. Inr m),
     ho_net = \<lparr>nt_do = (\<lambda>rq s. (Inl (New ''offline''), 0, s)), nt_wait = (\<lambda>d s. (None, s)), nt_boundary = Pair ''b''\<rparr>,
     ho_json = chat_codec, ho_client = mem_client, ho_done = None, ho_keys_toml = demo_toml, ho_keys_stat = None,
     ho_disk = restart_disk, ho_cache = (\<lambda>d n. Inr mem_cache), ho_digests = v_dig (hs_verifier demo_server),
     ho_libs = \<lparr>sv_backend = mt_backend mem_mtproto, sv_cache = None, sv_gcm = (\<lambda>k. tagged_aead), sv_md5 = (\<lambda>d. d),
       sv_staging = [], sv_frame_size = 0, sv_now = 1000, sv_temp = (\<lambda>n. replicate n CHR ''x'' @ ''.tmp'')\<rparr>,
     ho_now = 0, ho_world = \<lparr>w_meta = empty_store, w_keys = demo_ring, w_blobs = ([], []), w_ciphers = Map.empty,
       w_rand = (\<lambda>n. Inr (replicate 32 7)), w_draws = 0, w_files = Map.empty, w_os = [], w_temps = 0\<rparr>,
     ho_forms = hs_forms demo_server, ho_unmarshal = (\<lambda>d. None)\<rparr>"

definition restart_service :: "mem_session service" where
  "restart_service = \<lparr>sv_backend = mt_backend mem_mtproto, sv_cache = Some mem_cache, sv_gcm = (\<lambda>k. tagged_aead), sv_md5 = (\<lambda>d. d),
     sv_staging = ''/var/lib/telang/staging'', sv_frame_size = 0, sv_now = 1000, sv_temp = (\<lambda>n. replicate n CHR ''x'' @ ''.tmp'')\<rparr>"

definition restart_server :: "mem_session server" where
  "restart_server = \<lparr>hs_verifier = \<lparr>v_region = ''tg-1'', v_lookup = Some (\<lambda>k. if k = ''AK'' then Some ''S'' else None), v_now = 0,
       v_dig = \<lparr>sha256 = \<lambda>m. [], hmac = \<lambda>k m. [1]\<rparr>\<rparr>,
     hs_service = restart_service, hs_browser = Some \<lparr>bo_enabled = False, bo_password = ''pw''\<rparr>,
     hs_forms = hs_forms demo_server, hs_unmarshal = \<lambda>d. None\<rparr>"

definition restart_site :: "store \<Rightarrow> mem_session \<Rightarrow> mem_session site" where
  "restart_site m s = \<lparr>st_world = \<lparr>w_meta = m, w_keys = demo_ring, w_blobs = s, w_ciphers = Map.empty,
     w_rand = (\<lambda>n. Inr (replicate 32 7)), w_draws = 0, w_files = Map.empty, w_os = [], w_temps = 0\<rparr>, st_sessions = Map.empty\<rparr>"

lemma restart_size: "parse_size (st_cache_size (cf_storage (apply_defaults demo_config))) = Inr 5"
proof -
  have unit: "size_unit (to_lower []) = Some 1" "st_cache_size (cf_storage (apply_defaults demo_config)) = [] @ format_int 5 @ [] @ [] @ []"
    by code_simp+
  show ?thesis unfolding unit(2) by (rule parse_size_text [OF unit(1), of 5, simplified]) simp_all
qed

lemma restart_config: "load_config (\<lambda>p. Inr demo_config) [] = Inr (apply_defaults demo_config)"
proof -
  have "cf_s3 (apply_defaults demo_config) = \<lparr>s3_access_key = ''AK'', s3_secret_key = ''S'', s3_region = ''tg-1''\<rparr>"
    "check_telegram (cf_telegram (apply_defaults demo_config)) = None" by code_simp+
  then have "validate (apply_defaults demo_config) = None"
    by (simp add: validate_def restart_size)
  then show ?thesis by (simp add: load_config_def Let_def)
qed

lemma restart_keys: "keys_load demo_toml None ''keys'' restart_disk = (Inr demo_ring, restart_disk)"
proof -
  have "demo_toml (keys_text demo_keys) = Inr [(''abc'', std_encode (replicate 32 7))]" by code_simp
  moreover have "decode_keys [(''abc'', std_encode (replicate 32 7))] = Inr demo_keys" by code_simp
  ultimately show ?thesis by (simp add: keys_load_def restart_disk_def demo_ring_def)
qed

lemma restart_serve: "serve (restart_host m) [] s = (Inr (restart_server, restart_site m s), s)"
proof -
  let ?c = "apply_defaults demo_config"
  have keys: "open_keys (restart_host m) ''keys'' = Inr demo_ring" by (simp add: open_keys_def restart_host_def restart_keys)
  have cfg: "load_config (ho_config (restart_host m)) [] = Inr ?c" by (simp add: restart_host_def restart_config)
  have c: "cf_telegram ?c = cf_telegram demo_config" "cf_keys_file ?c = ''keys''"
    "st_staging_dir (cf_storage ?c) = ''/var/lib/telang/staging''" "cf_ui_enabled ?c = False" "cf_ui_password ?c = ''pw''"
    "cf_s3 ?c = \<lparr>s3_access_key = ''AK'', s3_secret_key = ''S'', s3_region = ''tg-1''\<rparr>" by code_simp+
  have dirs: "make_dirs (restart_host m) ds = None" for ds by (induction ds) (simp_all add: restart_host_def)
  have t: "cf_telegram demo_config = \<lparr>tc_mode = ''mtproto'', tc_bot_token = [], tc_channel_id = 2, tc_session_file = ''s'', tc_api_id = 1,
      tc_api_hash = ''h'', tc_channel_access_hash = 3\<rparr>" by (simp add: demo_config_def)
  have opened: "build_backend (restart_host m) ?c s = (Inr (SessionAdapter mem_mtproto), s)"
    unfolding build_backend_def c t
    by (simp add: Let_def ebind_def mt_open_def check_options_def run_callback_def restart_host_def mem_client_def mem_mtproto_def eret_def)
  have server: "daemon_server (restart_host m) ?c (daemon_service (restart_host m) ?c (mt_backend mem_mtproto) mem_cache) = restart_server"
    unfolding daemon_server_def daemon_service_def c
    by (simp add: restart_host_def restart_server_def restart_service_def demo_server_def credentials_def fun_eq_iff)
  have site: "daemon_site (restart_host m) m demo_ring s = restart_site m s"
    by (simp add: daemon_site_def restart_site_def restart_host_def)
  have ho: "ho_cache (restart_host m) d n = Inr mem_cache" "ho_meta (restart_host m) p = Inr m" for d n p by (simp_all add: restart_host_def)
  show ?thesis unfolding serve_def cfg lift_result_def
    by (simp add: ebind_def dirs c restart_size ho opened keys server site eret_def Let_def del: make_dirs.simps)
qed

lemma failing_laws: "telegram_laws b (vw_held mem_view) (\<lambda>_ _. None)"
  if "\<And>rq s. nt_do (bt_http b) rq s = (Inl e, 0, s)" "\<And>d s. nt_wait (bt_http b) d s = (None, s)" "\<And>s. nt_boundary (bt_http b) s = (''b'', s)"
  using that by (auto simp: telegram_laws_def send_law_def form_law_def file_law_def erase_law_def idle_law_def upload_request_def)

lemma restart_host_laws: "host_laws (restart_host m) (vw_held mem_view)"
proof -
  have "bot_side_law (restart_host m) (vw_held mem_view)"
    unfolding bot_side_law_def
  proof (intro allI impI)
    fix token chat b assume "new_bot (ho_net (restart_host m)) (ho_json (restart_host m)) token chat [] = Inr b"
    then have b: "nt_do (bt_http b) rq s = (Inl (New ''offline''), 0, s)" "nt_wait (bt_http b) d s = (None, s)" "nt_boundary (bt_http b) s = (''b'', s)" for rq s d
      by (auto simp: new_bot_def restart_host_def split: if_splits)
    then have "ask_law b (vw_held mem_view)" by (auto simp: ask_law_def)
    with failing_laws [OF b] show "(\<exists>served. telegram_laws b (vw_held mem_view) served) \<and> ask_law b (vw_held mem_view)" by blast
  qed
  moreover have "session_side_law (restart_host m) (vw_held mem_view)"
    using mem_client_laws by (auto simp: session_side_law_def restart_host_def mem_client_def eret_def)
  moreover have "cache_law mem_cache (vw_held mem_view)"
    by (auto simp: cache_law_def mem_cache_def split: option.splits)
  ultimately show ?thesis by (simp add: host_laws_def restart_host_def)
qed

definition start_store :: store where
  "start_store = put_bucket_row \<lparr>b_name = ''abc'', b_created = 5, b_enckey = ''abc''\<rparr> empty_store"

abbreviation "restart_at \<equiv> at_time 1369353600 restart_server"
abbreviation "put_rq \<equiv> demo_rq ''PUT'' ''/abc/k'' 2"
abbreviation "get_rq \<equiv> demo_rq ''GET'' ''/abc/k'' 0"
abbreviation "start_site \<equiv> restart_site start_store ([], [])"
abbreviation "put_result \<equiv> dispatch restart_at put_rq ([5, 6], Eof) (snd (new_request_id (st_world start_site)))"

lemma restart_verified: "verify (hs_verifier restart_at) put_rq = Inr RawBody" "verify (hs_verifier restart_at) get_rq = Inr RawBody"
  by code_simp+

definition demo_cipher :: cipher where
  "demo_cipher = \<lparr>aead_of = tagged_aead, frame_size = default_frame_size\<rparr>"

lemma demo_cipher_ok: "cipher_ok demo_cipher"
  by (simp add: cipher_ok_def demo_cipher_def default_frame_size_def)

lemma restart_cipher:
  assumes "sv_gcm sv = (\<lambda>k. tagged_aead)" "sv_frame_size sv = 0" "w_keys w = demo_ring" "w_ciphers w = Map.empty"
  shows "\<exists>w'. cipher_for sv ''abc'' w = (Inr demo_cipher, w') \<and> w_rand w' = w_rand w \<and> w_blobs w' = w_blobs w \<and> w_meta w' = w_meta w"
proof -
  have "keys_get ''abc'' demo_ring = Inr (replicate 32 7)" by code_simp
  then show ?thesis using assms
    by (simp add: cipher_for_def new_cipher_def demo_cipher_def default_frame_size_def)
qed

lemma restart_upload:
  assumes "length base = nonce_len" "sv_backend sv = mt_backend mem_mtproto"
  shows "\<exists>ref plain bl. upload_blob sv ''k'' (ciphertext_size demo_cipher 2) (encrypter_init demo_cipher ([5, 6], Eof) 2 base) w
    = (Inr (ref, plain), w\<lparr>w_blobs := bl\<rparr>)"
proof -
  let ?e = "encrypter_init demo_cipher ([5, 6], Eof) 2 base"
  have "fst (enc_pend ?e) = encrypted demo_cipher base [5, 6]"
    using encrypter_correct [OF _ assms(1), of demo_cipher "[5, 6]" "[]" Eof] demo_cipher_ok by (simp add: enc_pend_init cipher_ok_def)
  moreover have "ciphertext_size demo_cipher 2 = int (length (encrypted demo_cipher base [5, 6]))"
    using ciphertext_size_encrypted [OF demo_cipher_ok assms(1), of "[5, 6]"] by simp
  ultimately have pend: "ciphertext_size demo_cipher 2 \<le> int (length (fst (enc_pend ?e)))" by simp
  have small: "ciphertext_size demo_cipher 2 \<le> mt_max_object_size" by code_simp
  obtain ms us where bl: "w_blobs w = (ms, us)" by fastforce
  show ?thesis using pend small
    by (simp add: upload_blob_def on_blobs_def assms(2) mt_backend_def mt_put_def bl mem_mtproto_def mem_client_def mt_send_def ebind_def
      ecatch_def eret_def extract_document_message_def mem_message_def mem_document_def) (intro exI, rule refl)
qed

lemma restart_put_object:
  assumes "sv_gcm sv = (\<lambda>k. tagged_aead)" "sv_frame_size sv = 0" "sv_backend sv = mt_backend mem_mtproto"
    "w_keys w = demo_ring" "w_ciphers w = Map.empty" "w_rand w = (\<lambda>n. Inr (replicate 32 7))" "w_meta w = start_store"
  shows "\<exists>ob w'. svc_put_object sv ''abc'' ''k'' ct 2 ([5, 6], Eof) w = (Inr ob, w')"
proof -
  have bucket: "rename_err ErrNotFound S3NoSuchBucket (on_meta (get_bucket ''abc'')) w = (Inr \<lparr>b_name = ''abc'', b_created = 5, b_enckey = ''abc''\<rparr>, w)"
    using assms(7) world.surjective [of w] by (simp add: rename_err_def on_meta_def get_bucket_def start_store_def put_bucket_row_def empty_store_def ecatch_def ebind_def
      eret_def exec_def sql_def gets_def find_bucket_def t_upsert_def t_find_def)
  obtain w1 where w1: "cipher_for sv ''abc'' w = (Inr demo_cipher, w1)" "w_rand w1 = w_rand w" "w_blobs w1 = w_blobs w" "w_meta w1 = w_meta w"
    using restart_cipher [OF assms(1,2,4,5)] by blast
  let ?base = "copy_field nonce_len (replicate 32 7)"
  have base: "length ?base = nonce_len" by (simp add: copy_field_def)
  have rnd: "rand_read nonce_len w1 = (Inr ?base, w1\<lparr>w_draws := Suc (w_draws w1)\<rparr>)"
    using w1(2) assms(6) by (simp add: rand_read_def)
  obtain ref plain bl where up: "upload_blob sv ''k'' (ciphertext_size demo_cipher 2) (encrypter_init demo_cipher ([5, 6], Eof) 2 ?base)
      (w1\<lparr>w_draws := Suc (w_draws w1)\<rparr>) = (Inr (ref, plain), w1\<lparr>w_draws := Suc (w_draws w1), w_blobs := bl\<rparr>)"
    using restart_upload [OF base assms(3), of "w1\<lparr>w_draws := Suc (w_draws w1)\<rparr>"] by (elim exE) (rule that; simp)
  have small: "\<not> ciphertext_size demo_cipher 2 > be_max (sv_backend sv)" unfolding assms(3) by code_simp
  show ?thesis unfolding svc_put_object_def svc_put_upload_def seal_put_def Let_def
    using w1(4) assms(7) by (simp add: ebind_def ecatch_def bucket w1(1) rnd up small eret_def svc_put_record_def svc_record_def on_meta_def
      put_object_def exec_def sql_def start_store_def put_bucket_row_def empty_store_def modify_def)
qed

lemma restart_put_dispatch: "rs_body (fst put_result) = Empty"
proof -
  have rq: "rq_method put_rq = ''PUT''" "query_get (rq_raw_query put_rq) ''uploadId'' = []" "put_body_size put_rq = Inr (Some 2)"
    "\<not> is_unimplemented_subresource put_rq" "\<not> 2 > be_max (mt_backend mem_mtproto)" by code_simp+
  let ?w = "snd (new_request_id (st_world start_site))"
  have w: "w_keys ?w = demo_ring" "w_ciphers ?w = Map.empty" "w_rand ?w = (\<lambda>n. Inr (replicate 32 7))" "w_meta ?w = start_store"
    by (simp_all add: new_request_id_def rand_read_def restart_site_def)
  have sv: "sv_gcm (hs_service restart_at) = (\<lambda>k. tagged_aead)" "sv_frame_size (hs_service restart_at) = 0"
    "sv_backend (hs_service restart_at) = mt_backend mem_mtproto" by (simp_all add: restart_server_def restart_service_def)
  obtain ob w' where "svc_put_object (hs_service restart_at) ''abc'' ''k'' (header_get ''Content-Type'' put_rq) 2 ([5, 6], Eof) ?w = (Inr ob, w')"
    using restart_put_object [OF sv w] by blast
  then show ?thesis unfolding dispatch_object(1) [OF demo_requests(1) rq(1,2)] h_put_object_def rq(3)
    using rq(4,5) sv(3) by (simp add: hbind_def answer_def plain_def del: at_time_simps)
qed

lemma held_get_succeeds:
  assumes "holds sv held (ObjId b key) ob p w" "service_laws sv held" "faults (w_meta w) = []" "w_ciphers w b = None"
    and fetched: "\<And>d. held (w_blobs w) (ref_of ob) = Some d \<Longrightarrow> \<exists>s'. fetch sv (ref_of ob) (w_blobs w) = (Inr (d, Eof), s')"
  shows "\<exists>d w'. svc_get_object sv b key w = (Inr (ob, d), w')"
proof -
  obtain c where ob: "find_object (ObjId b key) (w_meta w) = Some ob" "bucket_cipher sv (w_keys w) (o_bucket ob) = Some c"
    "held (w_blobs w) (ref_of ob) = Some (encrypted c (o_nonce ob) p)" "length (o_nonce ob) = nonce_len"
    using assms(1) by (auto simp: holds_def stored_def)
  have b: "o_bucket ob = b" using ob(1) t_find_Some_key [of obj_id "ObjId b key" "objects (w_meta w)" ob]
    by (auto simp: find_object_def obj_id_def)
  have head: "svc_head_object b key w = (Inr ob, w)"
    using assms(3) ob(1) by (simp add: svc_head_object_def rename_err_def on_meta_def get_object_def ecatch_def ebind_def eret_def)
  obtain k where k: "keys_get b (w_keys w) = Inr k"
    "new_cipher (sv_gcm sv) k (if sv_frame_size sv = 0 then default_frame_size else sv_frame_size sv) = Inr c"
    using ob(2) b by (auto simp: bucket_cipher_def split: sum.splits)
  have cipher: "cipher_for sv b w = (Inr c, w\<lparr>w_ciphers := (w_ciphers w)(b \<mapsto> c)\<rparr>)"
    using k assms(4) by (simp add: cipher_for_def Let_def)
  obtain s' where f: "fetch sv (ref_of ob) (w_blobs w) = (Inr (encrypted c (o_nonce ob) p, Eof), s')" using fetched [OF ob(3)] by blast
  have blob: "open_ciphertext sv ob w1 = (Inr (encrypted c (o_nonce ob) p, Eof), w1\<lparr>w_blobs := s'\<rparr>)" if "w_blobs w1 = w_blobs w" for w1
    using f that by (simp add: open_ciphertext_def on_blobs_def fetch_def split: option.splits)
  have "cipher_ok c" using bucket_cipher_ok [OF assms(2) ob(2)] .
  then obtain d where d: "new_decrypter c (encrypted c (o_nonce ob) p, Eof) = Inr d"
    unfolding encrypted_def cipher_ok_def using new_decrypter_header [OF ob(4)] by blast
  show ?thesis unfolding svc_get_object_def using head cipher blob [of "w\<lparr>w_ciphers := (w_ciphers w)(b \<mapsto> c)\<rparr>"] d
    by (simp add: ebind_def ecatch_def eret_def)
qed

text \<open>An upload does not touch the keys.\<close>

definition same_keys :: "('b world, 'a) step \<Rightarrow> bool" where
  "same_keys m \<longleftrightarrow> (\<forall>w. w_keys (snd (m w)) = w_keys w)"

lemma same_keys_intros:
  "same_keys (eret x)" "same_keys (efail e)" "same_keys (on_meta f)" "same_keys (on_blobs g)" "same_keys (rand_read n)" "same_keys (cipher_for sv b)"
  "same_keys m \<Longrightarrow> (\<And>x. same_keys (k x)) \<Longrightarrow> same_keys (ebind m k)"
  "same_keys m \<Longrightarrow> (\<And>e. same_keys (h e)) \<Longrightarrow> (\<And>x. same_keys (k x)) \<Longrightarrow> same_keys (ecatch m h k)"
  by (simp_all add: same_keys_def eret_def efail_def on_meta_def on_blobs_def rand_read_def cipher_for_def ebind_def ecatch_def Let_def
    split: prod.splits sum.splits option.splits) (metis snd_conv)+

lemma put_object_same_keys: "same_keys (svc_put_object sv b key ct n r)"
  unfolding svc_put_object_def svc_put_upload_def svc_put_record_def svc_record_def seal_put_def upload_blob_def rename_err_def delete_blob_def Let_def
  by (intro same_keys_intros) (auto intro!: same_keys_intros split: prod.split)


lemma restart_put: "rs_body (fst (serve_http restart_at put_rq ([5, 6], Eof) start_site)) = Empty"
  "st_world (snd (serve_http restart_at put_rq ([5, 6], Eof) start_site)) = snd put_result"
  using restart_put_dispatch unfolding serve_s3_eq [OF demo_requests(1) restart_verified(1)]
  by (simp_all add: decoded_body_def with_id_def split_beta)

lemma left_keys: "w_keys (snd put_result) = demo_ring"
proof -
  have rq: "rq_method put_rq = ''PUT''" "query_get (rq_raw_query put_rq) ''uploadId'' = []" "put_body_size put_rq = Inr (Some 2)" by code_simp+
  have put: "w_keys w' = w_keys w" if "svc_put_object sv b key ct n r w = (x, w')" for sv :: "mem_session service" and b key ct n r w x w'
    using put_object_same_keys [of sv b key ct n r] that by (metis same_keys_def snd_conv)
  have "w_keys (snd (h_put_object sv put_rq body b k w)) = w_keys w" for sv :: "mem_session service" and body b k w
    unfolding h_put_object_def rq(3) by (auto simp: Let_def answer_def hbind_def dest!: put split: prod.splits sum.splits)
  moreover have "w_keys (snd (new_request_id (st_world start_site))) = demo_ring"
    by (simp add: new_request_id_def rand_read_def restart_site_def)
  ultimately show ?thesis unfolding dispatch_object(1) [OF demo_requests(1) rq(1,2)] by (simp add: answer_def)
qed

lemma demo_ring_synced: "keys_synced demo_ring"
proof -
  have "disk_ok ''keys'' restart_disk"
    by (auto simp: disk_ok_def restart_disk_def inj_def)
  moreover have "key_name ''abc''" by (simp add: key_name_def)
  moreover have "file_rows (keys_text demo_keys) demo_keys" by (simp add: file_rows_def demo_keys_def)
  ultimately show ?thesis
    by (auto simp: keys_synced_def demo_ring_def restart_disk_def demo_keys_def ks_inv_def t_inv_def key_len_def)
qed

abbreviation "left_store \<equiv> (w_meta (snd put_result))\<lparr>faults := []\<rparr>"
abbreviation "left_host \<equiv> restart_host left_store"
abbreviation "next_site \<equiv> restart_site left_store (w_blobs (snd put_result))"

lemma restart_finds: "finds left_host (vw_held mem_view) (w_blobs (snd put_result)) next_site (snd put_result)"
  using demo_ring_synced demo_toml_reads_back left_keys
  by (simp add: finds_def restart_site_def restart_host_def demo_ring_def tables_def)

lemma restart_start_inv: "world_inv (hs_service restart_server) (vw_held mem_view) (st_world start_site)"
  by (simp add: world_inv_def svc_inv_def parts_ok_def rows_ok_def restart_site_def start_store_def empty_store_def put_bucket_row_def
    t_upsert_def t_find_def store_inv_def t_inv_def ks_inv_def demo_ring_def demo_keys_def)

lemma restart_reliable: "reliable (hs_service restart_server)"
  by (auto simp: reliable_def fetch_def restart_server_def restart_service_def mem_cache_def split: option.splits)

lemma restart_get: "is_data (rs_body (fst (serve_http restart_at get_rq ([], Eof) next_site)))"
proof -
  let ?w = "snd (new_request_id (st_world next_site))" and ?held = "vw_held mem_view" and ?sv = "hs_service restart_server"
  have get: "rq_method get_rq = ''GET''" "header_get ''Range'' get_rq = []" "\<not> is_unimplemented_subresource get_rq" by code_simp+
  have put: "rq_method put_rq = ''PUT''" "query_get (rq_raw_query put_rq) ''uploadId'' = []" by code_simp+
  note l = started_laws [OF restart_host_laws restart_serve]
  have laws: "server_laws restart_server ?held" "0 \<le> be_max (sv_backend ?sv)" using l by simp_all
  from put_answered [OF laws restart_start_inv demo_requests(1) put surjective_pairing restart_put(1)]
  obtain ob p where ob: "world_inv ?sv ?held (snd put_result)" "holds ?sv ?held (ObjId ''abc'' ''k'') ob p (snd put_result)"
    unfolding restart_put(2) Let_def by blast
  have gcm: "sv_gcm ?sv = sv_gcm (ho_libs left_host)" "sv_frame_size ?sv = 0" using l by simp_all
  note h = restarted(2) [OF restart_host_laws restart_serve restart_finds ob(1) gcm order.refl ob(2)]
  have w: "w_meta ?w = w_meta (st_world next_site)" "w_keys ?w = w_keys (st_world next_site)" "w_blobs ?w = w_blobs (st_world next_site)" "w_ciphers ?w = Map.empty"
    by (simp_all add: new_request_id_def rand_read_def restart_site_def)
  have faults: "faults (w_meta ?w) = []" using w(1) by (simp add: restart_site_def)
  have held: "holds (hs_service restart_at) ?held (ObjId ''abc'' ''k'') ob p ?w" using h w by (simp add: holds_def)
  have service: "service_laws (hs_service restart_at) ?held" using now_laws [OF laws(1)] by (simp add: server_laws_def)
  have fetched: "\<exists>s'. fetch (hs_service restart_at) (ref_of ob) (w_blobs ?w) = (Inr (d, Eof), s')" if "?held (w_blobs ?w) (ref_of ob) = Some d" for d
    using that by (simp add: fetch_def restart_server_def restart_service_def mem_cache_def)
  have none: "w_ciphers ?w ''abc'' = None" using w(4) by simp
  obtain d w' where g: "svc_get_object (hs_service restart_at) ''abc'' ''k'' ?w = (Inr (ob, d), w')"
    using held_get_succeeds [OF held service faults none fetched] by blast
  have "rs_body (fst (h_get_object (hs_service restart_at) get_rq ''abc'' ''k'' ?w)) = stream_out d"
    using get(2) g by (simp add: h_get_object_def hbind_def answer_def del: at_time_simps)
  moreover have "is_data (stream_out d)" by (auto simp: stream_out_def split: prod.splits ending.splits)
  ultimately show ?thesis unfolding serve_s3_eq [OF demo_requests(2) restart_verified(2)] dispatch_object(2) [OF demo_requests(2) get(1)]
    by (simp add: decoded_body_def with_id_def split_beta get(3))
qed



end
