(* ===== verification/Fsck.thy ===== *)
theory Fsck
  imports Daemon
begin

text \<open>
  The command \<^verbatim>\<open>fsck\<close>: \<^verbatim>\<open>cmd/telang/fsck.go\<close>.  It asks the backend for every object row whether
  Telegram still has the file; with \<open>--fix\<close> the rows of missing files are deleted.  What is printed
  is the report.
\<close>

record report =
  rp_checked :: nat
  rp_orphans :: nat
  rp_query_errs :: nat
  rp_removed :: nat
  rp_list :: "(string \<times> string) list"   \<comment> \<open>\<^verbatim>\<open>orphanList\<close>: bucket and key\<close>

definition empty_report :: report where
  "empty_report = \<lparr>rp_checked = 0, rp_orphans = 0, rp_query_errs = 0, rp_removed = 0, rp_list = []\<rparr>"

text \<open>The callback of \<^verbatim>\<open>ForEachObject\<close>; it never stops the query.\<close>

definition fsck_row :: "'h backend \<Rightarrow> object \<Rightarrow> report \<times> 'h \<Rightarrow> (goerr + unit) \<times> report \<times> 'h" where
  "fsck_row be ob acc = (case acc of (r0, s) \<Rightarrow>
     let r = r0\<lparr>rp_checked := Suc (rp_checked r0)\<rparr> in
     case be_exists be (o_msg ob, o_file ob) s of
       (Inl e, s') \<Rightarrow> (Inr (), r\<lparr>rp_query_errs := Suc (rp_query_errs r)\<rparr>, s')
     | (Inr True, s') \<Rightarrow> (Inr (), r, s')
     | (Inr False, s') \<Rightarrow> (Inr (), r\<lparr>rp_orphans := Suc (rp_orphans r), rp_list := rp_list r @ [(o_bucket ob, o_key ob)]\<rparr>, s'))"

fun remove_orphans :: "(string \<times> string) list \<Rightarrow> nat \<Rightarrow> store \<Rightarrow> nat \<times> store" where
  "remove_orphans [] n m = (n, m)"
| "remove_orphans ((b, k) # os) n m =
     (case delete_object b k m of
        (Inl e, m') \<Rightarrow> remove_orphans os n m'
      | (Inr _, m') \<Rightarrow> remove_orphans os (Suc n) m')"

text \<open>The checks on an open database and backend: the error, the report, what is left.\<close>

definition fsck_tables :: "'h backend \<Rightarrow> bool \<Rightarrow> store \<Rightarrow> 'h \<Rightarrow> goerr option \<times> report \<times> store \<times> 'h" where
  "fsck_tables be fx m s =
     (case for_each_object (fsck_row be) (empty_report, s) m of
        (Inl e, (r, s'), m') \<Rightarrow> (Some e, r, m', s')
      | (Inr _, (r, s'), m') \<Rightarrow>
          let (n, m2) = (if fx \<and> rp_list r \<noteq> [] then remove_orphans (rp_list r) 0 m' else (0, m'));
              r2 = r\<lparr>rp_removed := n\<rparr>
          in (if rp_query_errs r2 > 0 then Some (New (''fsck: '' @ format_int (int (rp_query_errs r2)) @ '' backend errors'')) else None,
              r2, m2, s'))"

definition run_fsck :: "('h, 'f) host \<Rightarrow> string \<Rightarrow> bool \<Rightarrow> 'h \<Rightarrow> (goerr + goerr option \<times> report \<times> store) \<times> 'h" where
  "run_fsck h path fx =
     ebind (lift_result (load_config (ho_config h) path)) (\<lambda>cfg.
     ebind (lift_result (ho_meta h (st_db_path (cf_storage cfg)))) (\<lambda>m.
     ebind (build_backend h cfg) (\<lambda>a s.
       case fsck_tables (adapter_backend a) fx m s of (e, r, m', s') \<Rightarrow> (Inr (e, r, m'), s'))))"

end
