(* ===== verification/FsckClaims.thy ===== *)
theory FsckClaims
  imports Fsck MtprotoClaims MetadataProperties
begin

text \<open>
  Properties of \<^verbatim>\<open>fsck\<close>: what it reports and deletes in terms of the backend's answers, and what these
  answers are worth over the MTProto adapter.
\<close>

section \<open>The answers of the backend\<close>

fun answers :: "'h backend \<Rightarrow> object list \<Rightarrow> 'h \<Rightarrow> (goerr + bool) list \<times> 'h" where
  "answers be [] s = ([], s)"
| "answers be (ob # obs) s = (case be_exists be (o_msg ob, o_file ob) s of (a, s') \<Rightarrow>
     case answers be obs s' of (as, s'') \<Rightarrow> (a # as, s''))"

definition is_error :: "goerr + 'a \<Rightarrow> bool" where
  "is_error a = (case a of Inl e \<Rightarrow> True | Inr x \<Rightarrow> False)"

text \<open>The rows whose files the backend has reported missing.\<close>

definition missing_rows :: "object list \<Rightarrow> (goerr + bool) list \<Rightarrow> object list" where
  "missing_rows obs as = map fst (filter (\<lambda>(ob, a). a = Inr False) (zip obs as))"

definition name_of :: "object \<Rightarrow> string \<times> string" where
  "name_of ob = (o_bucket ob, o_key ob)"

lemma fsck_walk:
  assumes "answers be obs s = (as, s')"
  shows "for_rows (fsck_row be) obs (r, s) = (Inr (), r\<lparr>rp_checked := rp_checked r + length obs,
      rp_orphans := rp_orphans r + length (missing_rows obs as), rp_query_errs := rp_query_errs r + length (filter is_error as),
      rp_list := rp_list r @ map name_of (missing_rows obs as)\<rparr>, s') \<and> length as = length obs"
  using assms
proof (induction obs arbitrary: s r as)
  case (Cons ob obs)
  obtain a s1 where a: "be_exists be (o_msg ob, o_file ob) s = (a, s1)" by fastforce
  obtain bs s2 where bs: "answers be obs s1 = (bs, s2)" by fastforce
  have as: "as = a # bs" "s' = s2" using Cons.prems a bs by auto
  note ih = Cons.IH [OF bs [folded as(2)]]
  show ?case
  proof (cases a)
    case (Inl e)
    then show ?thesis using a as ih by (simp add: fsck_row_def Let_def is_error_def missing_rows_def)
  next
    case (Inr x)
    then show ?thesis using a as ih by (cases x) (simp_all add: fsck_row_def Let_def is_error_def missing_rows_def name_of_def)
  qed
qed (simp add: missing_rows_def)

lemma missing_rows_subset: "set (missing_rows obs as) \<subseteq> set obs"
  by (auto simp: missing_rows_def dest: set_zip_leftD)

section \<open>Deleting\<close>

lemma name_inj: "t_inv obj_id obs \<Longrightarrow> x \<in> set obs \<Longrightarrow> y \<in> set obs \<Longrightarrow> name_of x = name_of y \<Longrightarrow> x = y"
  using inj_onD [of obj_id "set obs" x y] by (simp add: t_inv_def distinct_map name_of_def obj_id_def)

lemma del_row_names: "t_delete obj_id (ObjId b k) obs = filter (\<lambda>ob. name_of ob \<noteq> (b, k)) obs"
  by (auto simp: t_delete_def name_of_def obj_id_def intro: filter_cong)

lemma remove_orphans_spec:
  assumes "remove_orphans os n m = (n', m')"
  shows "buckets m' = buckets m \<and> uploads m' = uploads m \<and> parts m' = parts m \<and>
    (\<exists>D\<subseteq>set os. objects m' = filter (\<lambda>ob. name_of ob \<notin> D) (objects m))"
  using assms
proof (induction os n m rule: remove_orphans.induct)
  case (2 b k os n m)
  obtain r m1 where d: "delete_object b k m = (r, m1)" by fastforce
  show ?case
  proof (cases r)
    case (Inl e)
    then have "remove_orphans os n m1 = (n', m')" using 2(3) d by simp
    note ih = 2(1) [OF d [symmetric] Inl this]
    have "tables m1 = tables m" using delete_object_Inl d Inl by blast
    then show ?thesis using ih by (auto simp: tables_def)
  next
    case (Inr ob)
    then have "remove_orphans os (Suc n) m1 = (n', m')" using 2(3) d by simp
    from 2(2) [OF d [symmetric] Inr this] obtain D where
      D: "D \<subseteq> set os" "objects m' = filter (\<lambda>ob. name_of ob \<notin> D) (objects m1)"
      and same: "buckets m' = buckets m1" "uploads m' = uploads m1" "parts m' = parts m1" by blast
    have t: "buckets m1 = buckets m" "uploads m1 = uploads m" "parts m1 = parts m"
      "objects m1 = filter (\<lambda>ob. name_of ob \<noteq> (b, k)) (objects m)"
      using delete_object_Inr d Inr by (auto simp: tables_def del_object_row_def del_row_names)
    have "objects m' = filter (\<lambda>ob. name_of ob \<notin> insert (b, k) D) (objects m)"
      unfolding D(2) t(4) by (auto simp: conj_commute intro: filter_cong)
    then show ?thesis using same t D(1) by (auto intro!: exI [of _ "insert (b, k) D"])
  qed
qed auto

lemma remove_orphans_all:
  assumes "remove_orphans os n m = (n', m')" "faults m = []" "distinct os" "set os \<subseteq> name_of ` set (objects m)"
  shows "n' = n + length os \<and> objects m' = filter (\<lambda>ob. name_of ob \<notin> set os) (objects m)"
  using assms
proof (induction os n m rule: remove_orphans.induct)
  case (2 b k os n m)
  have "find_object (ObjId b k) m \<noteq> None"
    using 2(6) by (auto simp: find_object_def t_find_None name_of_def obj_id_def)
  then obtain ob where d: "delete_object b k m = (Inr ob, del_object_row (ObjId b k) m)"
    using 2(4) by (auto simp: delete_object_def ebind_def exec_def sql_def gets_def modify_def eret_def)
  let ?m = "del_object_row (ObjId b k) m"
  have o: "objects ?m = filter (\<lambda>ob. name_of ob \<noteq> (b, k)) (objects m)" "faults ?m = []"
    using 2(4) by (simp_all add: del_object_row_def del_row_names)
  have r: "remove_orphans os (Suc n) ?m = (n', m')" using 2(3) d by simp
  have "set os \<subseteq> name_of ` set (objects ?m)" 
  proof
    fix p assume p: "p \<in> set os"
    then obtain x where "x \<in> set (objects m)" "p = name_of x" using 2(6) by auto
    moreover have "p \<noteq> (b, k)" using p 2(5) by auto
    ultimately show "p \<in> name_of ` set (objects ?m)" unfolding o(1) by simp
  qed
  with 2(2) [OF d [symmetric] refl r o(2)] 2(5) have "n' = Suc n + length os"
    "objects m' = filter (\<lambda>ob. name_of ob \<notin> set os) (objects ?m)" by auto
  then show ?case unfolding o(1) by (auto intro: filter_cong)
qed auto

lemma missing_distinct: "distinct obs \<Longrightarrow> distinct (missing_rows obs as)"
proof (induction obs arbitrary: as)
  case (Cons ob obs)
  then show ?case using missing_rows_subset by (cases as) (fastforce simp: missing_rows_def)+
qed (simp add: missing_rows_def)

lemma names_distinct: "t_inv obj_id obs \<Longrightarrow> distinct xs \<Longrightarrow> set xs \<subseteq> set obs \<Longrightarrow> distinct (map name_of xs)"
  by (auto simp: distinct_map intro!: inj_onI dest: name_inj)

lemma filter_names:
  assumes "t_inv obj_id obs" "set xs \<subseteq> set obs" "D \<subseteq> name_of ` set xs"
  shows "filter (\<lambda>ob. name_of ob \<notin> D) obs = filter (\<lambda>ob. ob \<notin> {x \<in> set xs. name_of x \<in> D}) obs"
  using assms name_inj [OF assms(1)] by (intro filter_cong) (auto, blast)

lemma fsck_spec:
  assumes "store_inv m" "answers be (sort_key obj_id (objects m)) s = (as, s1)" "fsck_tables be fx m s = (e, r, m', s2)"
  shows "let gone = missing_rows (sort_key obj_id (objects m)) as in
    buckets m' = buckets m \<and> uploads m' = uploads m \<and> parts m' = parts m \<and>
    (\<exists>D\<subseteq>set gone. objects m' = filter (\<lambda>ob. ob \<notin> D) (objects m) \<and> (\<not> fx \<longrightarrow> D = {}) \<and> (fx \<and> faults m = [] \<longrightarrow> D = set gone)) \<and>
    (faults m = [] \<longrightarrow> s2 = s1 \<and> rp_checked r = length (objects m) \<and> rp_list r = map name_of gone \<and> rp_orphans r = length gone \<and>
       rp_removed r = (if fx then length gone else 0) \<and> (e = None \<longleftrightarrow> (\<forall>a\<in>set as. \<not> is_error a)))"
proof -
  let ?obs = "sort_key obj_id (objects m)" and ?gone = "missing_rows (sort_key obj_id (objects m)) as"
  have inv: "t_inv obj_id (objects m)" using assms(1) by (simp add: store_inv_def)
  have gone: "set ?gone \<subseteq> set (objects m)" using missing_rows_subset [of ?obs as] by simp
  have "distinct ?obs" using inv by (simp add: t_inv_def distinct_map)
  then have names: "distinct (map name_of ?gone)" using names_distinct [OF inv _ gone] missing_distinct by blast
  obtain f ms where q: "sql m = (f, ms)" by fastforce
  have ms: "tables ms = tables m" "faults m = [] \<Longrightarrow> f = None \<and> ms = m" using q by (auto simp: sql_def tables_def split: list.splits)
  show ?thesis
  proof (cases f)
    case (Some p)
    obtain e0 k where p: "p = (e0, k)" by (cases p)
    have "m' = ms" using assms(3) q Some p
      by (auto simp: fsck_tables_def for_each_object_def for_query_def split: prod.splits sum.splits)
    moreover have "faults m \<noteq> []" using ms(2) Some by auto
    moreover have "objects m = filter (\<lambda>ob. ob \<notin> {}) (objects m)" by simp
    ultimately show ?thesis using ms(1) unfolding Let_def by (intro conjI exI [of _ "{}"]) (simp_all add: tables_def)
  next
    case None
    note walk = fsck_walk [OF assms(2), of empty_report]
    let ?r = "\<lparr>rp_checked = length ?obs, rp_orphans = length ?gone, rp_query_errs = length (filter is_error as), rp_removed = 0,
      rp_list = map name_of ?gone\<rparr>"
    obtain n m2 where fixed: "(if fx \<and> map name_of ?gone \<noteq> [] then remove_orphans (map name_of ?gone) 0 ms else (0, ms)) = (n, m2)"
      by fastforce
    have res: "m' = m2" "s2 = s1" "r = ?r\<lparr>rp_removed := n\<rparr>" "e = None \<longleftrightarrow> filter is_error as = []"
      using assms(3) q None walk fixed
      by (auto simp: fsck_tables_def for_each_object_def for_query_def empty_report_def Let_def split: if_splits)
    show ?thesis
    proof (cases "fx \<and> map name_of ?gone \<noteq> []")
      case False
      then show ?thesis using res fixed ms by (auto simp: Let_def tables_def filter_empty_conv split: if_splits)
    next
      case True
      then have run: "remove_orphans (map name_of ?gone) 0 ms = (n, m2)" using fixed by simp
      from remove_orphans_spec [OF run] obtain D where D: "D \<subseteq> name_of ` set ?gone"
        "objects m2 = filter (\<lambda>ob. name_of ob \<notin> D) (objects ms)"
        and same: "buckets m2 = buckets ms" "uploads m2 = uploads ms" "parts m2 = parts ms" by auto
      have all: "n = length ?gone \<and> objects m2 = filter (\<lambda>ob. name_of ob \<notin> name_of ` set ?gone) (objects m)" if "faults m = []"
        using remove_orphans_all [OF run _ names] gone ms that by (auto simp: tables_def)
      have ex: "\<exists>D\<subseteq>set ?gone. objects m2 = filter (\<lambda>ob. ob \<notin> D) (objects m) \<and> (faults m = [] \<longrightarrow> D = set ?gone)"
      proof (cases "faults m = []")
        case True
        have "{x \<in> set ?gone. name_of x \<in> name_of ` set ?gone} = set ?gone" by auto
        then show ?thesis using all [OF True] filter_names [OF inv gone order.refl] by (intro exI [of _ "set ?gone"]) simp
      next
        case False
        then show ?thesis using D filter_names [OF inv gone D(1)] ms(1)
          by (intro exI [of _ "{x \<in> set ?gone. name_of x \<in> D}"]) (auto simp: tables_def)
      qed
      have "buckets m' = buckets m" "uploads m' = uploads m" "parts m' = parts m" using res(1) same ms(1) by (simp_all add: tables_def)
      moreover have "faults m = [] \<longrightarrow> s2 = s1 \<and> rp_checked r = length (objects m) \<and> rp_list r = map name_of ?gone \<and>
          rp_orphans r = length ?gone \<and> rp_removed r = length ?gone" using res(2,3) all by simp
      moreover have "e = None \<longleftrightarrow> (\<forall>a\<in>set as. \<not> is_error a)" unfolding res(4) by (simp add: filter_empty_conv)
      ultimately show ?thesis using ex True unfolding Let_def res(1) by simp
    qed
  qed
qed

section \<open>A channel with a lost message\<close>

definition kept_row :: object where
  "kept_row = \<lparr>o_bucket = ''abc'', o_key = ''kept'', o_size = 1, o_ctsize = 41, o_etag = [], o_ctype = [], o_msg = 0, o_file = ''0'',
     o_nonce = replicate 12 0, o_created = 5\<rparr>"

definition fsck_store :: store where
  "fsck_store = empty_store\<lparr>objects := [kept_row\<lparr>o_key := ''lost'', o_msg := 1, o_file := ''1''\<rparr>, kept_row]\<rparr>"

definition fsck_chat :: mem_session where
  "fsck_chat = ([Some [7], None], [])"

lemma fsck_store_inv: "store_inv fsck_store"
  by code_simp

lemma fsck_answers: "answers (mt_backend mem_mtproto) (sort_key obj_id (objects fsck_store)) fsck_chat = ([Inr True, Inr False], fsck_chat)"
  by code_simp

text \<open>
  CX: \<^verbatim>\<open>fsck\<close> deletes nothing but rows of missing files.  It changes no table but the objects, and there only
  with \<open>--fix\<close>, deleting no row but those whose files the backend has reported missing, even when
  statements of the database fail.  When none fails it asks for every row once, reports exactly the
  missing ones, with \<open>--fix\<close> deletes them all, and ends with an error iff an answer was one.
\<close>

theorem fsck_removes_only_missing:
  assumes "store_inv m" "answers be (sort_key obj_id (objects m)) s = (as, s1)" "fsck_tables be fx m s = (e, r, m', s2)"
  shows "let gone = missing_rows (sort_key obj_id (objects m)) as in
    buckets m' = buckets m \<and> uploads m' = uploads m \<and> parts m' = parts m \<and>
    (\<exists>D\<subseteq>set gone. objects m' = filter (\<lambda>ob. ob \<notin> D) (objects m) \<and> (\<not> fx \<longrightarrow> D = {}) \<and> (fx \<and> faults m = [] \<longrightarrow> D = set gone)) \<and>
    (faults m = [] \<longrightarrow> s2 = s1 \<and> rp_checked r = length (objects m) \<and> rp_list r = map name_of gone \<and> rp_orphans r = length gone \<and>
       rp_removed r = (if fx then length gone else 0) \<and> (e = None \<longleftrightarrow> (\<forall>a\<in>set as. \<not> is_error a)))"
  by (rule fsck_spec [OF assms])

theorem fsck_removes_only_missing_witness:
  "case fsck_tables (mt_backend mem_mtproto) True fsck_store fsck_chat of (e, r, m', s') \<Rightarrow>
     rp_list r = [(''abc'', ''lost'')] \<and> objects m' = [kept_row] \<and> e = None"
proof -
  obtain e r m' s' where run: "fsck_tables (mt_backend mem_mtproto) True fsck_store fsck_chat = (e, r, m', s')"
    by (cases "fsck_tables (mt_backend mem_mtproto) True fsck_store fsck_chat")
  have gone: "missing_rows (sort_key obj_id (objects fsck_store)) [Inr True, Inr False] = [kept_row\<lparr>o_key := ''lost'', o_msg := 1, o_file := ''1''\<rparr>]"
    by code_simp
  have faults: "faults fsck_store = []" by (simp add: fsck_store_def empty_store_def)
  note t = fsck_removes_only_missing [OF fsck_store_inv fsck_answers run, unfolded gone Let_def]
  then have "objects m' = filter (\<lambda>ob. ob \<notin> {kept_row\<lparr>o_key := ''lost'', o_msg := 1, o_file := ''1''\<rparr>}) (objects fsck_store)"
    using faults by auto
  then have "objects m' = [kept_row]" by (simp add: fsck_store_def kept_row_def)
  moreover have "rp_list r = [(''abc'', ''lost'')]" "e = None" using t faults
    by (simp_all add: name_of_def kept_row_def is_error_def)
  ultimately show ?thesis using run by simp
qed

section \<open>Over the MTProto adapter\<close>

text \<open>\<^verbatim>\<open>channels.getMessages\<close> returns a message with a document as such, and no error of the library wraps
  the adapter's own sentinel.\<close>

definition presence_law :: "('s, 'f) client \<Rightarrow> ('s, 'f) view \<Rightarrow> channel \<Rightarrow> bool" where
  "presence_law c v ch \<longleftrightarrow> (\<forall>i s r s'. cl_get c ch i s = (r, s') \<longrightarrow>
     (\<forall>e. r = Inl e \<longrightarrow> \<not> errors_is e ErrBlobNotFound) \<and>
     (\<forall>ms l f d. r = Inr ms \<longrightarrow> messages_of ms = Some l \<longrightarrow> vw_held v s (i, f) = Some d \<longrightarrow> first_some message_document l \<noteq> None))"

lemma mt_exists_held:
  assumes "session_laws b v" "presence_law (mt_client b) v (mt_channel b)" "mt_exists b ref s = (a, s')"
  shows "vw_held v s' = vw_held v s \<and> (a = Inr False \<longrightarrow> vw_held v s ref = None)"
proof (cases "mt_ready b")
  case False
  have "\<not> errors_is nil_deref ErrBlobNotFound" by (simp add: nil_deref_def ErrBlobNotFound_def)
  then show ?thesis using assms(3) False by (auto simp: mt_exists_def resolve_document_def ecatch_def efail_def)
next
  case True
  obtain x s1 where x: "cl_get (mt_client b) (mt_channel b) (fst ref) s = (x, s1)" by fastforce
  have held: "vw_held v s1 = vw_held v s" using assms(1) x unfolding session_laws_def get_call_law_def by blast
  have err: "\<not> errors_is e ErrBlobNotFound" if "x = Inl e" for e using assms(2) x that unfolding presence_law_def by blast
  have doc: "vw_held v s (fst ref, snd ref) = None" if "x = Inr ms" "messages_of ms = Some l" "first_some message_document l = None" for ms l
    using assms(2) x that unfolding presence_law_def by (metis not_None_eq)
  have other: "\<not> errors_is (Wrap t [e]) ErrBlobNotFound" if "\<not> errors_is e ErrBlobNotFound" for t e
    using that by (simp add: ErrBlobNotFound_def)
  show ?thesis using assms(3) True x held
    by (auto simp: mt_exists_def resolve_document_def ecatch_def efail_def eret_def ErrBlobNotFound_def
      dest: err doc split: sum.splits option.splits prod.splits if_splits)
qed

lemma answers_held:
  assumes "session_laws b v" "presence_law (mt_client b) v (mt_channel b)" "answers (mt_backend b) obs s = (as, s')"
  shows "vw_held v s' = vw_held v s \<and> (\<forall>ob\<in>set (missing_rows obs as). vw_held v s (ref_of ob) = None)"
  using assms(3)
proof (induction obs arbitrary: s as)
  case (Cons ob obs)
  obtain a s1 where a: "mt_exists b (o_msg ob, o_file ob) s = (a, s1)" by fastforce
  obtain bs s2 where bs: "answers (mt_backend b) obs s1 = (bs, s2)" by fastforce
  have as: "as = a # bs" "s' = s2" using Cons.prems a bs by (auto simp: mt_backend_def)
  note x = mt_exists_held [OF assms(1,2) a]
  have "missing_rows (ob # obs) as = (if a = Inr False then [ob] else []) @ missing_rows obs bs"
    by (simp add: as missing_rows_def)
  then show ?case using Cons.IH [OF bs [folded as(2)]] x as by (auto simp: ref_of_def)
qed (simp add: missing_rows_def)

lemma for_rows_answers: "snd (snd (for_rows (fsck_row be) obs (r, s))) = snd (answers be obs s)"
  using fsck_walk [of be obs s "fst (answers be obs s)" "snd (answers be obs s)" r] by simp

lemma fsck_end:
  assumes "fsck_tables be fx m s = (e, r, m', s2)"
  shows "\<exists>obs. s2 = snd (answers be obs s)"
proof -
  have "\<exists>obs. s2 = snd (snd (for_rows (fsck_row be) obs (empty_report, s)))"
    using assms unfolding fsck_tables_def for_each_object_def for_query_def
    by (auto simp: Let_def split: prod.splits sum.splits option.splits if_splits) (metis snd_conv)+
  then show ?thesis unfolding for_rows_answers .
qed

lemma mem_presence: "presence_law (mt_client mem_mtproto) mem_view (mt_channel mem_mtproto)"
  by (auto simp: presence_law_def mem_mtproto_def mem_client_def mem_view_def mem_message_def split: if_splits)

text \<open>
  CX: \<^verbatim>\<open>fsck\<close> loses nothing over the MTProto adapter.  Whatever fails, and with \<open>--fix\<close> or without, the row of
  an object whose document is in the channel is still there afterwards, and so is the document.
\<close>

theorem fsck_spares_held:
  assumes "session_laws b v" "presence_law (mt_client b) v (mt_channel b)" "store_inv m"
    and "fsck_tables (mt_backend b) fx m s = (e, r, m', s')" "ob \<in> set (objects m)" "vw_held v s (ref_of ob) = Some d"
  shows "ob \<in> set (objects m') \<and> vw_held v s' (ref_of ob) = Some d"
proof -
  let ?obs = "sort_key obj_id (objects m)"
  obtain as s1 where as: "answers (mt_backend b) ?obs s = (as, s1)" by fastforce
  have "ob \<notin> set (missing_rows ?obs as)" using answers_held [OF assms(1,2) as] assms(6) by auto
  then have "ob \<in> set (objects m')" using fsck_spec [OF assms(3) as assms(4)] assms(5) by (auto simp: Let_def)
  moreover obtain obs where "s' = snd (answers (mt_backend b) obs s)" using fsck_end [OF assms(4)] by blast
  then have "vw_held v s' = vw_held v s" using answers_held [OF assms(1,2) prod.collapse [symmetric]] by simp
  ultimately show ?thesis using assms(6) by simp
qed

theorem fsck_spares_held_witness:
  "case fsck_tables (mt_backend mem_mtproto) True fsck_store fsck_chat of (e, r, m', s') \<Rightarrow>
     kept_row \<in> set (objects m') \<and> vw_held mem_view s' (ref_of kept_row) = Some [7]"
proof -
  obtain e r m' s' where run: "fsck_tables (mt_backend mem_mtproto) True fsck_store fsck_chat = (e, r, m', s')"
    by (cases "fsck_tables (mt_backend mem_mtproto) True fsck_store fsck_chat")
  have held: "vw_held mem_view fsck_chat (ref_of kept_row) = Some [7]" by code_simp
  have "kept_row \<in> set (objects fsck_store)" by (simp add: fsck_store_def)
  from fsck_spares_held [OF mem_session_laws mem_presence fsck_store_inv run this held] run show ?thesis by simp
qed

end
