(* ===== verification/MetadataIO.thy ===== *)
theory MetadataIO
  imports Daemon
begin

text \<open>
  The commands \<^verbatim>\<open>export-metadata\<close> and \<^verbatim>\<open>import-metadata\<close>: \<^verbatim>\<open>cmd/telang/metadata_io.go\<close>.  The JSON
  package is the record \<open>jsonl\<close> of its encoders and decoders for the types of the records; times are
  seconds, as the tables hold them.
\<close>

section \<open>Records\<close>

record bucket_data =
  bd_name :: string
  bd_created :: int
  bd_enckey :: string

record object_data =
  od_bucket :: string
  od_key :: string
  od_size :: int
  od_ctsize :: int
  od_etag :: string
  od_ctype :: string
  od_msg :: int
  od_file :: string
  od_nonce :: string   \<comment> \<open>\<^verbatim>\<open>NonceB64\<close>\<close>
  od_created :: int

record part_data =
  pd_num :: int
  pd_size :: int
  pd_etag :: string

record multipart_data =
  md_upload :: string
  md_bucket :: string
  md_key :: string
  md_staging :: string
  md_created :: int
  md_parts :: "part_data list"

record meta_record =
  mr_v :: int
  mr_kind :: string
  mr_data :: string

record jsonl =
  js_header :: "int \<Rightarrow> string \<Rightarrow> goerr + string"
  js_bucket :: "bucket_data \<Rightarrow> goerr + string"
  js_object :: "object_data \<Rightarrow> goerr + string"
  js_multipart :: "multipart_data \<Rightarrow> goerr + string"
  js_record :: "meta_record \<Rightarrow> goerr + string"   \<comment> \<open>without the newline that \<^verbatim>\<open>Encode\<close> adds\<close>
  jd_bucket :: "string \<Rightarrow> goerr + bucket_data"
  jd_object :: "string \<Rightarrow> goerr + object_data"
  jd_multipart :: "string \<Rightarrow> goerr + multipart_data"
  jd_record :: "string \<Rightarrow> goerr + meta_record"

definition export_version :: int where "export_version = 1"

section \<open>Export\<close>

text \<open>Standard output: what is written, and a schedule of failing writes.\<close>

record out =
  ou_text :: string
  ou_faults :: "goerr option list"

definition write_line :: "string \<Rightarrow> (out, unit) step" where
  "write_line l w = (case ou_faults w of
       Some e # fs \<Rightarrow> (Inl e, w\<lparr>ou_faults := fs\<rparr>)
     | None # fs \<Rightarrow> (Inr (), w\<lparr>ou_text := ou_text w @ l @ [CHR 0x0A], ou_faults := fs\<rparr>)
     | [] \<Rightarrow> (Inr (), w\<lparr>ou_text := ou_text w @ l @ [CHR 0x0A]\<rparr>))"

definition emit :: "jsonl \<Rightarrow> string \<Rightarrow> goerr + string \<Rightarrow> (out, unit) step" where
  "emit j kind payload = (case payload of
       Inl e \<Rightarrow> efail e
     | Inr raw \<Rightarrow> (case js_record j \<lparr>mr_v = export_version, mr_kind = kind, mr_data = raw\<rparr> of
           Inl e \<Rightarrow> efail e | Inr l \<Rightarrow> write_line l))"

definition bucket_record :: "bucket \<Rightarrow> bucket_data" where
  "bucket_record b = \<lparr>bd_name = b_name b, bd_created = b_created b, bd_enckey = b_enckey b\<rparr>"

definition object_record :: "object \<Rightarrow> object_data" where
  "object_record ob = \<lparr>od_bucket = o_bucket ob, od_key = o_key ob, od_size = o_size ob, od_ctsize = o_ctsize ob,
     od_etag = o_etag ob, od_ctype = o_ctype ob, od_msg = o_msg ob, od_file = o_file ob,
     od_nonce = std_encode (o_nonce ob), od_created = o_created ob\<rparr>"

definition part_record :: "part \<Rightarrow> part_data" where
  "part_record p = \<lparr>pd_num = p_num p, pd_size = p_size p, pd_etag = p_etag p\<rparr>"

definition multipart_record :: "upload \<Rightarrow> part list \<Rightarrow> multipart_data" where
  "multipart_record m ps = \<lparr>md_upload = u_id m, md_bucket = u_bucket m, md_key = u_key m, md_staging = u_staging m,
     md_created = u_created m, md_parts = map part_record ps\<rparr>"

definition export_note :: string where "export_note = ''telang metadata export''"

text \<open>The queries run one after the other; an error of one ends the export.\<close>

definition export_tables :: "jsonl \<Rightarrow> int \<Rightarrow> store \<Rightarrow> out \<Rightarrow> (goerr + unit) \<times> out \<times> store" where
  "export_tables j now m w = (case emit j ''header'' (js_header j now export_note) w of
       (Inl e, w1) \<Rightarrow> (Inl e, w1, m)
     | (Inr _, w1) \<Rightarrow> (case for_each_bucket (\<lambda>b. emit j ''bucket'' (js_bucket j (bucket_record b))) w1 m of
           (Inl e, w2, m2) \<Rightarrow> (Inl e, w2, m2)
         | (Inr _, w2, m2) \<Rightarrow> (case for_each_object (\<lambda>ob. emit j ''object'' (js_object j (object_record ob))) w2 m2 of
               (Inl e, w3, m3) \<Rightarrow> (Inl e, w3, m3)
             | (Inr _, w3, m3) \<Rightarrow> for_each_multipart (\<lambda>u ps. emit j ''multipart'' (js_multipart j (multipart_record u ps))) w3 m3)))"

section \<open>Reading lines\<close>

text \<open>\<^verbatim>\<open>bufio.Scanner\<close> with a buffer of 16 MiB: lines without their ending, a last one without a newline;
  a line that fills the buffer is an error.  The second component is \<^verbatim>\<open>sc.Err()\<close>.\<close>

definition max_line :: nat where "max_line = 16 * 2 ^ 20"
definition ErrTooLong :: goerr where "ErrTooLong = New ''bufio.Scanner: token too long''"

definition drop_cr :: "string \<Rightarrow> string" where
  "drop_cr l = (if l \<noteq> [] \<and> last l = CHR 0x0D then butlast l else l)"

fun cut_long :: "string list \<Rightarrow> string list \<times> goerr option" where
  "cut_long [] = ([], None)"
| "cut_long (l # ls) = (if length l \<ge> max_line then ([], Some ErrTooLong)
     else case cut_long ls of (ts, e) \<Rightarrow> (drop_cr l # ts, e))"

definition scan_lines :: "reader \<Rightarrow> string list \<times> goerr option" where
  "scan_lines r = (let ls = split_on CHR 0x0A (string_of (fst r));
       ls' = (if last ls = [] then butlast ls else ls)
     in case cut_long ls' of
          (ts, Some e) \<Rightarrow> (ts, Some e)
        | (ts, None) \<Rightarrow> (ts, case snd r of Eof \<Rightarrow> None | Fail e \<Rightarrow> Some e))"

section \<open>Import\<close>

record import_state =
  im_header :: bool
  im_buckets :: nat
  im_objects :: nat
  im_uploads :: nat

definition object_of :: "object_data \<Rightarrow> bytes \<Rightarrow> object" where
  "object_of d nonce = \<lparr>o_bucket = od_bucket d, o_key = od_key d, o_size = od_size d, o_ctsize = od_ctsize d,
     o_etag = od_etag d, o_ctype = od_ctype d, o_msg = od_msg d, o_file = od_file d, o_nonce = nonce, o_created = od_created d\<rparr>"

definition upload_of :: "multipart_data \<Rightarrow> upload" where
  "upload_of d = \<lparr>u_id = md_upload d, u_bucket = md_bucket d, u_key = md_key d, u_staging = md_staging d, u_created = md_created d\<rparr>"

definition part_of :: "string \<Rightarrow> part_data \<Rightarrow> part" where
  "part_of u d = \<lparr>p_upload = u, p_num = pd_num d, p_size = pd_size d, p_etag = pd_etag d\<rparr>"

fun upsert_parts :: "part list \<Rightarrow> (store, unit) step" where
  "upsert_parts [] = eret ()"
| "upsert_parts (p # ps) = ebind (upsert_part p) (\<lambda>_. upsert_parts ps)"

definition import_bucket :: "int \<Rightarrow> bucket_data \<Rightarrow> (store, unit) step" where
  "import_bucket now d = ecatch (create_bucket now (bd_name d) (bd_enckey d))
     (\<lambda>e. efail (Wrap (''import bucket '' @ go_quote (bd_name d)) [e])) eret"

definition import_object :: "int \<Rightarrow> object_data \<Rightarrow> (store, unit) step" where
  "import_object now d = (let ctx = ''import object '' @ od_bucket d @ ''/'' @ od_key d in
     case std_decode (od_nonce d) of
       None \<Rightarrow> efail (Wrap (ctx @ '': nonce'') [New ''illegal base64 data''])
     | Some nonce \<Rightarrow> ecatch (put_object now (object_of d nonce)) (\<lambda>e. efail (Wrap ctx [e])) eret)"

definition import_multipart :: "int \<Rightarrow> multipart_data \<Rightarrow> (store, unit) step" where
  "import_multipart now d =
     ecatch (create_multipart now (upload_of d)) (\<lambda>e. efail (Wrap (''import multipart '' @ md_upload d) [e]))
       (\<lambda>_. upsert_parts (map (part_of (md_upload d)) (md_parts d)))"

text \<open>One record; a bucket needs a header before it.\<close>

definition import_record :: "jsonl \<Rightarrow> int \<Rightarrow> meta_record \<Rightarrow> import_state \<Rightarrow> (store, import_state) step" where
  "import_record j now rec i =
     (if mr_v rec \<noteq> export_version then efail (New (''import: unsupported export version '' @ format_int (mr_v rec)))
      else if mr_kind rec = ''header'' then eret (i\<lparr>im_header := True\<rparr>)
      else if mr_kind rec = ''bucket'' then
        if \<not> im_header i then efail (New ''import: missing header'')
        else (case jd_bucket j (mr_data rec) of
            Inl e \<Rightarrow> efail e
          | Inr d \<Rightarrow> ebind (import_bucket now d) (\<lambda>_. eret (i\<lparr>im_buckets := Suc (im_buckets i)\<rparr>)))
      else if mr_kind rec = ''object'' then (case jd_object j (mr_data rec) of
            Inl e \<Rightarrow> efail e
          | Inr d \<Rightarrow> ebind (import_object now d) (\<lambda>_. eret (i\<lparr>im_objects := Suc (im_objects i)\<rparr>)))
      else if mr_kind rec = ''multipart'' then (case jd_multipart j (mr_data rec) of
            Inl e \<Rightarrow> efail e
          | Inr d \<Rightarrow> ebind (import_multipart now d) (\<lambda>_. eret (i\<lparr>im_uploads := Suc (im_uploads i)\<rparr>)))
      else efail (New (''import: unknown kind '' @ go_quote (mr_kind rec))))"

fun import_lines :: "jsonl \<Rightarrow> int \<Rightarrow> string list \<Rightarrow> import_state \<Rightarrow> (store, import_state) step" where
  "import_lines j now [] i = eret i"
| "import_lines j now (l # ls) i =
     (if l = [] then import_lines j now ls i
      else case jd_record j l of
          Inl e \<Rightarrow> efail (Wrap ''import: parse'' [e])
        | Inr rec \<Rightarrow> ebind (import_record j now rec i) (import_lines j now ls))"

text \<open>The error of \<^verbatim>\<open>ListBuckets\<close> is ignored; no rows come with it.\<close>

definition import_tables :: "jsonl \<Rightarrow> int \<Rightarrow> reader \<Rightarrow> (store, import_state) step" where
  "import_tables j now input m = (case list_buckets m of
       (r, m1) \<Rightarrow>
         if (case r of Inl e \<Rightarrow> False | Inr bs \<Rightarrow> bs \<noteq> [])
         then (Inl (New ''import-metadata: destination DB is not empty; remove telang.db first''), m1)
         else (case scan_lines input of (ls, err) \<Rightarrow>
           ebind (import_lines j now ls \<lparr>im_header = False, im_buckets = 0, im_objects = 0, im_uploads = 0\<rparr>)
             (\<lambda>i. case err of Some e \<Rightarrow> efail e | None \<Rightarrow> eret i) m1))"

section \<open>The commands\<close>

definition run_export :: "('h, 'f) host \<Rightarrow> jsonl \<Rightarrow> int \<Rightarrow> string \<Rightarrow> (out, unit) step" where
  "run_export h j now path =
     ebind (lift_result (load_config (ho_config h) path)) (\<lambda>cfg.
     ebind (lift_result (ho_meta h (st_db_path (cf_storage cfg)))) (\<lambda>m w.
       case export_tables j now m w of (r, w', m') \<Rightarrow> (r, w')))"

text \<open>The result is what is printed, with the database as it is left.\<close>

definition imported_line :: "import_state \<Rightarrow> string" where
  "imported_line i = ''imported buckets='' @ format_int (int (im_buckets i)) @ '' objects='' @ format_int (int (im_objects i)) @
     '' multipart_uploads='' @ format_int (int (im_uploads i)) @ [CHR 0x0A]"

definition run_import :: "('h, 'f) host \<Rightarrow> jsonl \<Rightarrow> int \<Rightarrow> string \<Rightarrow> reader \<Rightarrow> goerr + (goerr + string) \<times> store" where
  "run_import h j now path input = (case load_config (ho_config h) path of
       Inl e \<Rightarrow> Inl e
     | Inr cfg \<Rightarrow> (case ho_meta h (st_db_path (cf_storage cfg)) of
           Inl e \<Rightarrow> Inl e
         | Inr m \<Rightarrow> (case import_tables j now input m of
               (Inl e, m') \<Rightarrow> Inr (Inl e, m') | (Inr i, m') \<Rightarrow> Inr (Inr (imported_line i), m'))))"

end
