(* ===== verification/Spec2Isabelle.thy ===== *)
theory Spec2Isabelle
  imports Prelude FrameCrypto FrameReaders FrameProperties GoText Table Metadata MetadataProperties Codecs Listing ListingProperties ListingWalk GoTime SigCanonical SigVerify SigProperties SigClaims SigBody SigBodyClaims Keys KeysProperties S3Errors Storage Service UploadReads ServiceProperties ServiceRuns GoNumbers Multipart MultipartProperties MultipartRuns Requests ServiceClaims MultipartClaims Handlers Browser Router HttpProperties HttpClaims Bot BotProperties BotClaims Config ConfigClaims Mtproto MtprotoClaims Daemon DaemonClaims Fsck FsckClaims MetadataIO
begin

section \<open>Telang: S3 over Telegram\<close>

text \<open>
  Telang serves the S3 protocol and stores every object, encrypted, as one message of a Telegram
  channel.  A request enters the router (\<^verbatim>\<open>internal/s3api/router.go\<close>), which hands it to the browser
  interface (\<^verbatim>\<open>browser.go\<close>) or verifies its signature (\<^verbatim>\<open>internal/sigv4\<close>) and dispatches it to a
  handler (\<^verbatim>\<open>handlers.go\<close>, \<^verbatim>\<open>multipart.go\<close>).  The handlers call the business layer (\<^verbatim>\<open>service.go\<close>,
  \<^verbatim>\<open>multipart.go\<close>), which keeps rows in SQLite (\<^verbatim>\<open>internal/metadata\<close>), one key per bucket in
  \<^verbatim>\<open>keys.toml\<close> (\<^verbatim>\<open>internal/keys\<close>), encrypts with AES-GCM in frames (\<^verbatim>\<open>internal/crypto\<close>) and puts the
  ciphertext into a backend (\<^verbatim>\<open>internal/storage\<close>), through the Bot API (\<^verbatim>\<open>internal/storage/bot\<close>) or a
  user session.  \<^verbatim>\<open>internal/config\<close> reads the configuration and \<^verbatim>\<open>cmd/telang\<close> holds the commands.
\<close>

subsection \<open>Theories\<close>

text \<open>
  \<^item> \<open>Prelude\<close>: byte strings, 64-bit integers (\<open>i64\<close> wraps), errors as trees (\<open>goerr\<close>, \<open>errors_is\<close>
    is \<^verbatim>\<open>errors.Is\<close>), \<^verbatim>\<open>io.Reader\<close> as the bytes it delivers with its ending (\<open>reader\<close>), steps
    \<open>'s \<Rightarrow> (goerr + 'a) \<times> 's\<close>.  \<open>GoText\<close>, \<open>GoNumbers\<close>, \<open>GoTime\<close>, \<open>Codecs\<close>: the functions of Go's
    standard library that the program uses on texts, numbers, times and base64.  \<open>Table\<close>: the locale
    \<open>keyed_table\<close> of SQL tables with a primary key, interpreted in \<open>Metadata\<close> on the four tables and
    in \<open>Keys\<close> on the key map.
  \<^item> \<open>FrameCrypto\<close>: \<^verbatim>\<open>crypto.go\<close>, with the record \<open>cipher\<close> for \<^verbatim>\<open>Cipher\<close>, \<open>encrypter\<close> and \<open>decrypter\<close>
    for the two readers.  \<open>FrameReaders\<close>: the locale of the reader contract, interpreted on both
    \<^verbatim>\<open>Read\<close> methods.  \<open>FrameProperties\<close>: round trip, exact sizes, ranges, authenticity and nonces.
  \<^item> \<open>Metadata\<close>: \<^verbatim>\<open>metadata.go\<close>; \<open>store\<close> holds the rows of the four tables and a schedule of database
    failures.  \<open>MetadataProperties\<close>: atomic writes, primary keys, pages of keys.  \<open>Listing\<close>,
    \<open>ListingProperties\<close>, \<open>ListingWalk\<close>: \<^verbatim>\<open>list.go\<close>, and a client that follows the tokens.
  \<^item> \<open>SigCanonical\<close>, \<open>SigVerify\<close>: the canonical request and \<^verbatim>\<open>Verify\<close> of \<^verbatim>\<open>sigv4.go\<close>; \<open>SigBody\<close>: its
    body decoders.  \<open>SigProperties\<close>, \<open>SigClaims\<close>, \<open>SigBodyClaims\<close>: what they accept and deliver.
  \<^item> \<open>Keys\<close>: \<^verbatim>\<open>keys.go\<close> over a file system \<open>disk\<close> with a schedule of failures; \<open>KeysProperties\<close>: the
    file is replaced all or nothing and what is stored survives a restart.
  \<^item> \<open>Storage\<close>: the interface of \<^verbatim>\<open>storage.go\<close> as the record \<open>backend\<close> and its documented contract
    \<open>backend_laws\<close>.  \<open>S3Errors\<close>: the error catalogue \<^verbatim>\<open>errors.go\<close> and the translations into it.
  \<^item> \<open>Service\<close>, \<open>Multipart\<close>: \<^verbatim>\<open>service.go\<close> and the service half of \<^verbatim>\<open>multipart.go\<close>; the state \<open>world\<close>
    holds tables, keys, blobs, the cache, files and the random source.  \<open>UploadReads\<close>,
    \<open>ServiceProperties\<close>, \<open>ServiceRuns\<close>, \<open>MultipartProperties\<close>, \<open>MultipartRuns\<close>, \<open>Requests\<close>: what
    single operations and sequences of them keep.  \<open>ServiceClaims\<close>, \<open>MultipartClaims\<close>: their properties.
  \<^item> \<open>Handlers\<close>, \<open>Browser\<close>, \<open>Router\<close>: the HTTP layer; \<open>HttpProperties\<close>, \<open>HttpClaims\<close>: sequences of
    HTTP requests.
  \<^item> \<open>Bot\<close>, \<open>BotProperties\<close>, \<open>BotClaims\<close>: the Bot API adapter of \<^verbatim>\<open>bot.go\<close>; it meets the contract
    \<open>backend_laws\<close>, so what is proved of the business layer holds of it.
  \<^item> \<open>Mtproto\<close>, \<open>MtprotoClaims\<close>: the adapter of \<^verbatim>\<open>mtproto.go\<close>, over the record \<open>client\<close> of the calls
    into the client library; it meets the same contract.
  \<^item> \<open>Config\<close>, \<open>ConfigClaims\<close>: \<^verbatim>\<open>config.go\<close>.
  \<^item> \<open>Daemon\<close>, \<open>DaemonClaims\<close>: the command \<^verbatim>\<open>serve\<close> of \<^verbatim>\<open>main.go\<close>, which builds the handler over the
    record \<open>host\<close>; a started daemon satisfies the assumptions of the theories above, in both modes,
    and finds what an earlier one has stored.
\<close>

subsection \<open>Parameters and assumptions\<close>

text \<open>
  Code that is not in the repository is a parameter.  AES-GCM is the record \<open>aead\<close> with \<open>aead_laws\<close>
  (opening inverts sealing; \<open>aead_strict\<close>: only a sealed text opens); SHA-256 and HMAC are the
  record \<open>digests\<close>, without assumptions except where a theorem names a collision.  SQLite
  executes a statement or fails as a schedule says.  The JSON, TOML and XML decoders, the HTTP client, the form
  decoders of \<^verbatim>\<open>net/http\<close> and the package \<^verbatim>\<open>internal/cache\<close>, whose sources are missing, are
  function parameters whose laws are hypotheses of the theorems that need them.  A theorem with
  hypotheses comes with a witness on a concrete instance.

  Sizes: the ciphertext length is exact up to \<open>2 ^ 58\<close> bytes, nonces are distinct for all
  \<open>2 ^ 64\<close> frames, sizes in the configuration are exact below \<open>2 ^ 53\<close>; the bounds are those at
  which the code's 64-bit or floating arithmetic stops being exact.  Loops are recursions with a
  termination proof or over fuel; the fuel of the reader loops is the length of what is left to
  read, and the round trips show that it is enough.
\<close>

subsection \<open>What is not modelled\<close>

text \<open>
  \<^item> Locking and the scheduling of goroutines: requests run one after the other.  An upload is split
    at the point between storing the blob and writing the row, where another request can come in.
  \<^item> Logging, the HTML templates (with \<^verbatim>\<open>humanSize\<close>, which only they call) and the XML encoding of
    responses; handlers return the documents before encoding.
  \<^item> \<^verbatim>\<open>auth.go\<close> and \<^verbatim>\<open>reauth.go\<close>: the interactive login with the gotd client library.
\<close>

end
